(* ===== verification/Ket_Prelude.thy ===== *)
theory Ket_Prelude
  imports Main "HOL-Library.Word" "HOL-Library.Sublist" "HOL-Library.List_Lexorder"
    "HOL-Library.Product_Lexorder"
begin

text \<open>
  What every component shares: results with an error side, the saturating
  arithmetic of \<open>u64\<close> and \<open>u32\<close>, Rust's \<open>str\<close> as a list of Unicode scalar
  values with the parts of its API the program calls, decimal printing and
  reading, searching and updating lists the way the iterator chains of the
  source do, and the generic lemmas on all of these.
\<close>

named_theorems str_simps \<open>characterisations of the text predicates\<close>
named_theorems result_simps \<open>when a fallible computation returns, and what\<close>

subsection \<open>Results\<close>

abbreviation Ok :: "'a \<Rightarrow> 'e + 'a" where
  "Ok x \<equiv> Inr x"

abbreviation Err :: "'e \<Rightarrow> 'e + 'a" where
  "Err e \<equiv> Inl e"

definition ok_or :: "'a option \<Rightarrow> 'e \<Rightarrow> 'e + 'a" where
  "ok_or x e = (case x of None \<Rightarrow> Err e | Some y \<Rightarrow> Ok y)"

text \<open>Rust's \<open>iter().map(f).collect::<Result<Vec<_>, _>>()\<close>.\<close>

primrec try_map :: "('a \<Rightarrow> 'e + 'b) \<Rightarrow> 'a list \<Rightarrow> 'e + 'b list" where
  "try_map f [] = Ok []"
| "try_map f (x # xs) = (case f x of Err e \<Rightarrow> Err e
     | Ok y \<Rightarrow> (case try_map f xs of Err e \<Rightarrow> Err e | Ok ys \<Rightarrow> Ok (y # ys)))"

lemma ok_or_Ok [simp]: "ok_or x e = Ok y \<longleftrightarrow> x = Some y"
  by (cases x) (auto simp: ok_or_def)

lemma ok_or_Err [simp]: "ok_or x e = Err e' \<longleftrightarrow> x = None \<and> e' = e"
  by (cases x) (auto simp: ok_or_def)

lemma if_Err_Ok [simp]: "(if c then Err e else x) = Ok y \<longleftrightarrow> \<not> c \<and> x = Ok y"
  by simp

lemma case_result_Ok [simp]:
  "(case x of Err e \<Rightarrow> Err (h e) | Ok y \<Rightarrow> f y) = Ok z \<longleftrightarrow> (\<exists>y. x = Ok y \<and> f y = Ok z)"
  by (cases x) auto

lemma case_option_Err_Ok [simp]:
  "(case x of None \<Rightarrow> Err e | Some y \<Rightarrow> f y) = Ok z \<longleftrightarrow> (\<exists>y. x = Some y \<and> f y = Ok z)"
  by (cases x) auto

lemma case_option_False [simp]:
  "(case x of None \<Rightarrow> False | Some y \<Rightarrow> P y) \<longleftrightarrow> (\<exists>y. x = Some y \<and> P y)"
  by (cases x) auto

lemma try_map_Ok_iff [result_simps]:
  "try_map f xs = Ok ys \<longleftrightarrow> list_all2 (\<lambda>x y. f x = Ok y) xs ys"
proof (induction xs arbitrary: ys)
  case (Cons x xs)
  show ?case
    by (cases "f x"; cases "try_map f xs"; cases ys) (auto simp flip: Cons.IH)
qed auto

lemma try_map_total:
  "(\<And>x. x \<in> set xs \<Longrightarrow> \<exists>y. f x = Ok y) \<Longrightarrow> \<exists>ys. try_map f xs = Ok ys"
  by (induction xs) (fastforce split: sum.splits)+

lemma try_map_Ok_map:
  "(\<And>x. x \<in> set xs \<Longrightarrow> f x = Ok (g x)) \<Longrightarrow> try_map f xs = Ok (map g xs)"
  by (induction xs) auto

subsection \<open>Unsigned integers\<close>

text \<open>
  A \<open>u64\<close> or \<open>u32\<close> that only saturates, compares or counts is a natural
  number; the saturating operations write the bound out.
\<close>

definition u64_max :: nat where "u64_max = 2 ^ 64 - 1"
definition u32_max :: nat where "u32_max = 2 ^ 32 - 1"

definition sat_add64 :: "nat \<Rightarrow> nat \<Rightarrow> nat" where
  "sat_add64 a b = min (a + b) u64_max"

definition sat_add32 :: "nat \<Rightarrow> nat \<Rightarrow> nat" where
  "sat_add32 a b = min (a + b) u32_max"

lemma sat_add64_le [simp]: "sat_add64 a b \<le> u64_max"
  by (simp add: sat_add64_def)

lemma sat_add64_le_add: "sat_add64 a b \<le> a + b"
  by (simp add: sat_add64_def)

lemma sat_add64_ge: "a \<le> u64_max \<Longrightarrow> a \<le> sat_add64 a b"
  by (simp add: sat_add64_def)

lemma sat_add64_exact: "a + b \<le> u64_max \<Longrightarrow> sat_add64 a b = a + b"
  by (simp add: sat_add64_def)

lemma sat_add64_0 [simp]: "a \<le> u64_max \<Longrightarrow> sat_add64 a 0 = a"
  by (simp add: sat_add64_def)

subsection \<open>Text\<close>

text \<open>
  A \<open>str\<close> is the list of its \<open>char\<close>s, each a Unicode scalar value. Its
  \<open>len()\<close> is the number of bytes of its UTF-8 form.
\<close>

type_synonym uchar = nat
type_synonym rstr = "uchar list"

definition lit :: "string \<Rightarrow> rstr" where
  "lit s = map of_char s"

definition utf8_width :: "uchar \<Rightarrow> nat" where
  "utf8_width c = (if c < 0x80 then 1 else if c < 0x800 then 2 else if c < 0x10000 then 3 else 4)"

definition str_len :: "rstr \<Rightarrow> nat" where
  "str_len s = sum_list (map utf8_width s)"

definition is_digit :: "uchar \<Rightarrow> bool" where
  "is_digit c \<longleftrightarrow> 48 \<le> c \<and> c \<le> 57"

definition is_lower :: "uchar \<Rightarrow> bool" where
  "is_lower c \<longleftrightarrow> 97 \<le> c \<and> c \<le> 122"

definition is_upper :: "uchar \<Rightarrow> bool" where
  "is_upper c \<longleftrightarrow> 65 \<le> c \<and> c \<le> 90"

definition is_alnum :: "uchar \<Rightarrow> bool" where
  "is_alnum c \<longleftrightarrow> is_digit c \<or> is_lower c \<or> is_upper c"

text \<open>\<open>char::is_control\<close>: the general category Cc.\<close>

definition is_control :: "uchar \<Rightarrow> bool" where
  "is_control c \<longleftrightarrow> c < 0x20 \<or> (0x7F \<le> c \<and> c < 0xA0)"

text \<open>\<open>char::is_whitespace\<close>: the property \<open>White_Space\<close>.\<close>

definition is_whitespace :: "uchar \<Rightarrow> bool" where
  "is_whitespace c \<longleftrightarrow> (9 \<le> c \<and> c \<le> 13) \<or> c = 0x20 \<or> c = 0x85 \<or> c = 0xA0 \<or> c = 0x1680
     \<or> (0x2000 \<le> c \<and> c \<le> 0x200A) \<or> c = 0x2028 \<or> c = 0x2029 \<or> c = 0x202F \<or> c = 0x205F
     \<or> c = 0x3000"

definition trim_start :: "rstr \<Rightarrow> rstr" where
  "trim_start s = dropWhile is_whitespace s"

definition trim_end :: "rstr \<Rightarrow> rstr" where
  "trim_end s = rev (dropWhile is_whitespace (rev s))"

definition trim :: "rstr \<Rightarrow> rstr" where
  "trim s = trim_end (trim_start s)"

lemmas char_class_defs = is_digit_def is_lower_def is_upper_def is_alnum_def is_control_def
  is_whitespace_def

lemma length_dropWhile_id: "length (dropWhile P xs) = length xs \<Longrightarrow> dropWhile P xs = xs"
  by (metis append_Nil add_cancel_left_left length_0_conv length_append takeWhile_dropWhile_id)

lemma trim_id_iff [str_simps]:
  "trim s = s \<longleftrightarrow> s = [] \<or> (\<not> is_whitespace (hd s) \<and> \<not> is_whitespace (last s))"
proof (cases "s = []")
  case False
  have len: "length (trim s) \<le> length (trim_start s)" "length (trim_start s) \<le> length s"
    by (simp_all add: trim_def trim_start_def trim_end_def length_dropWhile_le)
      (metis length_dropWhile_le length_rev)
  show ?thesis
  proof
    assume eq: "trim s = s"
    then have "trim_start s = s"
      using len length_dropWhile_id [of is_whitespace s] by (simp add: trim_start_def)
    then show "s = [] \<or> (\<not> is_whitespace (hd s) \<and> \<not> is_whitespace (last s))"
      using eq False unfolding trim_def trim_end_def trim_start_def
      by (metis dropWhile_eq_self_iff hd_rev rev_is_Nil_conv rev_rev_ident)
  next
    assume "s = [] \<or> (\<not> is_whitespace (hd s) \<and> \<not> is_whitespace (last s))"
    then show "trim s = s"
      using False unfolding trim_def trim_end_def trim_start_def
      by (metis dropWhile_eq_self_iff hd_rev rev_rev_ident)
  qed
qed (simp add: trim_def trim_start_def trim_end_def)

lemma trim_not_whitespace:
  "trim s \<noteq> [] \<Longrightarrow> \<not> is_whitespace (hd (trim s)) \<and> \<not> is_whitespace (last (trim s))"
proof -
  assume ne: "trim s \<noteq> []"
  define t where "t = trim_start s"
  have t: "trim s = rev (dropWhile is_whitespace (rev t))"
    by (simp add: t_def trim_def trim_end_def)
  have "t \<noteq> []" using ne t by auto
  then have hd_t: "\<not> is_whitespace (hd t)"
    unfolding t_def trim_start_def by (rule hd_dropWhile)
  have split: "trim s @ rev (takeWhile is_whitespace (rev t)) = t"
    using t by (metis rev_append rev_rev_ident takeWhile_dropWhile_id)
  have "hd (trim s) = hd t" using ne split by (metis hd_append2)
  moreover have "\<not> is_whitespace (last (trim s))"
    using ne t by (metis hd_dropWhile last_rev rev_is_Nil_conv)
  ultimately show ?thesis using hd_t by simp
qed

lemma trim_idem [simp]: "trim (trim s) = trim s"
  using trim_not_whitespace [of s] by (auto simp: trim_id_iff)

lemma utf8_width_pos [simp]: "0 < utf8_width c"
  by (simp add: utf8_width_def)

lemma length_le_str_len: "length s \<le> str_len s"
  by (induction s) (auto simp: str_len_def utf8_width_def)

lemma str_len_alnum [str_simps]: "list_all is_alnum s \<Longrightarrow> str_len s = length s"
  by (induction s) (auto simp: str_len_def utf8_width_def char_class_defs)

text \<open>Decimal text, as \<open>format!("{n}")\<close> prints it.\<close>

fun decimal :: "nat \<Rightarrow> rstr" where
  "decimal n = (if n < 10 then [48 + n] else decimal (n div 10) @ [48 + n mod 10])"

declare decimal.simps [simp del]

definition digits_value :: "rstr \<Rightarrow> nat" where
  "digits_value s = foldl (\<lambda>v c. v * 10 + (c - 48)) 0 s"

lemma decimal_digits: "list_all is_digit (decimal n)"
proof (induction n rule: decimal.induct)
  case (1 n)
  have "is_digit (48 + n mod 10)" "n < 10 \<Longrightarrow> is_digit (48 + n)"
    by (simp_all add: is_digit_def)
  with 1 show ?case by (simp add: decimal.simps [of n])
qed

lemma decimal_nonempty [simp]: "decimal n \<noteq> []"
  by (subst decimal.simps) auto

lemma digits_value_snoc [simp]: "digits_value (s @ [c]) = digits_value s * 10 + (c - 48)"
  by (simp add: digits_value_def)

lemma digits_value_decimal [simp]: "digits_value (decimal n) = n"
proof (induction n rule: decimal.induct)
  case (1 n)
  show ?case
  proof (cases "n < 10")
    case True
    then show ?thesis by (simp add: decimal.simps [of n] digits_value_def)
  next
    case False
    then show ?thesis using 1 by (simp add: decimal.simps [of n])
  qed
qed

lemma decimal_inject [simp]: "decimal m = decimal n \<longleftrightarrow> m = n"
  by (metis digits_value_decimal)

lemma decimal_no_leading_zero: "hd (decimal n) = 48 \<Longrightarrow> n = 0"
proof (induction n rule: decimal.induct)
  case (1 n)
  then show ?case
    by (cases "n < 10") (auto simp: decimal.simps [of n] hd_append)
qed

lemma length_decimal_le: "n < 10 ^ k \<Longrightarrow> 0 < k \<Longrightarrow> length (decimal n) \<le> k"
proof (induction n arbitrary: k rule: decimal.induct)
  case (1 n)
  show ?case
  proof (cases "n < 10")
    case False
    then obtain j where k: "k = Suc j" "0 < j"
      using 1(2,3) by (cases k; cases "k = 1") auto
    then have "n div 10 < 10 ^ j" using 1(2) by (simp add: less_mult_imp_div_less mult.commute)
    then show ?thesis using 1(1) [OF False, of j] False k by (simp add: decimal.simps [of n])
  qed (use 1(3) in \<open>simp add: decimal.simps [of n]\<close>)
qed

subsection \<open>Lists searched and updated in place\<close>

text \<open>\<open>iter_mut().find(p)\<close> followed by an assignment through the reference.\<close>

primrec update_first :: "('a \<Rightarrow> bool) \<Rightarrow> ('a \<Rightarrow> 'a) \<Rightarrow> 'a list \<Rightarrow> 'a list" where
  "update_first P f [] = []"
| "update_first P f (x # xs) = (if P x then f x # xs else x # update_first P f xs)"

lemma length_update_first [simp]: "length (update_first P f xs) = length xs"
  by (induction xs) auto

lemma map_update_first: "(\<And>x. P x \<Longrightarrow> g (f x) = g x) \<Longrightarrow> map g (update_first P f xs) = map g xs"
  by (induction xs) auto

lemma find_Some_mem: "find P xs = Some x \<Longrightarrow> x \<in> set xs \<and> P x"
  by (auto simp: find_Some_iff)

lemma set_update_first:
  "y \<in> set (update_first P f xs) \<Longrightarrow> y \<in> set xs \<or> (\<exists>x \<in> set xs. P x \<and> y = f x)"
  by (induction xs) (auto split: if_splits)

lemma update_first_unique:
  assumes "distinct (map k xs)"
  shows "update_first (\<lambda>x. k x = i) f xs = map (\<lambda>x. if k x = i then f x else x) xs"
  using assms
proof (induction xs)
  case (Cons a xs)
  have "map (\<lambda>x. if k x = k a then f x else x) xs = xs"
    using Cons.prems by (intro map_idI) (auto, metis image_eqI)
  with Cons show ?case by auto
qed simp

lemma find_unique:
  assumes "distinct (map k xs)"
  shows "find (\<lambda>x. k x = i) xs = Some x \<longleftrightarrow> x \<in> set xs \<and> k x = i"
  using assms by (induction xs) auto

lemma distinct_map_inj: "distinct (map k xs) \<Longrightarrow> x \<in> set xs \<Longrightarrow> y \<in> set xs \<Longrightarrow> k x = k y \<Longrightarrow> x = y"
  by (meson distinct_map inj_onD)

lemma distinct_map_filter [simp]: "distinct (map k xs) \<Longrightarrow> distinct (map k (filter P xs))"
  by (induction xs) auto

subsection \<open>Stores that stay within a bound\<close>

text \<open>
  The contract of an in-memory store that many requests write to: an invariant
  that holds of the empty store, that every operation keeps, and that bounds
  its size. What a client gets is the bound after any series of operations.
\<close>

locale bounded_store =
  fixes empty :: 's
    and apply_op :: "'op \<Rightarrow> 's \<Rightarrow> 's"
    and inv :: "'s \<Rightarrow> bool"
    and size_at :: "'k \<Rightarrow> 's \<Rightarrow> nat"
    and limit :: nat
  assumes inv_empty: "inv empty"
    and inv_apply: "inv s \<Longrightarrow> inv (apply_op x s)"
    and inv_bound: "inv s \<Longrightarrow> size_at k s \<le> limit"
begin

lemma run_inv: "inv s \<Longrightarrow> inv (foldl (\<lambda>s x. apply_op x s) s xs)"
  by (induction xs arbitrary: s) (simp_all add: inv_apply)

lemma run_bounded: "size_at k (foldl (\<lambda>s x. apply_op x s) empty xs) \<le> limit"
  using run_inv [OF inv_empty] inv_bound by blast

lemma run_inv_empty: "inv (foldl (\<lambda>s x. apply_op x s) empty xs)"
  by (rule run_inv [OF inv_empty])

end

end
