(* ===== verification/Secret.thy ===== *)
theory Secret
  imports Ket_Prelude
begin

text \<open>
  Access codes and session tokens (\<^verbatim>\<open>ket-core/src/secret.rs\<close>): how they are generated,
  split into a public ID and a secret, and checked. Argon2, its PHC string
  parser and Blake2s are third-party packages: they are the fields of the
  record \<open>crypto\<close>, which every operation that needs them takes as an argument.
  The random source is the function \<open>rng\<close> that gives the i-th sample.
\<close>

subsection \<open>Third-party parameters\<close>

type_synonym u8 = "8 word"

text \<open>What the source reads of a parsed PHC string.\<close>

record phc =
  phc_algorithm :: rstr
  phc_version :: "nat option"
  phc_param_count :: nat
  phc_decimal :: "rstr \<Rightarrow> nat option"
  phc_salt :: "rstr option"
  phc_output :: "u8 list option"

record crypto =
  password_hash_new :: "rstr \<Rightarrow> phc option"
  argon2_hash_password :: "rstr \<Rightarrow> rstr \<Rightarrow> rstr option"
  argon2_verify_password :: "rstr \<Rightarrow> phc \<Rightarrow> bool"
  blake2s256 :: "rstr \<Rightarrow> u8 list"

subsection \<open>Data\<close>

definition ACCESS_CODE_LENGTH :: nat where "ACCESS_CODE_LENGTH = 32"
definition SESSION_TOKEN_LENGTH :: nat where "SESSION_TOKEN_LENGTH = 44"
definition ACCESS_ID_LENGTH :: nat where "ACCESS_ID_LENGTH = 10"
definition SESSION_ID_LENGTH :: nat where "SESSION_ID_LENGTH = 12"
definition SESSION_SECRET_LENGTH :: nat where
  "SESSION_SECRET_LENGTH = SESSION_TOKEN_LENGTH - SESSION_ID_LENGTH"

record secret_parts =
  part_id :: rstr
  part_secret :: rstr

type_synonym AccessCodeParts = secret_parts
type_synonym SessionTokenParts = secret_parts

datatype SecretError = InvalidFormat | Hash

subsection \<open>Operations\<close>

definition random_alphanumeric :: "(nat \<Rightarrow> uchar) \<Rightarrow> nat \<Rightarrow> rstr" where
  "random_alphanumeric rng n = map rng [0..<n]"

definition validate_alphanumeric :: "rstr \<Rightarrow> nat \<Rightarrow> SecretError + unit" where
  "validate_alphanumeric value expected_length =
     (if str_len value \<noteq> expected_length \<or> \<not> list_all is_alnum value then Err InvalidFormat
      else Ok ())"

definition generate_access_code :: "(nat \<Rightarrow> uchar) \<Rightarrow> rstr" where
  "generate_access_code rng = random_alphanumeric rng ACCESS_CODE_LENGTH"

definition generate_session_token :: "(nat \<Rightarrow> uchar) \<Rightarrow> rstr" where
  "generate_session_token rng = random_alphanumeric rng SESSION_TOKEN_LENGTH"

definition generate_scoped_token :: "(nat \<Rightarrow> uchar) \<Rightarrow> rstr \<Rightarrow> SecretError + rstr" where
  "generate_scoped_token rng session_id =
     (case validate_alphanumeric session_id SESSION_ID_LENGTH of
        Err e \<Rightarrow> Err e
      | Ok _ \<Rightarrow> Ok (session_id @ random_alphanumeric rng SESSION_SECRET_LENGTH))"

text \<open>
  The slices \<open>[..n]\<close> and \<open>[n..]\<close> of a text already known to be ASCII are
  \<open>take\<close> and \<open>drop\<close> of its characters.
\<close>

definition split_access_code :: "rstr \<Rightarrow> SecretError + AccessCodeParts" where
  "split_access_code value = (case validate_alphanumeric value ACCESS_CODE_LENGTH of
     Err e \<Rightarrow> Err e
   | Ok _ \<Rightarrow> Ok \<lparr>part_id = take ACCESS_ID_LENGTH value, part_secret = drop ACCESS_ID_LENGTH value\<rparr>)"

definition split_session_token :: "rstr \<Rightarrow> SecretError + SessionTokenParts" where
  "split_session_token value = (case validate_alphanumeric value SESSION_TOKEN_LENGTH of
     Err e \<Rightarrow> Err e
   | Ok _ \<Rightarrow> Ok \<lparr>part_id = take SESSION_ID_LENGTH value, part_secret = drop SESSION_ID_LENGTH value\<rparr>)"

definition hash_secret :: "crypto \<Rightarrow> rstr \<Rightarrow> rstr \<Rightarrow> SecretError + rstr" where
  "hash_secret cr salt secret = ok_or (argon2_hash_password cr secret salt) Hash"

definition verify_secret :: "crypto \<Rightarrow> rstr \<Rightarrow> rstr \<Rightarrow> bool" where
  "verify_secret cr secret encoded_hash = (case password_hash_new cr encoded_hash of
     None \<Rightarrow> False | Some h \<Rightarrow> argon2_verify_password cr secret h)"

definition is_supported_secret_hash :: "crypto \<Rightarrow> rstr \<Rightarrow> bool" where
  "is_supported_secret_hash cr encoded_hash = (case password_hash_new cr encoded_hash of
     None \<Rightarrow> False
   | Some h \<Rightarrow> phc_algorithm h = lit ''argon2id''
       \<and> phc_version h = Some 19
       \<and> phc_param_count h = 3
       \<and> phc_decimal h (lit ''m'') = Some (19 * 1024)
       \<and> phc_decimal h (lit ''t'') = Some 2
       \<and> phc_decimal h (lit ''p'') = Some 1
       \<and> phc_salt h \<noteq> None
       \<and> (case phc_output h of None \<Rightarrow> False | Some out \<Rightarrow> length out = 32))"

definition hash_token_secret :: "crypto \<Rightarrow> rstr \<Rightarrow> u8 list" where
  "hash_token_secret cr secret = blake2s256 cr secret"

definition verify_token_secret :: "crypto \<Rightarrow> rstr \<Rightarrow> u8 list \<Rightarrow> bool" where
  "verify_token_secret cr secret expected_hash \<longleftrightarrow> hash_token_secret cr secret = expected_hash"

subsection \<open>Lemmas\<close>

lemmas secret_lengths = ACCESS_CODE_LENGTH_def SESSION_TOKEN_LENGTH_def ACCESS_ID_LENGTH_def
  SESSION_ID_LENGTH_def SESSION_SECRET_LENGTH_def

lemma validate_alphanumeric_Ok [result_simps]:
  "validate_alphanumeric v n = Ok () \<longleftrightarrow> length v = n \<and> list_all is_alnum v"
  by (auto simp: validate_alphanumeric_def str_len_alnum)

lemma list_all_take_drop: "list_all P xs \<Longrightarrow> list_all P (take n xs) \<and> list_all P (drop n xs)"
  by (metis append_take_drop_id list_all_append)

lemma split_access_code_Ok [result_simps]:
  "split_access_code v = Ok p \<longleftrightarrow> length v = 32 \<and> list_all is_alnum v
     \<and> p = \<lparr>part_id = take 10 v, part_secret = drop 10 v\<rparr>"
  using validate_alphanumeric_Ok [of v ACCESS_CODE_LENGTH]
  by (auto simp: split_access_code_def secret_lengths split: sum.splits)

lemma split_session_token_Ok [result_simps]:
  "split_session_token v = Ok p \<longleftrightarrow> length v = 44 \<and> list_all is_alnum v
     \<and> p = \<lparr>part_id = take 12 v, part_secret = drop 12 v\<rparr>"
  using validate_alphanumeric_Ok [of v SESSION_TOKEN_LENGTH]
  by (auto simp: split_session_token_def secret_lengths split: sum.splits)

lemma random_alphanumeric_ok:
  "(\<And>i. is_alnum (rng i)) \<Longrightarrow>
     length (random_alphanumeric rng n) = n \<and> list_all is_alnum (random_alphanumeric rng n)"
  by (simp add: random_alphanumeric_def list_all_iff)

lemma generate_scoped_token_Ok [result_simps]:
  "generate_scoped_token rng i = Ok t \<longleftrightarrow> length i = 12 \<and> list_all is_alnum i
     \<and> t = i @ random_alphanumeric rng 32"
  using validate_alphanumeric_Ok [of i SESSION_ID_LENGTH]
  by (auto simp: generate_scoped_token_def secret_lengths split: sum.splits)

text \<open>A scoped token carries the ID of the session it was made for.\<close>

lemma scoped_token_id:
  assumes "\<And>i. is_alnum (rng i)" "length i = 12" "list_all is_alnum i"
  shows "\<exists>t. generate_scoped_token rng i = Ok t
     \<and> split_session_token t = Ok \<lparr>part_id = i, part_secret = random_alphanumeric rng 32\<rparr>"
  using assms random_alphanumeric_ok [of rng 32] by (simp add: result_simps)

lemma verify_token_secret_hash [simp]:
  "verify_token_secret cr s (hash_token_secret cr s)"
  by (simp add: verify_token_secret_def)

subsection \<open>An instance of the parameters\<close>

text \<open>
  A concrete instance of the third-party functions, at which theorems with
  hypotheses on them are exhibited.
\<close>

definition sample_phc :: phc where
  "sample_phc = \<lparr>phc_algorithm = lit ''argon2id'', phc_version = Some 19, phc_param_count = 3,
     phc_decimal = (\<lambda>k. if k = lit ''m'' then Some 19456 else if k = lit ''t'' then Some 2
       else if k = lit ''p'' then Some 1 else None),
     phc_salt = Some (lit ''c2FsdA''), phc_output = Some (replicate 32 0)\<rparr>"

definition sample_crypto :: crypto where
  "sample_crypto = \<lparr>password_hash_new = (\<lambda>_. Some sample_phc),
     argon2_hash_password = (\<lambda>secret salt. Some (lit ''$argon2id$'')),
     argon2_verify_password = (\<lambda>secret h. secret \<noteq> []),
     blake2s256 = (\<lambda>s. map word_of_nat s)\<rparr>"

lemma sample_supported [simp]: "is_supported_secret_hash sample_crypto h"
  by (simp add: is_supported_secret_hash_def sample_crypto_def sample_phc_def lit_def)

end
