(* ===== verification/Allowance.thy ===== *)
theory Allowance
  imports Ket_Prelude
begin

text \<open>
  Data allowances and the UTC calendar they follow
  (\<^verbatim>\<open>ket-core/src/allowance.rs\<close>): the periods a total is counted in, and the
  conversion between a day number and a civil date. The lemmas show that the
  conversion is right on every day from 1970 on and that the periods divide
  time: each instant lies in exactly one, and all instants of a period agree
  on where it starts and ends. Day numbers and years are \<open>u64\<close>s far from their
  bound for every clock value the lemmas are used at, so they are natural
  numbers; no subtraction below truncates on a value the functions pass.
\<close>

subsection \<open>Data\<close>

definition MIN_ALLOWANCE_BYTES :: nat where "MIN_ALLOWANCE_BYTES = 2 ^ 20"
definition MAX_ALLOWANCE_BYTES :: nat where "MAX_ALLOWANCE_BYTES = 2 ^ 50"
definition SECONDS_PER_DAY :: nat where "SECONDS_PER_DAY = 86400"

datatype AllowancePeriod = Day | Week | Month

record DataAllowance =
  allowance_bytes :: nat
  period :: AllowancePeriod

definition allowance_is_valid :: "DataAllowance \<Rightarrow> bool" where
  "allowance_is_valid a \<longleftrightarrow>
     MIN_ALLOWANCE_BYTES \<le> allowance_bytes a \<and> allowance_bytes a \<le> MAX_ALLOWANCE_BYTES"

record AllowanceStatus =
  status_allowance :: DataAllowance
  status_used_bytes :: nat
  resets_at :: nat

definition is_used_up :: "AllowanceStatus \<Rightarrow> bool" where
  "is_used_up s \<longleftrightarrow> status_used_bytes s \<ge> allowance_bytes (status_allowance s)"

subsection \<open>The calendar\<close>

definition civil_from_days :: "nat \<Rightarrow> nat \<times> nat \<times> nat" where
  "civil_from_days days = (
     let z = days + 719468;
         era = z div 146097;
         day_of_era = z mod 146097;
         year_of_era = (day_of_era - day_of_era div 1460 + day_of_era div 36524
                          - day_of_era div 146096) div 365;
         day_of_year = day_of_era - (365 * year_of_era + year_of_era div 4 - year_of_era div 100);
         shifted_month = (5 * day_of_year + 2) div 153;
         day = day_of_year - (153 * shifted_month + 2) div 5 + 1;
         month = (if shifted_month < 10 then shifted_month + 3 else shifted_month - 9);
         year = year_of_era + era * 400 + (if month \<le> 2 then 1 else 0)
     in (year, month, day))"

definition days_from_civil :: "nat \<Rightarrow> nat \<Rightarrow> nat \<Rightarrow> nat" where
  "days_from_civil year month day = (
     let year = (if month \<le> 2 then year - 1 else year);
         era = year div 400;
         year_of_era = year mod 400;
         shifted_month = (if month > 2 then month - 3 else month + 9);
         day_of_year = (153 * shifted_month + 2) div 5 + day - 1;
         day_of_era = year_of_era * 365 + year_of_era div 4 - year_of_era div 100 + day_of_year
     in era * 146097 + day_of_era - 719468)"

fun period_start :: "AllowancePeriod \<Rightarrow> nat \<Rightarrow> nat" where
  "period_start Day now = now div SECONDS_PER_DAY * SECONDS_PER_DAY"
| "period_start Week now =
     (let day = now div SECONDS_PER_DAY in (day - (day + 3) mod 7) * SECONDS_PER_DAY)"
| "period_start Month now =
     (let (year, month, _) = civil_from_days (now div SECONDS_PER_DAY)
      in days_from_civil year month 1 * SECONDS_PER_DAY)"

fun period_end :: "AllowancePeriod \<Rightarrow> nat \<Rightarrow> nat" where
  "period_end Day now = period_start Day now + SECONDS_PER_DAY"
| "period_end Week now = period_start Week now + 7 * SECONDS_PER_DAY"
| "period_end Month now =
     (let (year, month, _) = civil_from_days (now div SECONDS_PER_DAY);
          (year, month) = (if month = 12 then (year + 1, 1) else (year, month + 1))
      in days_from_civil year month 1 * SECONDS_PER_DAY)"

declare period_start.simps [simp del] period_end.simps [simp del]

definition zero_padded :: "nat \<Rightarrow> nat \<Rightarrow> rstr" where
  "zero_padded width n = replicate (width - length (decimal n)) 48 @ decimal n"

definition utc_minute :: "nat \<Rightarrow> rstr" where
  "utc_minute epoch_seconds = (
     let (year, month, day) = civil_from_days (epoch_seconds div SECONDS_PER_DAY);
         minutes = epoch_seconds mod SECONDS_PER_DAY div 60
     in zero_padded 4 year @ lit ''-'' @ zero_padded 2 month @ lit ''-'' @ zero_padded 2 day
        @ lit '' '' @ zero_padded 2 (minutes div 60) @ lit '':'' @ zero_padded 2 (minutes mod 60)
        @ lit '' UTC'')"

subsection \<open>Years of an era\<close>

text \<open>
  The 400 years of an era, counted from March: \<open>year_day y\<close> is the day of the
  era on which year \<open>y\<close> begins and \<open>year_len y\<close> its length.
\<close>

definition year_day :: "nat \<Rightarrow> nat" where
  "year_day y = 365 * y + y div 4 - y div 100"

definition year_len :: "nat \<Rightarrow> nat" where
  "year_len y = (if y = 399 then 366 else year_day (y + 1) - year_day y)"

definition era_year :: "nat \<Rightarrow> nat" where
  "era_year d = (d - d div 1460 + d div 36524 - d div 146096) div 365"

lemma year_day_Suc_bound: "year_day y < year_day (Suc y)" "year_day (Suc y) \<le> year_day y + 366"
proof -
  have a: "Suc y div 4 = y div 4 \<or> Suc y div 4 = Suc (y div 4)"
     "Suc y div 100 = y div 100 \<or> Suc y div 100 = Suc (y div 100)"
    by (simp_all add: div_Suc)
  have b: "y div 100 \<le> y div 4" by (simp add: div_le_mono2)
  show "year_day y < year_day (Suc y)" "year_day (Suc y) \<le> year_day y + 366"
  unfolding year_day_def using a b by (auto)
qed

lemma div_once: "x < 2 * m \<Longrightarrow> (m * k + x) div m = k + (if m \<le> x then 1 else 0)" for x m k :: nat
proof -
  assume x: "x < 2 * m"
  then have "x div m = (if m \<le> x then 1 else 0)"
    by (auto simp: div_if)
  moreover have "0 < m" using x by (cases m) auto
  ultimately show ?thesis by simp
qed

lemma year_day_split:
  assumes "q < 25" "r < 4"
  shows "year_day (100 * c + 4 * q + r) = 36524 * c + 1461 * q + 365 * r"
proof -
  have a: "(100 * c + 4 * q + r) div 4 = 25 * c + q"
    using div_once [of r 4 "25 * c + q"] assms by (simp add: algebra_simps)
  have b: "(100 * c + 4 * q + r) div 100 = c"
    using div_once [of "4 * q + r" 100 c] assms by (simp add: algebra_simps)
  show ?thesis unfolding year_day_def a b by simp
qed

lemma year_len_split:
  assumes "c < 4" "q < 25" "r < 4"
  shows "year_len (100 * c + 4 * q + r) = (if r = 3 \<and> (q < 24 \<or> c = 3) then 366 else 365)"
proof -
  have last: "100 * c + 4 * q + r = 399 \<longleftrightarrow> c = 3 \<and> q = 24 \<and> r = 3" using assms by arith
  consider "r < 3" | "r = 3" "q < 24" | "r = 3" "q = 24" using assms by linarith
  then show ?thesis
  proof cases
    case 1
    then show ?thesis
      using year_day_split [of q r c] year_day_split [of q "r + 1" c] assms last
      by (simp add: year_len_def algebra_simps)
  next
    case 2
    then show ?thesis
      using year_day_split [of q 3 c] year_day_split [of "q + 1" 0 c] assms last
      by (simp add: year_len_def algebra_simps)
  next
    case 3
    then show ?thesis
      using year_day_split [of 24 3 c] year_day_split [of 0 0 "c + 1"] assms last
      by (simp add: year_len_def algebra_simps)
  qed
qed

lemma era_year_split:
  assumes "c < 4" "q < 25" "r < 4" "n < (if r = 3 \<and> (q < 24 \<or> c = 3) then 366 else 365)"
  shows "era_year (36524 * c + 1461 * q + 365 * r + n) = 100 * c + 4 * q + r"
proof -
  define d where "d = 36524 * c + 1461 * q + 365 * r + n"
  define e1 :: nat where "e1 = (if 1460 \<le> 24 * c + q + 365 * r + n then 1 else 0)"
  define e2 :: nat where "e2 = (if c = 3 \<and> q = 24 \<and> r = 3 \<and> n = 365 then 1 else 0)"
  have n: "n \<le> 365" "n = 365 \<longrightarrow> r = 3" "n = 365 \<longrightarrow> q = 24 \<longrightarrow> c = 3"
    using assms by (auto split: if_splits)
  have d1: "d = 1460 * (25 * c + q) + (24 * c + q + 365 * r + n)" by (simp add: d_def)
  have a: "d div 1460 = 25 * c + q + e1"
    unfolding d1 e1_def using div_once [of "24 * c + q + 365 * r + n" 1460 "25 * c + q"] assms n
    by simp
  have d2: "d = 36524 * c + (1461 * q + 365 * r + n)" by (simp add: d_def)
  have "36524 \<le> 1461 * q + 365 * r + n \<longleftrightarrow> q = 24 \<and> r = 3 \<and> n = 365" using assms n by arith
  then have "36524 \<le> 1461 * q + 365 * r + n \<longleftrightarrow> c = 3 \<and> q = 24 \<and> r = 3 \<and> n = 365"
    using n by blast
  then have b: "d div 36524 = c + e2"
    unfolding d2 e2_def using div_once [of "1461 * q + 365 * r + n" 36524 c] assms n by simp
  have "146096 \<le> d \<longleftrightarrow> c = 3 \<and> q = 24 \<and> r = 3 \<and> n = 365"
    unfolding d_def using assms n by arith
  then have e: "d div 146096 = e2"
    unfolding e2_def using div_once [of d 146096 0] assms n by (simp add: d_def)
  have e1: "e1 \<le> n" "e1 \<le> 1" "n = 365 \<longrightarrow> e1 = 1"
    unfolding e1_def using n assms by (auto split: if_splits)
  have "d - d div 1460 + d div 36524 - d div 146096 = 365 * (100 * c + 4 * q + r) + (n - e1)"
    unfolding a b e using e1 by (simp add: d_def)
  note eq = this
  have "n - e1 < 365" using e1 n by (cases "n = 365") auto
  then have "(365 * (100 * c + 4 * q + r) + (n - e1)) div 365 = 100 * c + 4 * q + r"
    by (simp only: div_mult_self4 div_less zero_neq_numeral not_False_eq_True)
  then show ?thesis
    unfolding era_year_def d_def [symmetric] eq .
qed

lemma year_split:
  fixes y :: nat
  assumes "y < 400"
  obtains c q r where "c < 4" "q < 25" "r < 4" "y = 100 * c + 4 * q + r"
proof
  show "y div 100 < 4" "y mod 100 div 4 < 25" "y mod 4 < 4"
    using assms by (simp_all add: less_mult_imp_div_less)
  have "y mod 4 = y mod 100 mod 4" by (simp add: mod_mod_cancel)
  then show "y = 100 * (y div 100) + 4 * (y mod 100 div 4) + y mod 4"
    using mult_div_mod_eq [of 100 y] mult_div_mod_eq [of 4 "y mod 100"] by linarith
qed

lemma era_year_of_year_day:
  assumes "y < 400" "n < year_len y"
  shows "era_year (year_day y + n) = y"
proof -
  obtain c q r where y: "c < 4" "q < 25" "r < 4" "y = 100 * c + 4 * q + r"
    using assms(1) by (rule year_split)
  then show ?thesis
    using year_day_split [OF y(2,3), of c] year_len_split [OF y(1-3)] assms(2)
      era_year_split [OF y(1-3), of n] by simp
qed

lemma year_day_next:
  "y < 400 \<Longrightarrow> year_day y + year_len y = (if y = 399 then 146097 else year_day (Suc y))"
  using year_day_Suc_bound(1) [of y]
  by (cases "y = 399") (simp add: year_len_def year_day_def, simp add: year_len_def)

lemma year_day_mono: "x \<le> y \<Longrightarrow> year_day x \<le> year_day y"
  by (rule lift_Suc_mono_le [of year_day]) (auto intro: less_imp_le year_day_Suc_bound(1))

lemma year_end_le:
  assumes "y < 400"
  shows "year_day y + year_len y \<le> 146097"
proof (cases "y = 399")
  case False
  then have "year_day (Suc y) \<le> year_day 399" using assms by (intro year_day_mono) auto
  also have "\<dots> \<le> 146097" by (simp add: year_day_def)
  finally show ?thesis using False assms by (simp add: year_day_next)
qed (simp add: year_day_next)

lemma day_of_era_cases:
  assumes "d < 146097"
  obtains y n where "y < 400" "n < year_len y" "d = year_day y + n"
proof -
  have "k \<le> 400 \<Longrightarrow> d < (if k = 400 then 146097 else year_day k) \<Longrightarrow>
      \<exists>y n. y < 400 \<and> n < year_len y \<and> d = year_day y + n" for k
  proof (induction k)
    case (Suc k)
    show ?case
    proof (cases "d < year_day k")
      case False
      have "d - year_day k < year_len k"
        using Suc.prems False year_day_next [of k] by (auto split: if_splits)
      then show ?thesis using False Suc.prems(1) by (metis Suc_le_lessD le_add_diff_inverse not_less)
    qed (use Suc in auto)
  qed (simp add: year_day_def)
  from this [of 400] assms show thesis using that by auto
qed

subsection \<open>Months\<close>

definition month_day :: "nat \<Rightarrow> nat" where
  "month_day m = (153 * m + 2) div 5"

definition month_index :: "nat \<Rightarrow> nat" where
  "month_index doy = (5 * doy + 2) div 153"

text \<open>\<open>month_day\<close> and \<open>month_index\<close> form a Galois connection.\<close>

lemma month_day_le_iff: "month_day m \<le> doy \<longleftrightarrow> m \<le> month_index doy"
proof -
  have "month_day m \<le> doy \<longleftrightarrow> (153 * m + 2) div 5 < Suc doy" by (simp add: month_day_def less_Suc_eq_le)
  also have "\<dots> \<longleftrightarrow> m * 153 \<le> 5 * doy + 2" by (subst div_less_iff_less_mult) auto
  also have "\<dots> \<longleftrightarrow> m \<le> month_index doy"
    unfolding month_index_def by (subst less_eq_div_iff_mult_less_eq) auto
  finally show ?thesis .
qed

lemma month_index_le: "doy < 366 \<Longrightarrow> month_index doy \<le> 11"
  using month_day_le_iff [of 12 doy] by (auto simp: month_day_def not_le)

lemma month_day_Suc: "month_day m < month_day (Suc m)"
proof -
  have "month_day m + 30 = (153 * m + 2 + 30 * 5) div 5" unfolding month_day_def by (simp only: div_mult_self1)
  also have "\<dots> \<le> month_day (Suc m)" unfolding month_day_def by (rule div_le_mono) simp
  finally show ?thesis by simp
qed

text \<open>
  A day counted from 0000-03-01 is year \<open>y\<close> of era \<open>e\<close> and day \<open>doy\<close> of that
  year. \<open>month_first\<close> and \<open>month_next\<close> bound the month that holds it.
\<close>

definition shifted_day :: "nat \<Rightarrow> nat \<Rightarrow> nat \<Rightarrow> nat" where
  "shifted_day e y doy = e * 146097 + year_day y + doy"

definition month_next_doy :: "nat \<Rightarrow> nat \<Rightarrow> nat" where
  "month_next_doy y doy =
     (if month_index doy < 11 then month_day (Suc (month_index doy)) else year_len y)"

lemma year_len_cases:
  assumes "y < 400"
  shows "year_len y = 365 \<or> year_len y = 366"
  using assms by (rule year_split) (simp add: year_len_split)

lemma shifted_day_cases:
  obtains e y doy where "y < 400" "doy < year_len y" "z = shifted_day e y doy"
proof -
  obtain y n where "y < 400" "n < year_len y" "z mod 146097 = year_day y + n"
    using day_of_era_cases [of "z mod 146097"] by auto
  then have "z = shifted_day (z div 146097) y n"
    using div_mult_mod_eq [of z 146097] by (simp add: shifted_day_def)
  with \<open>y < 400\<close> \<open>n < year_len y\<close> show thesis by (rule that)
qed

lemma shifted_day_div_mod:
  assumes "y < 400" "doy < year_len y"
  shows "shifted_day e y doy div 146097 = e" "shifted_day e y doy mod 146097 = year_day y + doy"
proof -
  have "year_day y + doy < 146097" using year_end_le [OF assms(1)] assms(2) by linarith
  then show "shifted_day e y doy div 146097 = e" "shifted_day e y doy mod 146097 = year_day y + doy"
    by (simp_all add: shifted_day_def add.assoc)
qed

lemma civil_from_shifted:
  assumes "y < 400" "doy < year_len y" "days + 719468 = shifted_day e y doy"
  shows "civil_from_days days =
    (y + e * 400 + (if month_index doy < 10 then 0 else 1),
     (if month_index doy < 10 then month_index doy + 3 else month_index doy - 9),
     doy - month_day (month_index doy) + 1)"
proof -
  have idx: "month_index doy \<le> 11"
    using year_len_cases [OF assms(1)] assms(2) by (intro month_index_le) auto
  then have early: "(if month_index doy < 10 then month_index doy + 3 else month_index doy - 9) \<le> 2
      \<longleftrightarrow> \<not> month_index doy < 10" by auto
  show ?thesis
    unfolding civil_from_days_def Let_def assms(3) shifted_day_div_mod [OF assms(1,2)]
      era_year_def [symmetric] era_year_of_year_day [OF assms(1,2)] year_day_def [symmetric]
      diff_add_inverse month_index_def [symmetric] month_day_def [symmetric] early
    by simp
qed

lemma days_from_shifted:
  assumes "y < 400" "m \<le> 11"
  shows "days_from_civil (y + e * 400 + (if m < 10 then 0 else 1))
     (if m < 10 then m + 3 else m - 9) (Suc k) = shifted_day e y (month_day m + k) - 719468"
proof -
  have a: "(y + e * 400) div 400 = e" "(y + e * 400) mod 400 = y" using assms(1) by simp_all
  have b: "y * 365 + y div 4 - y div 100 = year_day y" by (simp add: year_day_def mult.commute)
  show ?thesis
  proof (cases "m < 10")
    case True
    then have f: "\<not> m + 3 \<le> 2" "2 < m + 3" "m + 3 - 3 = m" by auto
    show ?thesis
      unfolding days_from_civil_def Let_def if_P [OF True] if_not_P [OF f(1)] if_P [OF f(2)] f(3)
        add_0_right a b month_day_def [symmetric] shifted_day_def
      by simp
  next
    case False
    then have f: "m - 9 \<le> 2" "\<not> 2 < m - 9" "m - 9 + 9 = m" using assms(2) by auto
    show ?thesis
      unfolding days_from_civil_def Let_def if_not_P [OF False] if_P [OF f(1)] if_not_P [OF f(2)] f(3)
        add_diff_cancel_right' a b month_day_def [symmetric] shifted_day_def
      by simp
  qed
qed

subsection \<open>Days and dates\<close>

lemma civil_day_month:
  "civil_from_days d = (y, m, k) \<Longrightarrow> 1 \<le> m \<and> m \<le> 12 \<and> 1 \<le> k"
proof -
  assume c: "civil_from_days d = (y, m, k)"
  obtain e yy doy where z: "yy < 400" "doy < year_len yy" "d + 719468 = shifted_day e yy doy"
    by (rule shifted_day_cases)
  have "month_index doy \<le> 11"
    using year_len_cases [OF z(1)] z(2) by (intro month_index_le) auto
  then show ?thesis using c civil_from_shifted [OF z] by (auto split: if_splits)
qed

lemma days_of_civil:
  "civil_from_days d = (y, m, k) \<Longrightarrow> days_from_civil y m k = d"
proof -
  assume c: "civil_from_days d = (y, m, k)"
  obtain e yy doy where z: "yy < 400" "doy < year_len yy" "d + 719468 = shifted_day e yy doy"
    by (rule shifted_day_cases)
  have idx: "month_index doy \<le> 11"
    using year_len_cases [OF z(1)] z(2) by (intro month_index_le) auto
  have le: "month_day (month_index doy) \<le> doy" by (simp add: month_day_le_iff)
  show ?thesis
    using c civil_from_shifted [OF z] days_from_shifted [OF z(1) idx, of e "doy - month_day (month_index doy)"]
      le z(3) [symmetric] by auto
qed

text \<open>The month that holds a day, and its first day and the first day after it.\<close>

lemma month_bounds:
  assumes "y < 400" "doy < year_len y"
  shows "month_day (month_index doy) \<le> doy" "doy < month_next_doy y doy"
    "month_next_doy y doy \<le> year_len y"
proof -
  have idx: "month_index doy \<le> 11"
    using year_len_cases [OF assms(1)] assms(2) by (intro month_index_le) auto
  show "month_day (month_index doy) \<le> doy" by (simp add: month_day_le_iff)
  show "doy < month_next_doy y doy"
    using assms(2) month_day_le_iff [of "Suc (month_index doy)" doy]
    by (simp add: month_next_doy_def not_le [symmetric])
  have "month_index doy < 11 \<Longrightarrow> Suc (month_index doy) \<le> month_index 337"
    by (simp add: month_index_def)
  then show "month_next_doy y doy \<le> year_len y"
    using year_len_cases [OF assms(1)] month_day_le_iff [of "Suc (month_index doy)" 337]
    by (auto simp: month_next_doy_def)
qed

lemma month_index_within:
  assumes "y < 400" "doy < year_len y" "month_day (month_index doy) \<le> d" "d < month_next_doy y doy"
  shows "month_index d = month_index doy"
proof (rule antisym)
  show "month_index doy \<le> month_index d" using assms(3) by (simp add: month_day_le_iff)
  show "month_index d \<le> month_index doy"
  proof (cases "month_index doy < 11")
    case True
    then show ?thesis using assms(4) month_day_le_iff [of "Suc (month_index doy)" d]
      by (simp add: month_next_doy_def not_le [symmetric])
  next
    case False
    then have "d < 366" using assms(4) year_len_cases [OF assms(1)] by (auto simp: month_next_doy_def)
    then show ?thesis using month_index_le [of d] False by simp
  qed
qed

lemma month_start_shifted:
  assumes "y < 400" "doy < year_len y" "now div SECONDS_PER_DAY + 719468 = shifted_day e y doy"
  shows "period_start Month now =
     (shifted_day e y (month_day (month_index doy)) - 719468) * SECONDS_PER_DAY"
proof -
  have idx: "month_index doy \<le> 11"
    using year_len_cases [OF assms(1)] assms(2) by (intro month_index_le) auto
  show ?thesis
    using civil_from_shifted [OF assms] days_from_shifted [OF assms(1) idx, of e 0]
    by (simp add: period_start.simps)
qed

lemma shifted_day_next_year:
  assumes "y < 400"
  shows "shifted_day e y (year_len y) = (if y = 399 then shifted_day (Suc e) 0 0 else shifted_day e (Suc y) 0)"
  using year_day_next [OF assms] by (cases "y = 399") (simp_all add: shifted_day_def year_day_def [of 0])

lemma month_end_shifted:
  assumes "y < 400" "doy < year_len y" "now div SECONDS_PER_DAY + 719468 = shifted_day e y doy"
  shows "period_end Month now = (shifted_day e y (month_next_doy y doy) - 719468) * SECONDS_PER_DAY"
proof -
  have idx: "month_index doy \<le> 11"
    using year_len_cases [OF assms(1)] assms(2) by (intro month_index_le) auto
  consider "month_index doy < 9" | "month_index doy = 9" | "month_index doy = 10" | "month_index doy = 11"
    using idx by linarith
  then show ?thesis
  proof cases
    case 1
    then show ?thesis
      using civil_from_shifted [OF assms] days_from_shifted [OF assms(1), of "Suc (month_index doy)" e 0]
      by (simp add: month_next_doy_def period_end.simps)
  next
    case 2
    then show ?thesis
      using civil_from_shifted [OF assms] days_from_shifted [OF assms(1), of 10 e 0]
      by (simp add: month_next_doy_def period_end.simps)
  next
    case 3
    then show ?thesis
      using civil_from_shifted [OF assms] days_from_shifted [OF assms(1), of 11 e 0]
      by (simp add: month_next_doy_def period_end.simps numeral_2_eq_2)
  next
    case 4
    have "days_from_civil (y + e * 400 + 1) 3 1 = shifted_day e y (year_len y) - 719468"
      using days_from_shifted [of "Suc y" 0 e 0] days_from_shifted [of 0 0 "Suc e" 0] assms(1)
      by (cases "y = 399") (simp_all add: shifted_day_next_year month_day_def algebra_simps)
    then show ?thesis
      using civil_from_shifted [OF assms] 4 by (simp add: month_next_doy_def period_end.simps)
  qed
qed

text \<open>1970-01-01 is the first day of a month, so no month start lies before it.\<close>

lemma month_first_after_epoch:
  assumes "y < 400" "doy < year_len y" "719468 \<le> shifted_day e y doy"
  shows "719468 \<le> shifted_day e y (month_day (month_index doy))"
proof (rule ccontr)
  assume before: "\<not> ?thesis"
  define d where "d = 719468 - (e * 146097 + year_day y)"
  have d: "719468 = shifted_day e y d" "month_day (month_index doy) \<le> d" "d \<le> doy"
    using assms(3) before by (auto simp: d_def shifted_day_def)
  have len: "d < year_len y" using d(3) assms(2) by simp
  have "year_day y + d = 135080"
    using shifted_day_div_mod [OF assms(1) len, of e] d(1) by simp
  moreover from this have "y = 369"
    using era_year_of_year_day [OF assms(1) len] by (simp add: era_year_def)
  ultimately have "d = 306" by (simp add: year_day_def)
  moreover have "month_index d = month_index doy"
    using d month_bounds [OF assms(1,2)] by (intro month_index_within [OF assms(1,2)]) auto
  ultimately have "month_day (month_index doy) = d"
    by (simp add: month_index_def month_day_def)
  then show False using before d(1) by simp
qed

lemma day_le_iff: "d * SECONDS_PER_DAY \<le> t \<longleftrightarrow> d \<le> t div SECONDS_PER_DAY"
  by (simp add: SECONDS_PER_DAY_def less_eq_div_iff_mult_less_eq)

lemma month_within:
  assumes "y < 400" "doy < year_len y" "now div SECONDS_PER_DAY + 719468 = shifted_day e y doy"
    and "period_start Month now \<le> t" "t < period_end Month now"
  obtains d where "d < year_len y" "t div SECONDS_PER_DAY + 719468 = shifted_day e y d"
    "month_index d = month_index doy"
proof -
  define d where "d = t div SECONDS_PER_DAY + 719468 - (e * 146097 + year_day y)"
  have first: "719468 \<le> shifted_day e y (month_day (month_index doy))"
    using month_first_after_epoch [OF assms(1,2)] assms(3) by (metis le_add2)
  have lo: "shifted_day e y (month_day (month_index doy)) \<le> t div SECONDS_PER_DAY + 719468"
    using assms(4) first unfolding month_start_shifted [OF assms(1-3)] day_le_iff by linarith
  have hi: "t div SECONDS_PER_DAY + 719468 < shifted_day e y (month_next_doy y doy)"
    using assms(5) unfolding month_end_shifted [OF assms(1-3)] not_le [symmetric] day_le_iff by linarith
  have d: "t div SECONDS_PER_DAY + 719468 = shifted_day e y d"
    "month_day (month_index doy) \<le> d" "d < month_next_doy y doy"
    using lo hi by (auto simp: d_def shifted_day_def)
  show thesis
    using that [of d] d month_bounds [OF assms(1,2)] month_index_within [OF assms(1,2) d(2,3)] by simp
qed

lemma month_next_doy_cong:
  "month_index d = month_index doy \<Longrightarrow> month_next_doy y d = month_next_doy y doy"
  by (simp add: month_next_doy_def)

lemma month_partition:
  "period_start Month now \<le> now \<and> now < period_end Month now
   \<and> (period_start Month now \<le> t \<longrightarrow> t < period_end Month now \<longrightarrow>
        period_start Month t = period_start Month now \<and> period_end Month t = period_end Month now)"
proof -
  obtain e y doy where z: "y < 400" "doy < year_len y"
    "now div SECONDS_PER_DAY + 719468 = shifted_day e y doy"
    by (rule shifted_day_cases)
  have first: "719468 \<le> shifted_day e y (month_day (month_index doy))"
    using month_first_after_epoch [OF z(1,2)] z(3) by (metis le_add2)
  have "period_start Month now \<le> now"
    unfolding month_start_shifted [OF z] day_le_iff
    using z(3) month_bounds [OF z(1,2)] by (simp add: shifted_day_def)
  moreover have "now < period_end Month now"
    unfolding month_end_shifted [OF z] not_le [symmetric] day_le_iff
    using z(3) month_bounds [OF z(1,2)] by (simp add: shifted_day_def)
  moreover have "period_start Month t = period_start Month now \<and> period_end Month t = period_end Month now"
    if t: "period_start Month now \<le> t" "t < period_end Month now"
  proof -
    obtain d where d: "d < year_len y" "t div SECONDS_PER_DAY + 719468 = shifted_day e y d"
      and same: "month_index d = month_index doy"
      using z t by (rule month_within)
    show ?thesis
      unfolding month_start_shifted [OF z] month_end_shifted [OF z] month_start_shifted [OF z(1) d]
        month_end_shifted [OF z(1) d] month_next_doy_cong [OF same] same by simp
  qed
  ultimately show ?thesis by blast
qed

lemma month_end_starts: "period_start Month (period_end Month now) = period_end Month now"
proof -
  obtain e y doy where z: "y < 400" "doy < year_len y"
    "now div SECONDS_PER_DAY + 719468 = shifted_day e y doy"
    by (rule shifted_day_cases)
  define t where "t = period_end Month now"
  have pos: "719468 \<le> shifted_day e y (month_next_doy y doy)"
    using z(3) month_bounds(2) [OF z(1,2)] by (simp add: shifted_day_def)
  have td: "t div SECONDS_PER_DAY + 719468 = shifted_day e y (month_next_doy y doy)"
    using pos unfolding t_def month_end_shifted [OF z] by (simp add: SECONDS_PER_DAY_def)
  have id: "month_index (month_day m) = m" if "m \<le> 11" for m
  proof (rule antisym)
    show "m \<le> month_index (month_day m)" by (simp add: month_day_le_iff [symmetric])
    show "month_index (month_day m) \<le> m"
      using month_day_le_iff [of "Suc m" "month_day m"] month_day_Suc [of m] by linarith
  qed
  have *: "period_start Month t = (shifted_day e' y' (month_day m) - 719468) * SECONDS_PER_DAY"
    if "y' < 400" "month_day m < year_len y'" "m \<le> 11"
      "t div SECONDS_PER_DAY + 719468 = shifted_day e' y' (month_day m)" for e' y' m
    using month_start_shifted [OF that(1,2,4)] id [OF that(3)] by simp
  have "period_start Month t = (t div SECONDS_PER_DAY + 719468 - 719468) * SECONDS_PER_DAY"
  proof (cases "month_next_doy y doy < year_len y")
    case True
    then have m: "month_index doy < 11" "month_next_doy y doy = month_day (Suc (month_index doy))"
      by (auto simp: month_next_doy_def split: if_splits)
    then show ?thesis using * [of y "Suc (month_index doy)" e] True td z(1) by simp
  next
    case False
    then have "month_next_doy y doy = year_len y" using month_bounds [OF z(1,2)] by simp
    then have "t div SECONDS_PER_DAY + 719468 =
        (if y = 399 then shifted_day (Suc e) 0 (month_day 0) else shifted_day e (Suc y) (month_day 0))"
      using td shifted_day_next_year [OF z(1)] by (simp add: month_day_def)
    moreover have "month_day 0 < year_len 0" "y \<noteq> 399 \<Longrightarrow> month_day 0 < year_len (Suc y)"
      using year_len_cases [of 0] year_len_cases [of "Suc y"] z(1) by (auto simp: month_day_def)
    ultimately show ?thesis
      using * [of 0 0 "Suc e"] * [of "Suc y" 0 e] z(1) by (cases "y = 399") simp_all
  qed
  also have "\<dots> = t" using td pos unfolding t_def month_end_shifted [OF z] by (simp add: SECONDS_PER_DAY_def)
  finally show ?thesis by (simp add: t_def)
qed

subsection \<open>Days and weeks\<close>

lemma day_partition:
  "period_start Day now \<le> now \<and> now < period_end Day now
   \<and> (period_start Day now \<le> t \<longrightarrow> t < period_end Day now \<longrightarrow>
        period_start Day t = period_start Day now \<and> period_end Day t = period_end Day now)"
proof -
  have "t div SECONDS_PER_DAY = now div SECONDS_PER_DAY"
    if "period_start Day now \<le> t" "t < period_end Day now"
  proof (rule antisym)
    show "now div SECONDS_PER_DAY \<le> t div SECONDS_PER_DAY"
      using that(1) by (simp add: period_start.simps day_le_iff)
    show "t div SECONDS_PER_DAY \<le> now div SECONDS_PER_DAY"
      using that(2) day_le_iff [of "Suc (now div SECONDS_PER_DAY)" t]
      by (simp add: period_start.simps period_end.simps)
  qed
  moreover have "period_start Day now \<le> now" "now < period_end Day now"
    using day_le_iff [of "Suc (now div SECONDS_PER_DAY)" now] day_le_iff [of "now div SECONDS_PER_DAY" now]
    by (simp_all add: period_start.simps period_end.simps)
  ultimately show ?thesis by (simp add: period_start.simps period_end.simps)
qed

lemma monday_le:
  fixes d :: nat
  assumes "4 \<le> d"
  shows "(d + 3) mod 7 \<le> d" "(d - (d + 3) mod 7 + 3) mod 7 = 0"
proof -
  have lt: "(d + 3) mod 7 < 7" by simp
  consider "7 \<le> d" | "d = 4" | "d = 5" | "d = 6" using assms by linarith
  then show le: "(d + 3) mod 7 \<le> d"
  proof cases
    case 1
    from less_le_trans [OF lt this] show ?thesis by (rule less_imp_le)
  qed simp_all
  define q r where qr: "q = (d + 3) div 7" "r = (d + 3) mod 7"
  have "d + 3 = 7 * q + r" unfolding qr by (rule mult_div_mod_eq [symmetric])
  moreover have "r \<le> d" using le qr(2) by (simp only:)
  ultimately have "d - r + 3 = 7 * q" by linarith
  then show "(d - (d + 3) mod 7 + 3) mod 7 = 0" by (simp only: qr(2) [symmetric] mod_mult_self1_is_0)
qed

lemma week_day_eq:
  fixes d :: nat
  assumes "4 \<le> d" "4 \<le> e" "d - (d + 3) mod 7 \<le> e" "e < d - (d + 3) mod 7 + 7"
  shows "e - (e + 3) mod 7 = d - (d + 3) mod 7"
proof -
  define m where "m = d - (d + 3) mod 7"
  have "(m + 3) mod 7 = 0" unfolding m_def by (rule monday_le(2) [OF assms(1)])
  then obtain k where k: "m + 3 = 7 * k" by (metis mod_0_imp_dvd dvdE)
  have "e + 3 = 7 * k + (e - m)" using k assms(3) by (simp add: m_def)
  moreover have "e - m < 7" using assms(3,4) by (auto simp: m_def)
  ultimately have "(e + 3) mod 7 = e - m" by simp
  then show ?thesis using assms(3) by (simp add: m_def)
qed

lemma week_partition:
  assumes "4 * SECONDS_PER_DAY \<le> now"
  shows "period_start Week now \<le> now \<and> now < period_end Week now
   \<and> (period_start Week now \<le> t \<longrightarrow> t < period_end Week now \<longrightarrow>
        period_start Week t = period_start Week now \<and> period_end Week t = period_end Week now)"
proof -
  define d where "d = now div SECONDS_PER_DAY"
  define m where "m = d - (d + 3) mod 7"
  have d4: "4 \<le> d" using assms by (simp add: d_def day_le_iff)
  have s: "period_start Week x = (x div SECONDS_PER_DAY - (x div SECONDS_PER_DAY + 3) mod 7) * SECONDS_PER_DAY"
    "period_end Week x = (x div SECONDS_PER_DAY - (x div SECONDS_PER_DAY + 3) mod 7 + 7) * SECONDS_PER_DAY"
    for x by (simp_all add: period_start.simps period_end.simps Let_def algebra_simps)
  have m: "m \<le> d" "d < m + 7" "4 \<le> m"
  proof -
    show "m \<le> d" by (simp add: m_def)
    have "(d + 3) mod 7 < 7" by simp
    then show "d < m + 7" unfolding m_def by linarith
    obtain k where "m + 3 = 7 * k"
      using monday_le(2) [OF d4] unfolding m_def by (metis mod_0_imp_dvd dvdE)
    with \<open>d < m + 7\<close> d4 show "4 \<le> m" by (cases k) auto
  qed
  have "period_start Week now \<le> now" "now < period_end Week now"
    unfolding s d_def [symmetric] not_le [symmetric] day_le_iff using m by (auto simp: m_def)
  moreover have "period_start Week t = period_start Week now \<and> period_end Week t = period_end Week now"
    if "period_start Week now \<le> t" "t < period_end Week now"
  proof -
    have "m \<le> t div SECONDS_PER_DAY" "t div SECONDS_PER_DAY < m + 7"
      using that unfolding s d_def [symmetric] m_def [symmetric] not_le [symmetric] day_le_iff .
    then show ?thesis
      unfolding s d_def [symmetric]
      using week_day_eq [OF d4, of "t div SECONDS_PER_DAY"] m by (simp add: m_def)
  qed
  ultimately show ?thesis by blast
qed

subsection \<open>Properties\<close>

text \<open>
  The two calendar conversions agree. Turning a day number into a civil
  date gives a month from 1 to 12 and a day of at least 1, and turning that
  date back gives the same day number.
\<close>

theorem civil_round_trip:
  "(case civil_from_days d of (y, m, k) \<Rightarrow>
      1 \<le> m \<and> m \<le> 12 \<and> 1 \<le> k \<and> days_from_civil y m k = d)"
proof (cases "civil_from_days d")
  case (fields y m k)
  then show ?thesis using civil_day_month [of d] days_of_civil [of d] by simp
qed

text \<open>
  The allowance periods divide time. From Monday 1970-01-05 on (for days
  and months, always), the period computed for a time holds that time, and
  every time it holds gets the same start and the same end, so a total kept
  under the start of its period is found again at every moment of the period
  and at none outside it.
\<close>

theorem periods_divide_time:
  assumes "p = Week \<longrightarrow> 4 * SECONDS_PER_DAY \<le> now"
  shows "period_start p now \<le> now \<and> now < period_end p now
   \<and> (\<forall>t. period_start p now \<le> t \<and> t < period_end p now \<longrightarrow>
        period_start p t = period_start p now \<and> period_end p t = period_end p now)"
proof (cases p)
  case Day
  show ?thesis unfolding Day using day_partition [of now] by blast
next
  case Week
  then have "4 * SECONDS_PER_DAY \<le> now" using assms by blast
  then show ?thesis unfolding Week using week_partition [of now] by blast
next
  case Month
  show ?thesis unfolding Month using month_partition [of now] by blast
qed

theorem periods_divide_time_witness:
  "period_start Week (20 * SECONDS_PER_DAY) \<le> 20 * SECONDS_PER_DAY
   \<and> 20 * SECONDS_PER_DAY < period_end Week (20 * SECONDS_PER_DAY)
   \<and> period_start Week (20 * SECONDS_PER_DAY) = 18 * SECONDS_PER_DAY"
proof (intro conjI)
  have "Week = Week \<longrightarrow> 4 * SECONDS_PER_DAY \<le> 20 * SECONDS_PER_DAY" by simp
  from periods_divide_time [OF this]
  show "period_start Week (20 * SECONDS_PER_DAY) \<le> 20 * SECONDS_PER_DAY"
    "20 * SECONDS_PER_DAY < period_end Week (20 * SECONDS_PER_DAY)" by blast+
  show "period_start Week (20 * SECONDS_PER_DAY) = 18 * SECONDS_PER_DAY"
    by (simp add: period_start.simps SECONDS_PER_DAY_def)
qed

end
