(* ===== verification/Model.thy ===== *)
theory Model
  imports Secret Allowance
begin

text \<open>
  The server's persisted state (\<^verbatim>\<open>ket-server/src/model.rs\<close>) with the grant contract
  it embeds (\<^verbatim>\<open>ket-core/src/grant.rs\<close>): access grants, sessions, and the
  validation every state passes before it is written to disk and after it is
  read back. The lemmas give the declarative meaning of that validation.
\<close>

subsection \<open>Data\<close>

datatype TransportProtocol = Hysteria2 | Ikev2 | OpenVpnStunnel | Shadowsocks2022 | Stealth
  | VlessXtlsReality | WireGuard | XorScrambled

datatype ProtocolAccess = AllProtocols | Only "TransportProtocol set"

definition allows :: "ProtocolAccess \<Rightarrow> TransportProtocol \<Rightarrow> bool" where
  "allows access protocol =
     (case access of AllProtocols \<Rightarrow> True | Only protocols \<Rightarrow> protocol \<in> protocols)"

definition protocols_valid :: "ProtocolAccess \<Rightarrow> bool" where
  "protocols_valid access = (case access of AllProtocols \<Rightarrow> True | Only protocols \<Rightarrow> protocols \<noteq> {})"

record PeriodUsage =
  usage_period_start :: nat
  usage_bytes :: nat

record AccessGrantRecord =
  g_id :: rstr
  g_secret_hash :: rstr
  g_label :: rstr
  g_max_connections :: nat
  g_expires_at :: "nat option"
  g_created_at :: nat
  g_paused :: bool
  g_protocols :: ProtocolAccess
  g_allowance :: "DataAllowance option"
  g_allowance_since :: "nat option"
  g_usage :: "PeriodUsage option"

record SessionRecord =
  s_id :: rstr
  s_grant_id :: rstr
  s_secret_hash :: "rstr option"
  s_control_secret_hash :: "u8 list option"
  s_data_plane_secret_hash :: "u8 list option"
  s_resource_slot :: "nat option"
  s_client_name :: rstr
  s_issued_at :: nat
  s_expires_at :: nat

definition CURRENT_STATE_SCHEMA_VERSION :: nat where "CURRENT_STATE_SCHEMA_VERSION = 2"

record PersistedState =
  schema_version :: nat
  grants :: "AccessGrantRecord list"
  sessions :: "SessionRecord list"

definition default_state :: PersistedState where
  "default_state = \<lparr>schema_version = CURRENT_STATE_SCHEMA_VERSION, grants = [], sessions = []\<rparr>"

definition MAX_SECRET_HASH_LENGTH :: nat where "MAX_SECRET_HASH_LENGTH = 512"
definition MAX_LABEL_LENGTH :: nat where "MAX_LABEL_LENGTH = 64"
definition MAX_CLIENT_NAME_LENGTH :: nat where "MAX_CLIENT_NAME_LENGTH = 96"

subsection \<open>Validation\<close>

definition valid_identifier :: "rstr \<Rightarrow> nat \<Rightarrow> bool" where
  "valid_identifier value n \<longleftrightarrow> str_len value = n \<and> list_all is_alnum value"

definition valid_text :: "rstr \<Rightarrow> nat \<Rightarrow> bool" where
  "valid_text value maximum \<longleftrightarrow> value \<noteq> [] \<and> str_len value \<le> maximum \<and> value = trim value
     \<and> \<not> list_ex is_control value"

text \<open>
  The loop over the grants, with the map \<open>grants_by_id\<close> it builds.
\<close>

fun validate_grants :: "crypto \<Rightarrow> (rstr \<rightharpoonup> nat option) \<Rightarrow> AccessGrantRecord list
    \<Rightarrow> string + (rstr \<rightharpoonup> nat option)" where
  "validate_grants cr by_id [] = Ok by_id"
| "validate_grants cr by_id (grant # rest) =
    (if \<not> valid_identifier (g_id grant) ACCESS_ID_LENGTH then Err ''access grant ID is invalid''
     else if by_id (g_id grant) \<noteq> None then Err ''access grant IDs are duplicated''
     else if \<not> valid_text (g_secret_hash grant) MAX_SECRET_HASH_LENGTH
       then Err ''access grant hash is invalid''
     else if \<not> is_supported_secret_hash cr (g_secret_hash grant)
       then Err ''access grant hash profile is unsupported''
     else if \<not> valid_text (g_label grant) MAX_LABEL_LENGTH then Err ''access grant label is invalid''
     else if g_max_connections grant = 0 then Err ''access grant connection limit is invalid''
     else if \<not> protocols_valid (g_protocols grant) then Err ''access grant allows no protocol''
     else if (case g_allowance grant of None \<Rightarrow> False | Some a \<Rightarrow> \<not> allowance_is_valid a)
       then Err ''access grant allowance is invalid''
     else if (g_usage grant \<noteq> None \<or> g_allowance_since grant \<noteq> None) \<and> g_allowance grant = None
       then Err ''access grant counts usage without an allowance''
     else if (case g_expires_at grant of None \<Rightarrow> False | Some expires_at \<Rightarrow> expires_at \<le> g_created_at grant)
       then Err ''access grant expiry is invalid''
     else validate_grants cr (by_id(g_id grant \<mapsto> g_expires_at grant)) rest)"

definition validate_session_hash :: "crypto \<Rightarrow> SessionRecord \<Rightarrow> string + unit" where
  "validate_session_hash cr session =
    (case (s_control_secret_hash session, s_secret_hash session) of
       (Some _, None) \<Rightarrow> Ok ()
     | (None, Some secret_hash) \<Rightarrow>
         (if \<not> valid_text secret_hash MAX_SECRET_HASH_LENGTH then Err ''session hash is invalid''
          else if \<not> is_supported_secret_hash cr secret_hash
            then Err ''session hash profile is unsupported''
          else Ok ())
     | (Some _, Some _) \<Rightarrow> Err ''session has multiple control-token hashes''
     | (None, None) \<Rightarrow> Err ''session control-token hash is missing'')"

text \<open>The loop over the sessions, with the sets of IDs and slots it has seen.\<close>

fun validate_sessions :: "crypto \<Rightarrow> (rstr \<rightharpoonup> nat option) \<Rightarrow> rstr set \<Rightarrow> nat set
    \<Rightarrow> SessionRecord list \<Rightarrow> string + unit" where
  "validate_sessions cr by_id ids slots [] = Ok ()"
| "validate_sessions cr by_id ids slots (session # rest) =
    (if \<not> valid_identifier (s_id session) SESSION_ID_LENGTH then Err ''session ID is invalid''
     else if s_id session \<in> ids then Err ''session IDs are duplicated''
     else if (case s_resource_slot session of None \<Rightarrow> False | Some slot \<Rightarrow> slot \<in> slots)
       then Err ''session resource slots are duplicated''
     else (case by_id (s_grant_id session) of
         None \<Rightarrow> Err ''session references an unknown access grant''
       | Some grant_expiry \<Rightarrow>
           (case validate_session_hash cr session of Err e \<Rightarrow> Err e
            | Ok _ \<Rightarrow>
              if \<not> valid_text (s_client_name session) MAX_CLIENT_NAME_LENGTH
                then Err ''session client name is invalid''
              else if s_expires_at session \<le> s_issued_at session then Err ''session expiry is invalid''
              else if (case grant_expiry of None \<Rightarrow> False | Some g \<Rightarrow> s_expires_at session > g)
                then Err ''session outlives its access grant''
              else validate_sessions cr by_id (insert (s_id session) ids)
                (case s_resource_slot session of None \<Rightarrow> slots | Some slot \<Rightarrow> insert slot slots) rest)))"

definition validate :: "crypto \<Rightarrow> PersistedState \<Rightarrow> string + unit" where
  "validate cr st = (case validate_grants cr Map.empty (grants st) of Err e \<Rightarrow> Err e
     | Ok by_id \<Rightarrow> validate_sessions cr by_id {} {} (sessions st))"

subsection \<open>What validation means\<close>

definition grant_ok :: "crypto \<Rightarrow> AccessGrantRecord \<Rightarrow> bool" where
  "grant_ok cr g \<longleftrightarrow> valid_identifier (g_id g) ACCESS_ID_LENGTH
     \<and> valid_text (g_secret_hash g) MAX_SECRET_HASH_LENGTH
     \<and> is_supported_secret_hash cr (g_secret_hash g)
     \<and> valid_text (g_label g) MAX_LABEL_LENGTH
     \<and> 0 < g_max_connections g \<and> protocols_valid (g_protocols g)
     \<and> (\<forall>a. g_allowance g = Some a \<longrightarrow> allowance_is_valid a)
     \<and> (g_allowance g = None \<longrightarrow> g_usage g = None \<and> g_allowance_since g = None)
     \<and> (\<forall>e. g_expires_at g = Some e \<longrightarrow> g_created_at g < e)"

definition session_ok :: "crypto \<Rightarrow> SessionRecord \<Rightarrow> bool" where
  "session_ok cr s \<longleftrightarrow> valid_identifier (s_id s) SESSION_ID_LENGTH
     \<and> validate_session_hash cr s = Ok ()
     \<and> valid_text (s_client_name s) MAX_CLIENT_NAME_LENGTH
     \<and> s_issued_at s < s_expires_at s"

definition within_grant :: "AccessGrantRecord list \<Rightarrow> SessionRecord \<Rightarrow> bool" where
  "within_grant gs s \<longleftrightarrow>
     (\<exists>g \<in> set gs. g_id g = s_grant_id s \<and> (\<forall>e. g_expires_at g = Some e \<longrightarrow> s_expires_at s \<le> e))"

definition slots_of :: "SessionRecord list \<Rightarrow> nat list" where
  "slots_of ss = List.map_filter s_resource_slot ss"

definition valid_state :: "crypto \<Rightarrow> PersistedState \<Rightarrow> bool" where
  "valid_state cr st \<longleftrightarrow> distinct (map g_id (grants st)) \<and> (\<forall>g \<in> set (grants st). grant_ok cr g)
     \<and> distinct (map s_id (sessions st)) \<and> distinct (slots_of (sessions st))
     \<and> (\<forall>s \<in> set (sessions st). session_ok cr s \<and> within_grant (grants st) s)"

definition grants_map :: "(rstr \<rightharpoonup> nat option) \<Rightarrow> AccessGrantRecord list \<Rightarrow> (rstr \<rightharpoonup> nat option)" where
  "grants_map by_id gs = foldl (\<lambda>m g. m(g_id g \<mapsto> g_expires_at g)) by_id gs"

lemma grants_map_simps [simp]:
  "grants_map m [] = m" "grants_map m (g # gs) = grants_map (m(g_id g \<mapsto> g_expires_at g)) gs"
  by (simp_all add: grants_map_def)

lemma grants_map_other: "i \<notin> g_id ` set gs \<Longrightarrow> grants_map m gs i = m i"
  by (induction gs arbitrary: m) auto

lemma grants_map_lookup:
  "distinct (map g_id gs) \<Longrightarrow> g \<in> set gs \<Longrightarrow> grants_map m gs (g_id g) = Some (g_expires_at g)"
  by (induction gs arbitrary: m) (auto simp: grants_map_other)

lemma validate_grants_step:
  "validate_grants cr m (g # gs) = Ok x \<longleftrightarrow>
     grant_ok cr g \<and> m (g_id g) = None \<and> validate_grants cr (m(g_id g \<mapsto> g_expires_at g)) gs = Ok x"
  unfolding validate_grants.simps if_Err_Ok case_option_False grant_ok_def
  by (simp only: not_ex not_le not_not de_Morgan_conj de_Morgan_disj neq0_conv) blast

lemma validate_grants_Ok [result_simps]:
  "validate_grants cr by_id gs = Ok m \<longleftrightarrow>
     distinct (map g_id gs) \<and> (\<forall>g \<in> set gs. by_id (g_id g) = None \<and> grant_ok cr g)
     \<and> m = grants_map by_id gs"
proof (induction gs arbitrary: by_id)
  case (Cons g gs)
  show ?case
    unfolding validate_grants_step Cons by (auto, metis image_eqI)
qed auto

lemma slots_of_simps [simp]:
  "slots_of [] = []"
  "slots_of (s # ss) = (case s_resource_slot s of None \<Rightarrow> slots_of ss | Some n \<Rightarrow> n # slots_of ss)"
  by (simp_all add: slots_of_def List.map_filter_simps split: option.splits)

lemma set_slots_of: "n \<in> set (slots_of ss) \<longleftrightarrow> (\<exists>s \<in> set ss. s_resource_slot s = Some n)"
  by (induction ss) (auto split: option.splits)

lemma validate_sessions_Ok [result_simps]:
  "validate_sessions cr by_id ids slots ss = Ok () \<longleftrightarrow>
     distinct (map s_id ss) \<and> ids \<inter> s_id ` set ss = {}
     \<and> distinct (slots_of ss) \<and> slots \<inter> set (slots_of ss) = {}
     \<and> (\<forall>s \<in> set ss. session_ok cr s \<and>
          (\<exists>e. by_id (s_grant_id s) = Some e \<and> (\<forall>x. e = Some x \<longrightarrow> s_expires_at s \<le> x)))"
proof (induction ss arbitrary: ids slots)
  case (Cons s ss)
  show ?case
    by (cases "s_resource_slot s") (auto simp: Cons session_ok_def not_le)
qed auto

lemma validate_iff_valid_state: "validate cr st = Ok () \<longleftrightarrow> valid_state cr st"
proof -
  have "(\<exists>e. grants_map Map.empty (grants st) (s_grant_id s) = Some e
      \<and> (\<forall>x. e = Some x \<longrightarrow> s_expires_at s \<le> x)) \<longleftrightarrow> within_grant (grants st) s"
    if "distinct (map g_id (grants st))" for s
  proof (cases "s_grant_id s \<in> g_id ` set (grants st)")
    case True
    then obtain g where g: "g \<in> set (grants st)" "s_grant_id s = g_id g" by auto
    have "within_grant (grants st) s \<longleftrightarrow> (\<forall>e. g_expires_at g = Some e \<longrightarrow> s_expires_at s \<le> e)"
      using g distinct_map_inj [OF that] unfolding within_grant_def by metis
    then show ?thesis using grants_map_lookup [OF that g(1)] g(2) by simp
  next
    case False
    then show ?thesis by (simp add: grants_map_other within_grant_def) (metis image_eqI)
  qed
  then show ?thesis
    unfolding validate_def case_result_Ok validate_grants_Ok validate_sessions_Ok valid_state_def
    by auto
qed

lemma valid_default_state: "valid_state cr default_state"
  by (simp add: valid_state_def default_state_def)

lemma valid_state_grant:
  "valid_state cr st \<Longrightarrow> find (\<lambda>g. g_id g = i) (grants st) = Some g \<longleftrightarrow> g \<in> set (grants st) \<and> g_id g = i"
  by (simp add: valid_state_def find_unique)

lemma valid_state_session:
  "valid_state cr st \<Longrightarrow> find (\<lambda>s. s_id s = i) (sessions st) = Some s \<longleftrightarrow> s \<in> set (sessions st) \<and> s_id s = i"
  by (simp add: valid_state_def find_unique)

lemma distinct_slots_filter: "distinct (slots_of ss) \<Longrightarrow> distinct (slots_of (filter P ss))"
  by (induction ss) (auto simp: set_slots_of split: option.splits)

text \<open>Dropping sessions, or grants no session refers to, keeps a state valid.\<close>

lemma valid_state_filter_sessions:
  "valid_state cr st \<Longrightarrow> valid_state cr (st\<lparr>sessions := filter P (sessions st)\<rparr>)"
  by (auto simp: valid_state_def distinct_slots_filter)

lemma valid_state_filter_grants:
  assumes "valid_state cr st" "\<And>s. s \<in> set ss \<Longrightarrow> Q (s_grant_id s)"
    and "\<And>g. Q (g_id g) \<Longrightarrow> P g" "ss = filter R (sessions st)"
  shows "valid_state cr (st\<lparr>grants := filter P (grants st), sessions := ss\<rparr>)"
  using assms unfolding valid_state_def within_grant_def
  by (auto simp: distinct_slots_filter) metis

subsection \<open>Properties\<close>

text \<open>
  C12: validation accepts a persisted state exactly when grant IDs are distinct
  and each grant is well formed, session IDs and resource slots are distinct,
  and each session is well formed, belongs to a grant of the state and ends
  no later than that grant.
\<close>

theorem validate_meaning:
  "validate cr st = Ok () \<longleftrightarrow>
     distinct (map g_id (grants st)) \<and> (\<forall>g \<in> set (grants st). grant_ok cr g)
     \<and> distinct (map s_id (sessions st)) \<and> distinct (slots_of (sessions st))
     \<and> (\<forall>s \<in> set (sessions st). session_ok cr s
          \<and> (\<exists>g \<in> set (grants st). g_id g = s_grant_id s
               \<and> (\<forall>e. g_expires_at g = Some e \<longrightarrow> s_expires_at s \<le> e)))"
  unfolding validate_iff_valid_state valid_state_def within_grant_def by blast

text \<open>One grant with one session, for examples.\<close>

definition sample_grant :: AccessGrantRecord where
  "sample_grant = \<lparr>g_id = lit ''Grant00001'', g_secret_hash = lit ''$argon2id$'', g_label = lit ''Home'',
     g_max_connections = 2, g_expires_at = Some 5000, g_created_at = 100, g_paused = False,
     g_protocols = AllProtocols,
     g_allowance = Some \<lparr>allowance_bytes = 2 ^ 21, period = Day\<rparr>,
     g_allowance_since = Some 100, g_usage = None\<rparr>"

definition sample_session :: SessionRecord where
  "sample_session = \<lparr>s_id = lit ''Session00001'', s_grant_id = lit ''Grant00001'', s_secret_hash = None,
     s_control_secret_hash = Some (map word_of_nat (replicate 32 65)),
     s_data_plane_secret_hash = Some (map word_of_nat (replicate 32 66)),
     s_resource_slot = Some 0, s_client_name = lit ''Phone'', s_issued_at = 200, s_expires_at = 1000\<rparr>"

definition sample_state :: PersistedState where
  "sample_state = \<lparr>schema_version = 2, grants = [sample_grant], sessions = [sample_session]\<rparr>"

definition sample_session2 :: SessionRecord where
  "sample_session2 = sample_session\<lparr>s_id := lit ''Session00002'', s_resource_slot := Some 1,
     s_client_name := lit ''Tablet'', s_issued_at := 300\<rparr>"

definition sample_state2 :: PersistedState where
  "sample_state2 = sample_state\<lparr>sessions := [sample_session2, sample_session]\<rparr>"

lemmas sample_defs = sample_state_def sample_grant_def sample_session_def

lemma sample_text_ok [simp]:
  "grant_ok sample_crypto sample_grant" "session_ok sample_crypto sample_session"
  "session_ok sample_crypto sample_session2"
  by (simp_all add: grant_ok_def session_ok_def sample_grant_def sample_session_def sample_session2_def lit_def
      valid_identifier_def valid_text_def trim_id_iff eq_commute [of _ "trim _"] secret_lengths
      str_len_def utf8_width_def char_class_defs MAX_SECRET_HASH_LENGTH_def MAX_LABEL_LENGTH_def
      MAX_CLIENT_NAME_LENGTH_def protocols_valid_def allowance_is_valid_def MIN_ALLOWANCE_BYTES_def
      MAX_ALLOWANCE_BYTES_def validate_session_hash_def)

lemma sample_valid: "valid_state sample_crypto sample_state" "valid_state sample_crypto sample_state2"
  unfolding valid_state_def within_grant_def
  by (simp add: sample_state_def, simp add: sample_defs,
      simp add: sample_state2_def sample_state_def, simp add: sample_session2_def sample_defs lit_def)

theorem validate_meaning_witness: "validate sample_crypto sample_state = Ok ()"
  unfolding validate_meaning by (simp add: sample_state_def) (simp add: sample_defs)

end
