(* ===== verification/Usage.thy ===== *)
theory Usage
  imports Model
begin

text \<open>
  A grant's allowance and its running total (\<^verbatim>\<open>ket-server/src/allowance.rs\<close>), and the
  meter that turns the engines' byte counters into what each session moved
  (\<^verbatim>\<open>ket-server/src/meter.rs\<close>).
\<close>

subsection \<open>The total of a period\<close>

definition used :: "AccessGrantRecord \<Rightarrow> nat \<Rightarrow> nat" where
  "used grant now = (case (g_allowance grant, g_usage grant) of
     (Some allowance, Some usage) \<Rightarrow>
       (if usage_period_start usage = period_start (period allowance) now then usage_bytes usage else 0)
   | _ \<Rightarrow> 0)"

definition allowance_status :: "AccessGrantRecord \<Rightarrow> nat \<Rightarrow> AllowanceStatus option" where
  "allowance_status grant now = map_option (\<lambda>allowance.
     \<lparr>status_allowance = allowance, status_used_bytes = used grant now,
      resets_at = period_end (period allowance) now\<rparr>) (g_allowance grant)"

definition used_up_until :: "AccessGrantRecord \<Rightarrow> nat \<Rightarrow> nat option" where
  "used_up_until grant now = (case allowance_status grant now of
     None \<Rightarrow> None
   | Some status \<Rightarrow> (if is_used_up status then Some (resets_at status) else None))"

definition add_usage :: "AccessGrantRecord \<Rightarrow> nat \<Rightarrow> nat \<Rightarrow> AccessGrantRecord" where
  "add_usage grant bytes now = (case g_allowance grant of
     None \<Rightarrow> grant
   | Some allowance \<Rightarrow>
       (if bytes = 0 then grant
        else grant\<lparr>g_usage := Some \<lparr>usage_period_start = period_start (period allowance) now,
               usage_bytes = sat_add64 (used grant now) bytes\<rparr>\<rparr>))"

subsection \<open>The meter\<close>

record SessionAllocation =
  alloc_id :: rstr
  alloc_slot :: nat

record MeteredSession =
  m_allocation :: SessionAllocation
  m_issued_at :: nat
  m_counted_since :: nat

record UsageReading =
  r_session_id :: rstr
  r_engine :: nat
  r_since :: nat
  r_bytes :: nat

record UsageMeter =
  started_at :: nat
  last_readings :: "(nat \<times> rstr) \<rightharpoonup> (nat \<times> nat)"

definition new_meter :: "nat \<Rightarrow> UsageMeter" where
  "new_meter at = \<lparr>started_at = at, last_readings = Map.empty\<rparr>"

definition sessions_by_id :: "MeteredSession list \<Rightarrow> (rstr \<rightharpoonup> MeteredSession)" where
  "sessions_by_id ss = map_of (rev (map (\<lambda>s. (alloc_id (m_allocation s), s)) ss))"

definition reading_delta :: "UsageMeter \<Rightarrow> MeteredSession \<Rightarrow> UsageReading \<Rightarrow> nat" where
  "reading_delta meter session reading =
    (case last_readings meter (r_engine reading, r_session_id reading) of
       Some (since, bytes) \<Rightarrow>
         (if since = r_since reading \<and> r_bytes reading \<ge> bytes then r_bytes reading - bytes
          else r_bytes reading)
     | None \<Rightarrow>
         (let began = max (m_issued_at session) (r_since reading)
          in if began \<ge> max (started_at meter) (m_counted_since session) then r_bytes reading else 0))"

definition take_reading :: "(rstr \<rightharpoonup> MeteredSession) \<Rightarrow> UsageMeter \<times> (rstr \<rightharpoonup> nat) \<Rightarrow> UsageReading
    \<Rightarrow> UsageMeter \<times> (rstr \<rightharpoonup> nat)" where
  "take_reading by_id acc reading = (case acc of (meter, moved) \<Rightarrow>
    (case by_id (r_session_id reading) of
       None \<Rightarrow> (meter, moved)
     | Some session \<Rightarrow>
         (let total = (case moved (r_session_id reading) of None \<Rightarrow> 0 | Some t \<Rightarrow> t)
          in (meter\<lparr>last_readings := (last_readings meter)
                ((r_engine reading, r_session_id reading) \<mapsto> (r_since reading, r_bytes reading))\<rparr>,
              moved(r_session_id reading \<mapsto> sat_add64 total (reading_delta meter session reading))))))"

definition meter_take :: "UsageMeter \<Rightarrow> MeteredSession list \<Rightarrow> UsageReading list
    \<Rightarrow> UsageMeter \<times> (rstr \<rightharpoonup> nat)" where
  "meter_take meter ss readings = (
     let by_id = sessions_by_id ss;
         kept = (\<lambda>key. if by_id (snd key) = None then None else last_readings meter key)
     in foldl (take_reading by_id) (meter\<lparr>last_readings := kept\<rparr>, Map.empty) readings)"

subsection \<open>Lemmas on totals\<close>

lemma used_up_until_iff:
  "used_up_until g now \<noteq> None \<longleftrightarrow> (\<exists>a. g_allowance g = Some a \<and> allowance_bytes a \<le> used g now)"
  by (auto simp: used_up_until_def allowance_status_def is_used_up_def split: option.splits)

lemma add_usage_fields [simp]:
  "g_id (add_usage g b now) = g_id g" "g_secret_hash (add_usage g b now) = g_secret_hash g"
  "g_label (add_usage g b now) = g_label g" "g_max_connections (add_usage g b now) = g_max_connections g"
  "g_expires_at (add_usage g b now) = g_expires_at g" "g_created_at (add_usage g b now) = g_created_at g"
  "g_paused (add_usage g b now) = g_paused g" "g_protocols (add_usage g b now) = g_protocols g"
  "g_allowance (add_usage g b now) = g_allowance g"
  "g_allowance_since (add_usage g b now) = g_allowance_since g"
  by (auto simp: add_usage_def split: option.splits)

lemma add_usage_without_allowance: "g_allowance g = None \<Longrightarrow> add_usage g b now = g"
  by (simp add: add_usage_def)

lemma grant_ok_add_usage: "grant_ok cr g \<Longrightarrow> grant_ok cr (add_usage g b now)"
  by (cases "g_allowance g") (auto simp: grant_ok_def add_usage_without_allowance)

lemma used_add_usage:
  assumes "g_allowance g = Some a" "used g t \<le> u64_max"
  shows "used (add_usage g b t) t = sat_add64 (used g t) b"
  using assms by (auto simp: add_usage_def used_def)

lemma used_cong:
  assumes "\<And>a. g_allowance g = Some a \<Longrightarrow> period_start (period a) t = period_start (period a) now"
  shows "used g t = used g now"
  using assms by (auto simp: used_def split: option.splits)

definition add_all :: "AccessGrantRecord \<Rightarrow> (nat \<times> nat) list \<Rightarrow> AccessGrantRecord" where
  "add_all g adds = foldl (\<lambda>g (b, t). add_usage g b t) g adds"

lemma add_all_simps [simp]:
  "add_all g [] = g" "add_all g ((b, t) # rest) = add_all (add_usage g b t) rest"
  by (simp_all add: add_all_def)

lemma used_add_all:
  assumes "g_allowance g = Some a" "used g now \<le> u64_max"
    and "\<And>b t. (b, t) \<in> set adds \<Longrightarrow> period_start (period a) t = period_start (period a) now"
  shows "used (add_all g adds) now = min (used g now + sum_list (map fst adds)) u64_max"
  using assms
proof (induction adds arbitrary: g)
  case (Cons x rest)
  obtain b t where x: "x = (b, t)" by (cases x)
  have same: "period_start (period a) t = period_start (period a) now"
    using Cons.prems(3) [of b t] by (simp add: x)
  have u: "used (add_usage g b t) now = sat_add64 (used g now) b"
    using used_add_usage [OF Cons.prems(1), of t b] used_cong [of g t now] Cons.prems(1,2) same
      used_cong [of "add_usage g b t" t now] by simp
  have "used (add_all (add_usage g b t) rest) now
      = min (used (add_usage g b t) now + sum_list (map fst rest)) u64_max"
    by (rule Cons.IH) (use Cons.prems(1,3) u in \<open>auto simp: x\<close>)
  then show ?case unfolding u by (auto simp: x sat_add64_def min_def)
qed simp

subsection \<open>Lemmas on the meter\<close>

lemma take_reading_started [simp]: "started_at (fst (take_reading by_id acc r)) = started_at (fst acc)"
  by (auto simp: take_reading_def Let_def split: prod.splits option.splits)

lemma fold_started [simp]:
  "started_at (fst (foldl (take_reading by_id) acc rs)) = started_at (fst acc)"
  by (induction rs arbitrary: acc) simp_all

lemma fold_others:
  assumes "\<forall>r \<in> set rs. r_session_id r \<noteq> sid"
  shows "snd (foldl (take_reading by_id) acc rs) sid = snd acc sid"
    and "last_readings (fst (foldl (take_reading by_id) acc rs)) (e, sid) = last_readings (fst acc) (e, sid)"
  using assms
  by (induction rs arbitrary: acc)
    (auto simp: take_reading_def Let_def split: prod.splits option.splits)

lemma reading_delta_cong:
  "last_readings m (r_engine r, r_session_id r) = last_readings m' (r_engine r, r_session_id r) \<Longrightarrow>
   started_at m = started_at m' \<Longrightarrow> reading_delta m s r = reading_delta m' s r"
  by (simp add: reading_delta_def split: option.splits)

lemma meter_take_one:
  assumes "sessions_by_id ss sid = Some s" "filter (\<lambda>r. r_session_id r = sid) readings = [r]"
  shows "snd (meter_take m ss readings) sid = Some (sat_add64 0 (reading_delta m s r))"
    and "last_readings (fst (meter_take m ss readings)) (r_engine r, sid) = Some (r_since r, r_bytes r)"
    and "started_at (fst (meter_take m ss readings)) = started_at m"
proof -
  obtain pre post where sp0: "readings = pre @ r # post" "\<forall>x \<in> set pre. r_session_id x \<noteq> sid"
    "[] = filter (\<lambda>r. r_session_id r = sid) post" "r_session_id r = sid"
    using filter_eq_ConsD [OF assms(2)] by blast
  have "\<forall>x \<in> set post. r_session_id x \<noteq> sid"
    using sp0(3) [symmetric] by (simp only: filter_empty_conv)
  note sp = sp0(1,2) this sp0(4)
  define m0 where "m0 = m\<lparr>last_readings := \<lambda>key. if sessions_by_id ss (snd key) = None then None
    else last_readings m key\<rparr>"
  define mid where "mid = foldl (take_reading (sessions_by_id ss)) (m0, Map.empty) pre"
  have mid: "snd mid sid = None" "last_readings (fst mid) (r_engine r, sid) = last_readings m (r_engine r, sid)"
    "started_at (fst mid) = started_at m"
    using fold_others [OF sp(2), of "sessions_by_id ss" "(m0, Map.empty)"] assms(1)
    by (simp_all add: mid_def m0_def)
  have d: "reading_delta (fst mid) s r = reading_delta m s r"
    using mid sp(4) by (intro reading_delta_cong) auto
  define after where "after = take_reading (sessions_by_id ss) mid r"
  have after: "snd after sid = Some (sat_add64 0 (reading_delta m s r))"
    "last_readings (fst after) (r_engine r, sid) = Some (r_since r, r_bytes r)"
    "started_at (fst after) = started_at m"
    using assms(1) sp(4) mid d by (auto simp: after_def take_reading_def Let_def split: prod.splits)
  have mt: "meter_take m ss readings = foldl (take_reading (sessions_by_id ss)) after post"
    by (simp add: meter_take_def Let_def sp(1) after_def mid_def m0_def)
  show "snd (meter_take m ss readings) sid = Some (sat_add64 0 (reading_delta m s r))"
    "last_readings (fst (meter_take m ss readings)) (r_engine r, sid) = Some (r_since r, r_bytes r)"
    "started_at (fst (meter_take m ss readings)) = started_at m"
    unfolding mt using fold_others [OF sp(3), of "sessions_by_id ss" after] after by simp_all
qed

text \<open>
  What the meter reports for one session over a series of calls, and what one
  engine's counter held in total: the last value of each run in which it kept
  its \<open>since\<close> and did not go down.
\<close>

fun metered_total :: "UsageMeter \<Rightarrow> (MeteredSession list \<times> UsageReading list) list \<Rightarrow> rstr \<Rightarrow> nat" where
  "metered_total m [] sid = 0"
| "metered_total m ((ss, rs) # calls) sid = (case meter_take m ss rs of (m', moved) \<Rightarrow>
     (case moved sid of None \<Rightarrow> 0 | Some b \<Rightarrow> b) + metered_total m' calls sid)"

fun counter_total :: "(nat \<times> nat) list \<Rightarrow> nat" where
  "counter_total [] = 0"
| "counter_total [(since, bytes)] = bytes"
| "counter_total ((since, bytes) # (since', bytes') # rest) =
     (if since = since' \<and> bytes \<le> bytes' then 0 else bytes) + counter_total ((since', bytes') # rest)"

definition reports :: "rstr \<Rightarrow> MeteredSession \<Rightarrow> nat \<Rightarrow> MeteredSession list \<times> UsageReading list
    \<Rightarrow> UsageReading \<Rightarrow> bool" where
  "reports sid s e call r \<longleftrightarrow> sessions_by_id (fst call) sid = Some s
     \<and> filter (\<lambda>x. r_session_id x = sid) (snd call) = [r] \<and> r_engine r = e \<and> r_bytes r \<le> u64_max"

lemma reports_id: "reports sid s e call r \<Longrightarrow> r_session_id r = sid"
  unfolding reports_def by (metis (mono_tags) filter_eq_ConsD)

lemma counter_total_Cons: "bytes \<le> counter_total ((since, bytes) # rest)"
proof (induction rest arbitrary: since bytes)
  case (Cons x rest)
  show ?case using Cons [of "snd x" "fst x"] by (cases x) auto
qed simp

lemma metered_after_first:
  assumes "list_all2 (reports sid s e) calls rs" "last_readings m (e, sid) = Some (since, bytes)"
  shows "metered_total m calls sid + bytes
     = counter_total ((since, bytes) # map (\<lambda>r. (r_since r, r_bytes r)) rs)"
  using assms
proof (induction calls rs arbitrary: m since bytes rule: list_all2_induct)
  case (Cons call calls r rs)
  obtain ss readings where call: "call = (ss, readings)" by (cases call)
  obtain m' moved where mt: "meter_take m ss readings = (m', moved)" by fastforce
  have rep: "sessions_by_id ss sid = Some s" "filter (\<lambda>x. r_session_id x = sid) readings = [r]"
    "r_engine r = e" "r_bytes r \<le> u64_max" "r_session_id r = sid"
    using Cons(1) reports_id [OF Cons(1)] by (auto simp: reports_def call)
  have d: "reading_delta m s r + bytes = (if since = r_since r \<and> bytes \<le> r_bytes r then 0 else bytes) + r_bytes r"
    "reading_delta m s r \<le> u64_max"
    using Cons.prems rep by (auto simp: reading_delta_def)
  have one: "moved sid = Some (reading_delta m s r)" "last_readings m' (e, sid) = Some (r_since r, r_bytes r)"
    using meter_take_one [OF rep(1,2), of m] mt rep(3) d(2) by (auto simp: sat_add64_def)
  from Cons.IH [OF one(2)] show ?case
    using d(1) by (simp add: call mt one(1))
qed simp

subsection \<open>Properties\<close>

text \<open>
  Within one period the running total is the sum of everything added,
  capped at the largest 64-bit number, whatever the moments of the period the
  additions were made at.
\<close>

theorem period_total_is_sum:
  assumes "g_allowance g = Some a" "used g now \<le> u64_max"
    and "\<forall>(b, t) \<in> set adds. period_start (period a) t = period_start (period a) now"
  shows "used (foldl (\<lambda>g (b, t). add_usage g b t) g adds) now
     = min (used g now + sum_list (map fst adds)) u64_max"
  using used_add_all [of g a now adds] assms by (auto simp: add_all_def)

theorem period_total_is_sum_witness:
  "used (foldl (\<lambda>g (b, t). add_usage g b t) sample_grant [(5, 300), (7, 90 * 60)]) 400 = 12"
proof -
  have a: "g_allowance sample_grant = Some \<lparr>allowance_bytes = 2 ^ 21, period = Day\<rparr>"
    "used sample_grant 400 = 0"
    by (simp_all add: sample_grant_def used_def)
  have "\<forall>(b, t) \<in> set [(5::nat, 300), (7, 90 * 60)]. period_start (period \<lparr>allowance_bytes = 2 ^ 21, period = Day\<rparr>) t
      = period_start (period \<lparr>allowance_bytes = 2 ^ 21, period = Day\<rparr>) 400"
    by (simp add: period_start.simps SECONDS_PER_DAY_def)
  from period_total_is_sum [OF a(1) _ this] a(2) show ?thesis by (simp add: u64_max_def)
qed

text \<open>
  C13: the meter counts no byte twice and loses none between readings. Take any
  series of calls that each list a session and carry one reading of one
  engine's counter for it, a counter the meter has not seen before. What the
  calls report for the session adds up to exactly what the counter held over
  its restarts, less its first reading when that one only set the starting
  point because the counter began before the meter or the allowance did.
\<close>

theorem meter_counts_each_byte_once:
  assumes "list_all2 (reports sid s e) calls (r # rs)" "last_readings m (e, sid) = None"
  shows "metered_total m calls sid
     + (if max (started_at m) (m_counted_since s) \<le> max (m_issued_at s) (r_since r) then 0 else r_bytes r)
     = counter_total (map (\<lambda>r. (r_since r, r_bytes r)) (r # rs))"
proof -
  obtain ss readings calls' where calls: "calls = (ss, readings) # calls'"
    "reports sid s e (ss, readings) r" "list_all2 (reports sid s e) calls' rs"
    using assms(1) by (auto simp: list_all2_Cons2)
  obtain m' moved where mt: "meter_take m ss readings = (m', moved)" by fastforce
  have rep: "sessions_by_id ss sid = Some s" "filter (\<lambda>x. r_session_id x = sid) readings = [r]"
    "r_engine r = e" "r_bytes r \<le> u64_max" "r_session_id r = sid"
    using calls(2) reports_id [OF calls(2)] by (auto simp: reports_def)
  have one: "moved sid = Some (reading_delta m s r)" "last_readings m' (e, sid) = Some (r_since r, r_bytes r)"
    using meter_take_one [OF rep(1,2), of m] mt rep assms(2)
    by (auto simp: sat_add64_def reading_delta_def Let_def)
  show ?thesis
    using metered_after_first [OF calls(3) one(2)] assms(2) rep
    by (auto simp: calls(1) mt one(1) reading_delta_def Let_def)
qed

theorem meter_counts_each_byte_once_witness:
  "metered_total (new_meter 50)
     [([\<lparr>m_allocation = \<lparr>alloc_id = [65], alloc_slot = 0\<rparr>, m_issued_at = 60, m_counted_since = 10\<rparr>],
       [\<lparr>r_session_id = [65], r_engine = 0, r_since = 0, r_bytes = 100\<rparr>]),
      ([\<lparr>m_allocation = \<lparr>alloc_id = [65], alloc_slot = 0\<rparr>, m_issued_at = 60, m_counted_since = 10\<rparr>],
       [\<lparr>r_session_id = [65], r_engine = 0, r_since = 0, r_bytes = 30\<rparr>])] [65] = 130"
  using meter_counts_each_byte_once [of "[65]"
      "\<lparr>m_allocation = \<lparr>alloc_id = [65], alloc_slot = 0\<rparr>, m_issued_at = 60, m_counted_since = 10\<rparr>" 0
      "[([\<lparr>m_allocation = \<lparr>alloc_id = [65], alloc_slot = 0\<rparr>, m_issued_at = 60, m_counted_since = 10\<rparr>],
         [\<lparr>r_session_id = [65], r_engine = 0, r_since = 0, r_bytes = 100\<rparr>]),
        ([\<lparr>m_allocation = \<lparr>alloc_id = [65], alloc_slot = 0\<rparr>, m_issued_at = 60, m_counted_since = 10\<rparr>],
         [\<lparr>r_session_id = [65], r_engine = 0, r_since = 0, r_bytes = 30\<rparr>])]"
      "\<lparr>r_session_id = [65], r_engine = 0, r_since = 0, r_bytes = 100\<rparr>"
      "[\<lparr>r_session_id = [65], r_engine = 0, r_since = 0, r_bytes = 30\<rparr>]" "new_meter 50"]
  by (simp add: reports_def sessions_by_id_def new_meter_def u64_max_def)

end
