(* ===== verification/Repository.thy ===== *)
theory Repository
  imports Model
begin

text \<open>
  The state file (\<^verbatim>\<open>ket-server/src/repository.rs\<close>). The disk holds the state file and
  the temporary file a store writes before it renames it; every system call
  may fail, and an argument of type \<open>io\<close> says which do on a given run. The
  JSON encoding is serde's, a third-party package: it is the argument of type
  \<open>json\<close>. The locale \<open>state_repository\<close> is the contract the access service
  relies on, and the file repository is shown to keep it.
\<close>

subsection \<open>Data\<close>

definition MAX_STATE_FILE_BYTES :: nat where "MAX_STATE_FILE_BYTES = 64 * 1024 * 1024"
definition LEGACY_STATE_SCHEMA_VERSION :: nat where "LEGACY_STATE_SCHEMA_VERSION = 1"

datatype RepositoryError = Io | InvalidData | UnsupportedSchema nat | TooLarge
  | InvalidStateRecords string

record disk =
  state_file :: "u8 list option"
  temporary_file :: "u8 list option"

text \<open>
  The outcome of each system call. \<open>io_write\<close> is \<open>None\<close> when the whole buffer
  is written, and otherwise the number of bytes written before the failure.
\<close>

record io =
  io_metadata :: bool
  io_read :: bool
  io_create_dir :: bool
  io_open :: bool
  io_write :: "nat option"
  io_sync :: bool
  io_rename :: bool

definition calm :: io where
  "calm = \<lparr>io_metadata = True, io_read = True, io_create_dir = True, io_open = True, io_write = None,
     io_sync = True, io_rename = True\<rparr>"

record json =
  to_vec_pretty :: "PersistedState \<Rightarrow> u8 list option"
  from_slice :: "u8 list \<Rightarrow> PersistedState option"

text \<open>What serde documents of a derived pair of implementations.\<close>

definition json_faithful :: "json \<Rightarrow> bool" where
  "json_faithful js \<longleftrightarrow> (\<forall>st bytes. to_vec_pretty js st = Some bytes \<longrightarrow> from_slice js bytes = Some st)"

subsection \<open>Operations\<close>

definition load_file :: "crypto \<Rightarrow> json \<Rightarrow> io \<Rightarrow> disk \<Rightarrow> RepositoryError + PersistedState" where
  "load_file cr js io d =
    (if \<not> io_metadata io then Err Io
     else (case state_file d of
       None \<Rightarrow> Ok default_state
     | Some content \<Rightarrow>
       (if length content > MAX_STATE_FILE_BYTES then Err TooLarge
        else if \<not> io_read io then Err Io
        else if length content > MAX_STATE_FILE_BYTES then Err TooLarge
        else (case from_slice js content of
          None \<Rightarrow> Err InvalidData
        | Some state0 \<Rightarrow>
          (let migrated = (if schema_version state0 = LEGACY_STATE_SCHEMA_VERSION
                             then Ok (state0\<lparr>schema_version := CURRENT_STATE_SCHEMA_VERSION\<rparr>)
                           else if schema_version state0 = CURRENT_STATE_SCHEMA_VERSION then Ok state0
                           else Err (UnsupportedSchema (schema_version state0)))
           in (case migrated of Err e \<Rightarrow> Err e
               | Ok st \<Rightarrow> (case validate cr st of Err e \<Rightarrow> Err (InvalidStateRecords e)
                           | Ok _ \<Rightarrow> Ok st)))))))"

definition store_file :: "crypto \<Rightarrow> json \<Rightarrow> io \<Rightarrow> disk \<Rightarrow> PersistedState
    \<Rightarrow> disk \<times> (RepositoryError + unit)" where
  "store_file cr js io d st =
    (if schema_version st \<noteq> CURRENT_STATE_SCHEMA_VERSION
       then (d, Err (UnsupportedSchema (schema_version st)))
     else (case validate cr st of
       Err e \<Rightarrow> (d, Err (InvalidStateRecords e))
     | Ok _ \<Rightarrow>
       (if \<not> io_create_dir io then (d, Err Io)
        else (case to_vec_pretty js st of
          None \<Rightarrow> (d, Err InvalidData)
        | Some encoded \<Rightarrow>
          (if length encoded > MAX_STATE_FILE_BYTES then (d, Err TooLarge)
           else if \<not> io_open io then (d, Err Io)
           else (case io_write io of
             Some k \<Rightarrow> (d\<lparr>temporary_file := Some (take k encoded)\<rparr>, Err Io)
           | None \<Rightarrow>
             (let d = d\<lparr>temporary_file := Some encoded\<rparr>
              in if \<not> io_sync io then (d, Err Io)
                 else if \<not> io_rename io then (d, Err Io)
                 else (d\<lparr>state_file := temporary_file d, temporary_file := None\<rparr>, Ok ()))))))))"

text \<open>
  A run of stores, some of which may fail part-way, and the state the last
  one that succeeded was given.
\<close>

fun store_all :: "('io \<Rightarrow> 'd \<Rightarrow> PersistedState \<Rightarrow> 'd \<times> (RepositoryError + unit))
    \<Rightarrow> ('io \<times> PersistedState) list \<Rightarrow> 'd \<Rightarrow> 'd" where
  "store_all store [] d = d"
| "store_all store ((i, st) # rest) d = store_all store rest (fst (store i d st))"

fun last_stored :: "('io \<Rightarrow> 'd \<Rightarrow> PersistedState \<Rightarrow> 'd \<times> (RepositoryError + unit))
    \<Rightarrow> ('io \<times> PersistedState) list \<Rightarrow> 'd \<Rightarrow> PersistedState \<Rightarrow> PersistedState" where
  "last_stored store [] d st0 = st0"
| "last_stored store ((i, st) # rest) d st0 = (case store i d st of
     (d', Err _) \<Rightarrow> last_stored store rest d' st0
   | (d', Ok _) \<Rightarrow> last_stored store rest d' st)"

subsection \<open>The contract of a repository\<close>

locale state_repository =
  fixes load :: "'d \<Rightarrow> RepositoryError + PersistedState"
    and store :: "'io \<Rightarrow> 'd \<Rightarrow> PersistedState \<Rightarrow> 'd \<times> (RepositoryError + unit)"
    and valid :: "PersistedState \<Rightarrow> bool"
    and lossless :: bool
  assumes load_valid: "load d = Ok st \<Longrightarrow> valid st"
    and store_valid: "store i d st = (d', Ok ()) \<Longrightarrow> valid st"
    and store_load: "lossless \<Longrightarrow> store i d st = (d', Ok ()) \<Longrightarrow> load d' = Ok st"
    and store_failed: "store i d st = (d', Err e) \<Longrightarrow> load d' = load d"
begin

lemma load_after_stores:
  assumes "lossless" "load d = Ok st0"
  shows "load (store_all store runs d) = Ok (last_stored store runs d st0)"
  using assms(2)
proof (induction runs arbitrary: d st0)
  case (Cons r rest)
  obtain i st where r: "r = (i, st)" by (cases r)
  obtain d' res where s: "store i d st = (d', res)" by (cases "store i d st")
  have "load d' = Ok (case res of Err _ \<Rightarrow> st0 | Ok _ \<Rightarrow> st)"
    using s Cons.prems store_failed [of i d st d'] store_load [OF assms(1), of i d st d']
    by (cases res) auto
  from Cons.IH [OF this] show ?case by (cases res) (simp_all add: r s)
qed simp

end

subsection \<open>The file repository keeps it\<close>

lemma schema_default_state [simp]: "schema_version default_state = CURRENT_STATE_SCHEMA_VERSION"
  by (simp add: default_state_def)

lemma load_file_Ok [result_simps]:
  "load_file cr js io d = Ok st \<Longrightarrow> schema_version st = CURRENT_STATE_SCHEMA_VERSION \<and> valid_state cr st"
  by (auto simp: load_file_def Let_def validate_iff_valid_state valid_default_state
      split: option.splits if_splits)

lemma store_file_Ok [result_simps]:
  "store_file cr js io d st = (d', Ok ()) \<longleftrightarrow>
     schema_version st = CURRENT_STATE_SCHEMA_VERSION \<and> valid_state cr st
     \<and> io_create_dir io \<and> io_open io \<and> io_write io = None \<and> io_sync io \<and> io_rename io
     \<and> (\<exists>encoded. to_vec_pretty js st = Some encoded \<and> length encoded \<le> MAX_STATE_FILE_BYTES
          \<and> d' = d\<lparr>state_file := Some encoded, temporary_file := None\<rparr>)"
  unfolding validate_iff_valid_state [symmetric]
  by (auto simp: store_file_def Let_def split: option.splits if_splits sum.splits)

lemma store_file_Err:
  "store_file cr js io d st = (d', Err e) \<Longrightarrow> state_file d' = state_file d"
  by (auto simp: store_file_def Let_def split: option.splits if_splits sum.splits)

lemma load_file_cong: "state_file d = state_file d' \<Longrightarrow> load_file cr js io d = load_file cr js io d'"
  by (simp add: load_file_def)

interpretation file_repo: state_repository "load_file cr js calm" "store_file cr js"
  "\<lambda>st. schema_version st = CURRENT_STATE_SCHEMA_VERSION \<and> valid_state cr st" "json_faithful js"
  for cr js
proof (unfold_locales, goal_cases)
  case (1 d st)
  then show ?case by (rule load_file_Ok)
next
  case (2 i d st d')
  then show ?case by (simp add: store_file_Ok)
next
  case (3 i d st d')
  then show ?case
    by (auto simp: store_file_Ok load_file_def calm_def json_faithful_def Let_def
        validate_iff_valid_state CURRENT_STATE_SCHEMA_VERSION_def LEGACY_STATE_SCHEMA_VERSION_def)
next
  case (4 i d st d' e)
  then show ?case using store_file_Err load_file_cong by blast
qed

subsection \<open>Properties\<close>

text \<open>
  C11: writing the state file is atomic. After any run of stores, in which any
  system call of any store may fail at any point, reading the file gives
  exactly the state of the last store that succeeded, or the state before the
  run when none did.
\<close>

theorem stores_are_atomic:
  assumes "json_faithful js" "load_file cr js calm d = Ok st0"
  shows "load_file cr js calm (store_all (store_file cr js) runs d)
     = Ok (last_stored (store_file cr js) runs d st0)"
  using assms by (rule file_repo.load_after_stores)

text \<open>An encoding of the sample state and of the empty one.\<close>

definition sample_json :: json where
  "sample_json = \<lparr>to_vec_pretty = (\<lambda>st. if st = default_state then Some [0]
       else if st = sample_state then Some [1] else None),
     from_slice = (\<lambda>bytes. if bytes = [0] then Some default_state
       else if bytes = [1] then Some sample_state else None)\<rparr>"

lemma sample_json_faithful: "json_faithful sample_json"
  by (simp add: json_faithful_def sample_json_def)

theorem stores_are_atomic_witness:
  "load_file sample_crypto sample_json calm (store_all (store_file sample_crypto sample_json)
      [(calm, sample_state), (calm\<lparr>io_rename := False\<rparr>, default_state)]
      \<lparr>state_file = None, temporary_file = None\<rparr>) = Ok sample_state"
proof -
  note valid = sample_valid(1)
  have "load_file sample_crypto sample_json calm \<lparr>state_file = None, temporary_file = None\<rparr> = Ok default_state"
    by (simp add: load_file_def calm_def)
  from stores_are_atomic [OF sample_json_faithful this,
      of "[(calm, sample_state), (calm\<lparr>io_rename := False\<rparr>, default_state)]"]
  show ?thesis
    using valid [folded validate_iff_valid_state] valid_default_state [folded validate_iff_valid_state]
    by (simp add: store_file_def calm_def Let_def sample_json_def MAX_STATE_FILE_BYTES_def
        CURRENT_STATE_SCHEMA_VERSION_def sample_state_def)
qed

end
