(* ===== verification/Grant_Admin.thy ===== *)
theory Grant_Admin
  imports Usage Repository
begin

text \<open>
  Changing one access grant (\<^verbatim>\<open>ket-server/src/grant_admin.rs\<close>): which fields change, which
  sessions the change ends and which it cuts short, with the error type and
  the session allocations of \<^verbatim>\<open>ket-server/src/service.rs\<close>.
\<close>

subsection \<open>Data\<close>

datatype ServiceError = InvalidInput rstr | Unauthorized | GrantExpired | GrantCapacity
  | GrantPaused | AllowanceUsed nat | NodeCapacity | Busy | NotFound | Forbidden | Crypto
  | Persistence RepositoryError | InvalidState string

record UpdateAccessGrantRequest =
  u_label :: "rstr option"
  u_max_connections :: "nat option"
  u_expires_at :: "nat option"
  u_paused :: "bool option"
  u_protocols :: "ProtocolAccess option"
  u_allowance :: "DataAllowance option option"
  u_reset_usage :: bool

definition no_changes :: UpdateAccessGrantRequest where
  "no_changes = \<lparr>u_label = None, u_max_connections = None, u_expires_at = None, u_paused = None,
     u_protocols = None, u_allowance = None, u_reset_usage = False\<rparr>"

subsection \<open>Operations\<close>

definition required_resource_slot :: "SessionRecord \<Rightarrow> ServiceError + nat" where
  "required_resource_slot session =
     ok_or (s_resource_slot session) (InvalidState ''an active session has no resource slot'')"

definition session_allocation :: "SessionRecord \<Rightarrow> ServiceError + SessionAllocation" where
  "session_allocation session = (case required_resource_slot session of Err e \<Rightarrow> Err e
     | Ok slot \<Rightarrow> Ok \<lparr>alloc_id = s_id session, alloc_slot = slot\<rparr>)"

text \<open>
  The changes to the grant itself, in the order the code makes them, and
  whether they end every session of the grant.
\<close>

definition change_grant :: "UpdateAccessGrantRequest \<Rightarrow> nat \<Rightarrow> AccessGrantRecord
    \<Rightarrow> AccessGrantRecord \<times> bool" where
  "change_grant changes now grant = (
     let end_all = False;
         grant = (case u_label changes of None \<Rightarrow> grant | Some label \<Rightarrow> grant\<lparr>g_label := label\<rparr>);
         (grant, end_all) = (case u_paused changes of None \<Rightarrow> (grant, end_all)
           | Some paused \<Rightarrow> (grant\<lparr>g_paused := paused\<rparr>, end_all \<or> (paused \<and> \<not> g_paused grant)));
         (grant, end_all) = (case u_protocols changes of None \<Rightarrow> (grant, end_all)
           | Some protocols \<Rightarrow> (grant\<lparr>g_protocols := protocols\<rparr>, end_all \<or> protocols \<noteq> g_protocols grant));
         grant = (case u_max_connections changes of None \<Rightarrow> grant
           | Some n \<Rightarrow> grant\<lparr>g_max_connections := n\<rparr>);
         grant = (case u_expires_at changes of None \<Rightarrow> grant
           | Some expires_at \<Rightarrow> grant\<lparr>g_expires_at := Some expires_at\<rparr>);
         grant = (case u_allowance changes of None \<Rightarrow> grant
           | Some new \<Rightarrow>
             (let grant = (if map_option period new \<noteq> map_option period (g_allowance grant)
                           then grant\<lparr>g_usage := None, g_allowance_since := map_option (\<lambda>_. now) new\<rparr>
                           else grant)
              in grant\<lparr>g_allowance := new\<rparr>));
         grant = (if u_reset_usage changes then grant\<lparr>g_usage := None\<rparr> else grant)
     in (grant, end_all \<or> used_up_until grant now \<noteq> None))"

definition cut_session :: "nat option \<Rightarrow> SessionRecord \<Rightarrow> SessionRecord" where
  "cut_session expires_at session = (case expires_at of None \<Rightarrow> session
     | Some e \<Rightarrow> session\<lparr>s_expires_at := min (s_expires_at session) e\<rparr>)"

text \<open>The loop over the grant's sessions, oldest first: the IDs it puts in \<open>ending\<close>.\<close>

fun ending_ids :: "bool \<Rightarrow> nat \<Rightarrow> nat \<Rightarrow> nat \<Rightarrow> SessionRecord list \<Rightarrow> rstr set" where
  "ending_ids end_all max_connections now active [] = {}"
| "ending_ids end_all max_connections now active (session # rest) =
     (let live = s_expires_at session > now
      in if end_all \<or> (live \<and> active \<ge> max_connections)
           then insert (s_id session) (ending_ids end_all max_connections now active rest)
         else ending_ids end_all max_connections now (if live then active + 1 else active) rest)"

definition apply_changes :: "PersistedState \<Rightarrow> rstr \<Rightarrow> UpdateAccessGrantRequest \<Rightarrow> nat
    \<Rightarrow> ServiceError + (PersistedState \<times> SessionAllocation list)" where
  "apply_changes st i changes now = (case find (\<lambda>grant. g_id grant = i) (grants st) of
     None \<Rightarrow> Err NotFound
   | Some old \<Rightarrow>
     (let (grant, end_all) = change_grant changes now old;
          gs = update_first (\<lambda>grant. g_id grant = i) (\<lambda>_. grant) (grants st);
          ss = map (\<lambda>session. if s_grant_id session = i then cut_session (g_expires_at grant) session
                              else session) (sessions st);
          ordered = sort_key (\<lambda>session. (s_issued_at session, s_id session))
                      (filter (\<lambda>session. s_grant_id session = i) ss);
          ending = ending_ids end_all (g_max_connections grant) now 0 ordered
      in (case try_map session_allocation (filter (\<lambda>session. s_id session \<in> ending) ss) of
            Err e \<Rightarrow> Err e
          | Ok ended \<Rightarrow> Ok (st\<lparr>grants := gs, sessions := filter (\<lambda>session. s_id session \<notin> ending) ss\<rparr>,
                            ended))))"

subsection \<open>Lemmas\<close>

lemma session_allocation_Ok [result_simps]:
  "session_allocation s = Ok a \<longleftrightarrow>
     (\<exists>slot. s_resource_slot s = Some slot \<and> a = \<lparr>alloc_id = s_id s, alloc_slot = slot\<rparr>)"
  by (auto simp: session_allocation_def required_resource_slot_def)

lemma allocations_ids:
  "try_map session_allocation ss = Ok as \<Longrightarrow> map alloc_id as = map s_id ss"
proof (induction ss arbitrary: as)
  case (Cons s ss)
  then show ?case by (cases as) (auto simp: session_allocation_Ok)
qed auto

lemma allocations_slots:
  "try_map session_allocation ss = Ok as \<Longrightarrow> map (\<lambda>a. Some (alloc_slot a)) as = map s_resource_slot ss"
proof (induction ss arbitrary: as)
  case (Cons s ss)
  then show ?case by (cases as) (auto simp: session_allocation_Ok)
qed auto

lemma allocations_total:
  "\<forall>s \<in> set ss. s_resource_slot s \<noteq> None \<Longrightarrow> \<exists>as. try_map session_allocation ss = Ok as"
  by (rule try_map_total) (auto simp: session_allocation_Ok)

lemma ending_all: "ending_ids True n now k ss = s_id ` set ss"
  by (induction ss arbitrary: k) auto

lemma ending_beyond:
  "ending_ids False n now k ss = s_id ` set (drop (n - k) (filter (\<lambda>s. now < s_expires_at s) ss))"
proof (induction ss arbitrary: k)
  case (Cons s ss)
  show ?case
  proof (cases "now < s_expires_at s \<and> n \<le> k")
    case True
    then show ?thesis by (simp add: Cons)
  next
    case False
    then show ?thesis
      by (cases "now < s_expires_at s") (auto simp: Cons Suc_diff_Suc [symmetric] not_le)
  qed
qed simp

lemma cut_session_fields [simp]:
  "s_id (cut_session e s) = s_id s" "s_grant_id (cut_session e s) = s_grant_id s"
  "s_secret_hash (cut_session e s) = s_secret_hash s"
  "s_control_secret_hash (cut_session e s) = s_control_secret_hash s"
  "s_data_plane_secret_hash (cut_session e s) = s_data_plane_secret_hash s"
  "s_resource_slot (cut_session e s) = s_resource_slot s"
  "s_client_name (cut_session e s) = s_client_name s" "s_issued_at (cut_session e s) = s_issued_at s"
  by (simp_all add: cut_session_def split: option.splits)

lemma cut_session_expires:
  "s_expires_at (cut_session e s) = (case e of None \<Rightarrow> s_expires_at s | Some x \<Rightarrow> min (s_expires_at s) x)"
  by (simp add: cut_session_def split: option.splits)

lemma change_grant_id [simp]: "g_id (fst (change_grant c now g)) = g_id g"
  by (simp add: change_grant_def Let_def split: option.splits prod.splits)

lemma change_grant_created [simp]:
  "g_created_at (fst (change_grant c now g)) = g_created_at g"
  "g_secret_hash (fst (change_grant c now g)) = g_secret_hash g"
  by (simp_all add: change_grant_def Let_def split: option.splits prod.splits)

definition own :: "rstr \<Rightarrow> SessionRecord list \<Rightarrow> SessionRecord list" where
  "own i ss = filter (\<lambda>s. s_grant_id s = i) ss"

definition live :: "nat \<Rightarrow> SessionRecord list \<Rightarrow> SessionRecord list" where
  "live now ss = filter (\<lambda>s. now < s_expires_at s) ss"

definition age_key :: "SessionRecord \<Rightarrow> nat \<times> rstr" where
  "age_key s = (s_issued_at s, s_id s)"

lemma own_cut:
  "own i (map (\<lambda>s. if s_grant_id s = i then cut_session e s else s) ss) = map (cut_session e) (own i ss)"
  by (induction ss) (auto simp: own_def)

lemma map_cut_fields:
  "map s_id (map (\<lambda>s. if s_grant_id s = i then cut_session e s else s) ss) = map s_id ss"
  "slots_of (map (\<lambda>s. if s_grant_id s = i then cut_session e s else s) ss) = slots_of ss"
  by (induction ss) (auto split: option.splits)

text \<open>
  The sessions the loop ends, for a grant whose sessions have distinct IDs:
  all of them, or the newest live ones beyond the device limit.
\<close>

definition ended_sessions :: "bool \<Rightarrow> nat \<Rightarrow> nat \<Rightarrow> SessionRecord list \<Rightarrow> SessionRecord list" where
  "ended_sessions end_all n now ss =
     (if end_all then ss else drop n (live now (sort_key age_key ss)))"

lemma ending_ids_eq:
  "ending_ids end_all n now 0 (sort_key age_key ss) = s_id ` set (ended_sessions end_all n now ss)"
  by (cases end_all) (simp_all add: ending_all ending_beyond ended_sessions_def live_def)

lemma ended_subset: "set (ended_sessions end_all n now ss) \<subseteq> set ss"
  by (auto simp: ended_sessions_def live_def dest: in_set_dropD)

lemma sorted_take_drop:
  assumes "sorted (map f xs)" "x \<in> set (take n xs)" "y \<in> set (drop n xs)"
  shows "f x \<le> f y"
proof -
  have "sorted (map f (take n xs) @ map f (drop n xs))"
    using assms(1) by (simp flip: map_append)
  then show ?thesis using assms(2,3) by (auto simp: sorted_append)
qed

lemma live_kept:
  assumes "distinct (map s_id ss)"
  shows "set (live now (filter (\<lambda>s. s_id s \<notin> s_id ` set (ended_sessions False n now ss)) ss))
     = set (take n (live now (sort_key age_key ss)))"
proof -
  let ?L = "live now (sort_key age_key ss)"
  have L: "set ?L = set (live now ss)" "distinct (map s_id ?L)"
    using assms by (auto simp: live_def distinct_map inj_on_def)
  have drop: "set (drop n ?L) \<subseteq> set ss"
    using set_drop_subset [of n ?L] unfolding L(1) by (auto simp: live_def)
  have gone: "s_id x \<in> s_id ` set (drop n ?L) \<longleftrightarrow> x \<in> set (drop n ?L)" if "x \<in> set ss" for x
    using distinct_map_inj [OF assms that] drop by blast
  have "distinct (take n ?L @ drop n ?L)" using L(2) by (simp add: distinct_map)
  then have parts: "set (take n ?L) \<inter> set (drop n ?L) = {}" by (simp only: distinct_append)
  have union: "set (take n ?L) \<union> set (drop n ?L) = set ?L"
    by (simp only: set_append [symmetric] append_take_drop_id)
  have "set (live now (filter (\<lambda>s. s_id s \<notin> s_id ` set (ended_sessions False n now ss)) ss))
      = set ?L - set (drop n ?L)"
    unfolding ended_sessions_def L(1) using gone by (auto simp: live_def)
  then show ?thesis using parts union by blast
qed

lemma live_kept_count:
  assumes "distinct (map s_id ss)"
  shows "length (live now (filter (\<lambda>s. s_id s \<notin> s_id ` set (ended_sessions False n now ss)) ss))
     = min n (length (live now ss))"
proof -
  let ?K = "live now (filter (\<lambda>s. s_id s \<notin> s_id ` set (ended_sessions False n now ss)) ss)"
  let ?L = "live now (sort_key age_key ss)"
  have "distinct ?K" using assms by (auto simp: live_def distinct_map)
  then have "length ?K = card (set (take n ?L))"
    using live_kept [OF assms] by (metis distinct_card)
  also have "\<dots> = min n (length ?L)"
    using assms by (subst distinct_card) (auto simp: live_def distinct_map)
  also have "length ?L = length (live now ss)"
    by (simp add: live_def filter_sort)
  finally show ?thesis .
qed

lemma kept_before_ended:
  assumes "distinct (map s_id ss)"
    and "k \<in> set (live now (filter (\<lambda>s. s_id s \<notin> s_id ` set (ended_sessions False n now ss)) ss))"
    and "e \<in> set (ended_sessions False n now ss)"
  shows "age_key k < age_key e"
proof -
  let ?L = "live now (sort_key age_key ss)"
  have "sorted (map age_key ?L)" by (simp add: live_def sorted_filter)
  moreover have "k \<in> set (take n ?L)" using assms(2) live_kept [OF assms(1)] by simp
  moreover have "e \<in> set (drop n ?L)" using assms(3) by (simp add: ended_sessions_def)
  ultimately have "age_key k \<le> age_key e" by (rule sorted_take_drop)
  moreover have "s_id k \<noteq> s_id e" using assms(2,3) by (auto simp: live_def)
  ultimately show ?thesis by (auto simp: age_key_def less_le)
qed

lemma apply_changes_Ok:
  assumes "valid_state cr st"
  shows "apply_changes st i c now = Ok (st', ended) \<longleftrightarrow>
    (\<exists>g g' end_all. g \<in> set (grants st) \<and> g_id g = i \<and> change_grant c now g = (g', end_all)
      \<and> (let ss = map (\<lambda>s. if s_grant_id s = i then cut_session (g_expires_at g') s else s) (sessions st);
             gone = s_id ` set (ended_sessions end_all (g_max_connections g') now (own i ss))
         in try_map session_allocation (filter (\<lambda>s. s_id s \<in> gone) ss) = Ok ended
            \<and> st' = st\<lparr>grants := map (\<lambda>x. if g_id x = i then g' else x) (grants st),
                       sessions := filter (\<lambda>s. s_id s \<notin> gone) ss\<rparr>))"
proof -
  have d: "distinct (map g_id (grants st))" using assms by (simp add: valid_state_def)
  have key: "(\<lambda>s. (s_issued_at s, s_id s)) = age_key" by (simp add: age_key_def fun_eq_iff)
  show ?thesis
    unfolding apply_changes_def case_option_Err_Ok valid_state_grant [OF assms] update_first_unique [OF d]
      key own_def [symmetric] Let_def
    by (auto simp: ending_ids_eq case_prod_beta prod_eq_iff)
qed

lemma apply_changes_unique:
  assumes "valid_state cr st" "g \<in> set (grants st)" "g_id g = i" "change_grant c now g = (g', end_all)"
  shows "apply_changes st i c now = Ok (st', ended) \<longleftrightarrow>
    (let ss = map (\<lambda>s. if s_grant_id s = i then cut_session (g_expires_at g') s else s) (sessions st);
         gone = s_id ` set (ended_sessions end_all (g_max_connections g') now (own i ss))
     in try_map session_allocation (filter (\<lambda>s. s_id s \<in> gone) ss) = Ok ended
        \<and> st' = st\<lparr>grants := map (\<lambda>x. if g_id x = i then g' else x) (grants st),
                   sessions := filter (\<lambda>s. s_id s \<notin> gone) ss\<rparr>)"
proof -
  have "x = g" if "x \<in> set (grants st)" "g_id x = i" for x
    using assms(1-3) that by (auto simp: valid_state_def intro: distinct_map_inj)
  moreover define P where "P = (\<lambda>g' end_all.
    let ss = map (\<lambda>s. if s_grant_id s = i then cut_session (g_expires_at g') s else s) (sessions st);
        gone = s_id ` set (ended_sessions end_all (g_max_connections g') now (own i ss))
    in try_map session_allocation (filter (\<lambda>s. s_id s \<in> gone) ss) = Ok ended
       \<and> st' = st\<lparr>grants := map (\<lambda>x. if g_id x = i then g' else x) (grants st),
                  sessions := filter (\<lambda>s. s_id s \<notin> gone) ss\<rparr>)"
  ultimately have "(\<exists>x y z. x \<in> set (grants st) \<and> g_id x = i \<and> change_grant c now x = (y, z) \<and> P y z) \<longleftrightarrow> P g' end_all"
    using assms(2-4) by (metis Pair_inject)
  then show ?thesis
    unfolding apply_changes_Ok [OF assms(1)] P_def .
qed

text \<open>The sessions of the grant with the new end, and the IDs of those that end.\<close>

definition cut_own :: "rstr \<Rightarrow> nat option \<Rightarrow> SessionRecord \<Rightarrow> SessionRecord" where
  "cut_own i e s = (if s_grant_id s = i then cut_session e s else s)"

definition gone_ids :: "AccessGrantRecord \<Rightarrow> bool \<Rightarrow> nat \<Rightarrow> rstr \<Rightarrow> SessionRecord list \<Rightarrow> rstr set" where
  "gone_ids g' end_all now i ss = s_id ` set (ended_sessions end_all (g_max_connections g') now
     (own i (map (cut_own i (g_expires_at g')) ss)))"

lemma cut_own_fields [simp]:
  "s_id (cut_own i e s) = s_id s" "s_grant_id (cut_own i e s) = s_grant_id s"
  "s_resource_slot (cut_own i e s) = s_resource_slot s" "s_issued_at (cut_own i e s) = s_issued_at s"
  "s_client_name (cut_own i e s) = s_client_name s"
  "s_secret_hash (cut_own i e s) = s_secret_hash s"
  "s_control_secret_hash (cut_own i e s) = s_control_secret_hash s"
  by (simp_all add: cut_own_def)

lemma cut_own_hash [simp]: "validate_session_hash cr (cut_own i e s) = validate_session_hash cr s"
  by (simp add: validate_session_hash_def)

lemma others_cut:
  "filter (\<lambda>s. s_grant_id s \<noteq> i) (map (cut_own i e) ss) = filter (\<lambda>s. s_grant_id s \<noteq> i) ss"
  by (induction ss) (auto simp: cut_own_def)

lemma map_cut_own_ids: "map s_id (filter (\<lambda>s. P (s_id s)) (map (cut_own i e) ss)) = map s_id (filter (\<lambda>s. P (s_id s)) ss)"
  by (induction ss) auto

lemma gone_ids_own:
  assumes "x \<in> gone_ids g' end_all now i ss"
  shows "\<exists>s \<in> set ss. s_id s = x \<and> s_grant_id s = i"
proof -
  obtain s where s: "s \<in> set (own i (map (cut_own i (g_expires_at g')) ss))" "x = s_id s"
    using assms unfolding gone_ids_def using ended_subset by blast
  then obtain t where "t \<in> set ss" "s = cut_own i (g_expires_at g') t" "s_grant_id s = i"
    unfolding own_def set_filter set_map by blast
  then show ?thesis using s(2) by (intro bexI [of _ t]) simp_all
qed

lemma apply_changes_result:
  assumes "valid_state cr st" "apply_changes st i c now = Ok (st', ended)"
    and "g \<in> set (grants st)" "g_id g = i" "change_grant c now g = (g', end_all)"
  shows "grants st' = map (\<lambda>x. if g_id x = i then g' else x) (grants st)"
    and "sessions st' = filter (\<lambda>s. s_id s \<notin> gone_ids g' end_all now i (sessions st))
           (map (cut_own i (g_expires_at g')) (sessions st))"
    and "map alloc_id ended = map s_id (filter (\<lambda>s. s_id s \<in> gone_ids g' end_all now i (sessions st)) (sessions st))"
    and "schema_version st' = schema_version st"
proof -
  have "try_map session_allocation (filter (\<lambda>s. s_id s \<in> gone_ids g' end_all now i (sessions st))
          (map (cut_own i (g_expires_at g')) (sessions st))) = Ok ended
      \<and> st' = st\<lparr>grants := map (\<lambda>x. if g_id x = i then g' else x) (grants st),
          sessions := filter (\<lambda>s. s_id s \<notin> gone_ids g' end_all now i (sessions st))
           (map (cut_own i (g_expires_at g')) (sessions st))\<rparr>"
    using assms(2) unfolding apply_changes_unique [OF assms(1,3-5)] gone_ids_def cut_own_def [abs_def] Let_def .
  note * = this
  show "grants st' = map (\<lambda>x. if g_id x = i then g' else x) (grants st)"
    "sessions st' = filter (\<lambda>s. s_id s \<notin> gone_ids g' end_all now i (sessions st))
           (map (cut_own i (g_expires_at g')) (sessions st))"
    "schema_version st' = schema_version st"
    using * by simp_all
  show "map alloc_id ended = map s_id (filter (\<lambda>s. s_id s \<in> gone_ids g' end_all now i (sessions st)) (sessions st))"
    using allocations_ids [OF * [THEN conjunct1]]
      map_cut_own_ids [of "\<lambda>x. x \<in> gone_ids g' end_all now i (sessions st)"] by simp
qed

subsection \<open>Properties\<close>

text \<open>
  An admin's change to a grant touches that grant and its sessions only.
  When the change pauses the grant, changes its protocols or leaves its
  allowance used up, no session of the grant remains. The reported
  allocations are exactly those of the sessions that were removed, in order,
  and no session left under the grant outlives it.
\<close>

theorem change_is_confined:
  assumes "valid_state cr st" "apply_changes st i c now = Ok (st', ended)"
    and "g \<in> set (grants st)" "g_id g = i" "change_grant c now g = (g', end_all)"
  shows "grants st' = map (\<lambda>x. if g_id x = i then g' else x) (grants st)
   \<and> filter (\<lambda>s. s_grant_id s \<noteq> i) (sessions st') = filter (\<lambda>s. s_grant_id s \<noteq> i) (sessions st)
   \<and> (end_all \<longrightarrow> own i (sessions st') = [])
   \<and> map alloc_id ended = map s_id (filter (\<lambda>s. s_id s \<notin> s_id ` set (sessions st')) (sessions st))
   \<and> (\<forall>s \<in> set (own i (sessions st')). \<forall>e. g_expires_at g' = Some e \<longrightarrow> s_expires_at s \<le> e)"
proof -
  note result = apply_changes_result [OF assms]
  define gone where "gone = gone_ids g' end_all now i (sessions st)"
  have gone: "x \<in> gone \<Longrightarrow> \<exists>s \<in> set (sessions st). s_id s = x \<and> s_grant_id s = i" for x
    unfolding gone_def by (rule gone_ids_own)
  have dist: "distinct (map s_id (sessions st))" using assms(1) by (simp add: valid_state_def)
  have keep: "s_id s \<notin> gone" if "s \<in> set (sessions st)" "s_grant_id s \<noteq> i" for s
    using gone [of "s_id s"] distinct_map_inj [OF dist that(1)] that(2) by metis
  have others: "filter (\<lambda>s. s_grant_id s \<noteq> i) (sessions st') = filter (\<lambda>s. s_grant_id s \<noteq> i) (sessions st)"
  proof -
    have "filter (\<lambda>s. s_grant_id s \<noteq> i) (sessions st')
        = filter (\<lambda>s. s_grant_id s \<noteq> i) (map (cut_own i (g_expires_at g')) (sessions st))"
      unfolding result(2) gone_def [symmetric] filter_filter using keep by (intro filter_cong) auto
    then show ?thesis by (simp only: others_cut)
  qed
  have all: "own i (sessions st') = []" if end_all
    using that by (auto simp: result(2) own_def gone_ids_def ended_sessions_def filter_empty_conv cut_own_def)
  have "map s_id (sessions st') = map s_id (filter (\<lambda>s. s_id s \<notin> gone) (sessions st))"
    unfolding result(2) gone_def [symmetric] by (rule map_cut_own_ids)
  then have "set (map s_id (sessions st')) = set (map s_id (filter (\<lambda>s. s_id s \<notin> gone) (sessions st)))"
    by (simp only:)
  then have report: "map alloc_id ended = map s_id (filter (\<lambda>s. s_id s \<notin> s_id ` set (sessions st')) (sessions st))"
    unfolding result(3) gone_def [symmetric]
    by (intro arg_cong [where f = "map s_id"] filter_cong) auto
  have "s_expires_at s \<le> e" if own: "s \<in> set (own i (sessions st'))" and ends: "g_expires_at g' = Some e" for s e
  proof -
    obtain t where "s = cut_own i (g_expires_at g') t" "s_grant_id s = i"
      using own unfolding result(2) own_def set_filter set_map by blast
    then show ?thesis using ends cut_own_fields(2) [of i "g_expires_at g'" t]
      by (simp add: cut_own_def cut_session_expires)
  qed
  then show ?thesis using others all report result(1) by (intro conjI) blast+
qed

lemmas sample_eval = sample_state2_def sample_session2_def sample_defs no_changes_def apply_changes_def
  change_grant_def Let_def lit_def used_up_until_def allowance_status_def used_def is_used_up_def
  cut_session_def session_allocation_def required_resource_slot_def ok_or_def

theorem change_is_confined_witness:
  "apply_changes sample_state2 (lit ''Grant00001'') (no_changes\<lparr>u_paused := Some True\<rparr>) 500
     = Ok (sample_state2\<lparr>grants := [sample_grant\<lparr>g_paused := True\<rparr>], sessions := []\<rparr>,
           [\<lparr>alloc_id = lit ''Session00002'', alloc_slot = 1\<rparr>, \<lparr>alloc_id = lit ''Session00001'', alloc_slot = 0\<rparr>])
   \<and> own (lit ''Grant00001'') (sessions (sample_state2\<lparr>grants := [sample_grant\<lparr>g_paused := True\<rparr>], sessions := []\<rparr>)) = []"
proof -
  have run: "apply_changes sample_state2 (lit ''Grant00001'') (no_changes\<lparr>u_paused := Some True\<rparr>) 500
     = Ok (sample_state2\<lparr>grants := [sample_grant\<lparr>g_paused := True\<rparr>], sessions := []\<rparr>,
           [\<lparr>alloc_id = lit ''Session00002'', alloc_slot = 1\<rparr>, \<lparr>alloc_id = lit ''Session00001'', alloc_slot = 0\<rparr>])"
    by (simp add: sample_eval)
  have "change_grant (no_changes\<lparr>u_paused := Some True\<rparr>) 500 sample_grant = (sample_grant\<lparr>g_paused := True\<rparr>, True)"
    by (simp add: sample_eval)
  with change_is_confined [OF sample_valid(2) run, of sample_grant] run show ?thesis
    by (simp add: sample_state2_def sample_state_def sample_grant_def)
qed

text \<open>
  C10: a lower device limit keeps the devices that connected first. When a
  change does not end every session of the grant, as many live sessions
  remain as the limit allows, and each of them was issued before each session
  the change ended (ties broken by ID).
\<close>

theorem change_keeps_oldest:
  assumes "valid_state cr st" "apply_changes st i c now = Ok (st', ended)"
    and "g \<in> set (grants st)" "g_id g = i" "change_grant c now g = (g', False)"
  shows "length (live now (own i (sessions st')))
       = min (g_max_connections g') (length (live now (own i (map (cut_own i (g_expires_at g')) (sessions st)))))
   \<and> (\<forall>k \<in> set (live now (own i (sessions st'))). \<forall>e \<in> set (sessions st).
        s_id e \<in> set (map alloc_id ended) \<longrightarrow> age_key k < age_key e)"
proof -
  note result = apply_changes_result [OF assms]
  define ss where "ss = own i (map (cut_own i (g_expires_at g')) (sessions st))"
  define gone where "gone = s_id ` set (ended_sessions False (g_max_connections g') now ss)"
  have gone: "gone_ids g' False now i (sessions st) = gone" by (simp add: gone_def gone_ids_def ss_def)
  have dist: "distinct (map s_id ss)"
    using assms(1) by (simp add: valid_state_def ss_def own_def o_def filter_map distinct_map_filter)
  have kept: "own i (sessions st') = filter (\<lambda>s. s_id s \<notin> gone) ss"
    unfolding result(2) gone ss_def own_def filter_filter by (rule filter_cong) auto
  have "age_key k < age_key e"
    if k: "k \<in> set (live now (own i (sessions st')))" and e: "e \<in> set (sessions st)" "s_id e \<in> set (map alloc_id ended)"
    for k e
  proof -
    obtain x where x: "x \<in> set (ended_sessions False (g_max_connections g') now ss)" "s_id x = s_id e"
      using e(2) unfolding result(3) gone by (auto simp: gone_def)
    have 1: "cut_own i (g_expires_at g') e \<in> set (map (cut_own i (g_expires_at g')) (sessions st))"
      using e(1) by simp
    have 2: "x \<in> set (map (cut_own i (g_expires_at g')) (sessions st))"
      using x(1) ended_subset unfolding ss_def own_def by fastforce
    have 3: "distinct (map s_id (map (cut_own i (g_expires_at g')) (sessions st)))"
      using assms(1) by (simp add: valid_state_def o_def)
    have "x = cut_own i (g_expires_at g') e"
      by (rule distinct_map_inj [OF 3 2 1]) (simp add: x(2))
    then have "age_key x = age_key e" by (simp add: age_key_def)
    with kept_before_ended [OF dist _ x(1)] k show ?thesis
      unfolding kept gone_def by metis
  qed
  then show ?thesis
    using live_kept_count [OF dist, of now "g_max_connections g'"] unfolding kept gone_def ss_def by blast
qed

theorem change_keeps_oldest_witness:
  "length (live 500 (own (lit ''Grant00001'') (sessions
      (sample_state2\<lparr>grants := [sample_grant\<lparr>g_max_connections := 1\<rparr>], sessions := [sample_session]\<rparr>)))) = 1
   \<and> age_key sample_session < age_key sample_session2"
proof -
  have run: "apply_changes sample_state2 (lit ''Grant00001'') (no_changes\<lparr>u_max_connections := Some 1\<rparr>) 500
     = Ok (sample_state2\<lparr>grants := [sample_grant\<lparr>g_max_connections := 1\<rparr>], sessions := [sample_session]\<rparr>,
           [\<lparr>alloc_id = lit ''Session00002'', alloc_slot = 1\<rparr>])"
    by (simp add: sample_eval)
  have "change_grant (no_changes\<lparr>u_max_connections := Some 1\<rparr>) 500 sample_grant = (sample_grant\<lparr>g_max_connections := 1\<rparr>, False)"
    by (simp add: sample_eval MIN_ALLOWANCE_BYTES_def)
  with change_keeps_oldest [OF sample_valid(2) run, of sample_grant "sample_grant\<lparr>g_max_connections := 1\<rparr>"]
  show ?thesis
    by (simp add: sample_state2_def sample_session2_def sample_defs lit_def own_def live_def cut_own_def
        cut_session_def age_key_def)
qed

end
