(* ===== verification/Activity.thy ===== *)
theory Activity
  imports Model
begin

text \<open>
  The in-memory log of what devices did with each grant
  (\<^verbatim>\<open>ket-server/src/activity.rs\<close>, with the entry types of \<^verbatim>\<open>ket-core/src/grant.rs\<close>).
  Each grant's entries are a queue, oldest first.
\<close>

subsection \<open>Data\<close>

datatype GrantActivityEvent = Enrolled | CheckedIn | Left | LeaseEnded | EndedByChange
  | EndedAllowanceUsed | RefusedWrongCode | RefusedExpired | RefusedPaused | RefusedAllowanceUsed
  | RefusedDeviceLimit | RefusedServerFull | RefusedUpdateRequired | RefusedNoProtocol
  | RefusedServerUnavailable | SignedIn | SignInRefused | SignInRefusedProtocol

record GrantActivity =
  e_event :: GrantActivityEvent
  e_session_id :: "rstr option"
  e_client_name :: rstr
  e_protocol :: "TransportProtocol option"
  e_count :: nat
  e_first_at :: nat
  e_last_at :: nat

record Activity =
  a_event :: GrantActivityEvent
  a_session_id :: "rstr option"
  a_client_name :: rstr
  a_protocol :: "TransportProtocol option"

type_synonym ActivityLog = "rstr \<rightharpoonup> GrantActivity list"

definition MAX_ENTRIES_PER_GRANT :: nat where "MAX_ENTRIES_PER_GRANT = 24"

subsection \<open>Operations\<close>

definition activity_session :: "GrantActivityEvent \<Rightarrow> rstr \<Rightarrow> rstr \<Rightarrow> Activity" where
  "activity_session event session_id client_name =
     \<lparr>a_event = event, a_session_id = Some session_id, a_client_name = client_name, a_protocol = None\<rparr>"

definition activity_enrollment :: "GrantActivityEvent \<Rightarrow> rstr \<Rightarrow> Activity" where
  "activity_enrollment event client_name =
     \<lparr>a_event = event, a_session_id = None, a_client_name = client_name, a_protocol = None\<rparr>"

definition activity_over :: "Activity \<Rightarrow> TransportProtocol \<Rightarrow> Activity" where
  "activity_over activity protocol = activity\<lparr>a_protocol := Some protocol\<rparr>"

definition same_as :: "Activity \<Rightarrow> GrantActivity \<Rightarrow> bool" where
  "same_as activity entry \<longleftrightarrow> a_event activity = e_event entry
     \<and> a_session_id activity = e_session_id entry
     \<and> a_client_name activity = e_client_name entry
     \<and> a_protocol activity = e_protocol entry"

definition record_entries :: "GrantActivity list \<Rightarrow> Activity \<Rightarrow> nat \<Rightarrow> GrantActivity list" where
  "record_entries entries activity now = (case List.extract (same_as activity) entries of
     Some (before, entry, after) \<Rightarrow>
       before @ after @ [entry\<lparr>e_count := sat_add32 (e_count entry) 1, e_last_at := now\<rparr>]
   | None \<Rightarrow>
       (if length entries \<ge> MAX_ENTRIES_PER_GRANT then tl entries else entries)
       @ [\<lparr>e_event = a_event activity, e_session_id = a_session_id activity,
           e_client_name = a_client_name activity, e_protocol = a_protocol activity,
           e_count = 1, e_first_at = now, e_last_at = now\<rparr>])"

definition log_record :: "ActivityLog \<Rightarrow> rstr \<Rightarrow> Activity \<Rightarrow> nat \<Rightarrow> ActivityLog" where
  "log_record log grant_id activity now =
     log(grant_id \<mapsto> record_entries (case log grant_id of None \<Rightarrow> [] | Some es \<Rightarrow> es) activity now)"

definition log_recent :: "ActivityLog \<Rightarrow> rstr \<Rightarrow> GrantActivity list" where
  "log_recent log grant_id = (case log grant_id of None \<Rightarrow> [] | Some es \<Rightarrow> rev es)"

definition log_retain :: "ActivityLog \<Rightarrow> (rstr \<Rightarrow> bool) \<Rightarrow> ActivityLog" where
  "log_retain log keep = (\<lambda>grant_id. if keep grant_id then log grant_id else None)"

subsection \<open>Lemmas\<close>

definition entry_key :: "GrantActivity \<Rightarrow> GrantActivityEvent \<times> rstr option \<times> rstr \<times> TransportProtocol option" where
  "entry_key e = (e_event e, e_session_id e, e_client_name e, e_protocol e)"

definition activity_key :: "Activity \<Rightarrow> GrantActivityEvent \<times> rstr option \<times> rstr \<times> TransportProtocol option" where
  "activity_key a = (a_event a, a_session_id a, a_client_name a, a_protocol a)"

lemma same_as_key: "same_as a e \<longleftrightarrow> entry_key e = activity_key a"
  by (auto simp: same_as_def entry_key_def activity_key_def)

definition entries_ok :: "GrantActivity list \<Rightarrow> bool" where
  "entries_ok es \<longleftrightarrow> length es \<le> MAX_ENTRIES_PER_GRANT \<and> distinct (map entry_key es)
     \<and> (\<forall>e \<in> set es. 1 \<le> e_count e)"

definition log_ok :: "ActivityLog \<Rightarrow> bool" where
  "log_ok log \<longleftrightarrow> (\<forall>i es. log i = Some es \<longrightarrow> entries_ok es)"

lemma entries_ok_record:
  assumes "entries_ok es"
  shows "entries_ok (record_entries es a now)"
proof (cases "List.extract (same_as a) es")
  case None
  then have fresh: "activity_key a \<notin> entry_key ` set es"
    by (auto simp: extract_None_iff same_as_key)
  have "set (tl es) \<subseteq> set es" by (cases es) auto
  then show ?thesis
    using assms fresh None
    by (auto simp: record_entries_def entries_ok_def entry_key_def activity_key_def
        MAX_ENTRIES_PER_GRANT_def map_tl distinct_tl)
next
  case (Some x)
  obtain b e c where x: "x = (b, e, c)" by (cases x)
  have es: "es = b @ e # c" "same_as a e"
    using Some by (auto simp: x extract_Some_iff)
  have "entry_key (e\<lparr>e_count := n, e_last_at := now\<rparr>) = entry_key e" for n
    by (simp add: entry_key_def)
  then show ?thesis
    using assms Some by (auto simp: record_entries_def entries_ok_def x es(1) sat_add32_def u32_max_def)
qed

lemma log_ok_record: "log_ok log \<Longrightarrow> log_ok (log_record log i a now)"
proof -
  assume ok: "log_ok log"
  have "entries_ok (case log i of None \<Rightarrow> [] | Some es \<Rightarrow> es)"
    using ok by (auto simp: log_ok_def entries_ok_def split: option.splits)
  then show ?thesis using ok by (auto simp: log_ok_def log_record_def entries_ok_record)
qed

lemma log_ok_retain: "log_ok log \<Longrightarrow> log_ok (log_retain log keep)"
  by (auto simp: log_ok_def log_retain_def split: if_splits)

lemma log_recent_entries: "log_ok log \<Longrightarrow> entries_ok (rev (log_recent log i))"
  by (auto simp: log_ok_def log_recent_def entries_ok_def split: option.splits)

text \<open>The two operations that change a log.\<close>

datatype log_op = Record rstr Activity nat | Retain "rstr \<Rightarrow> bool"

fun apply_log_op :: "log_op \<Rightarrow> ActivityLog \<Rightarrow> ActivityLog" where
  "apply_log_op (Record i a now) log = log_record log i a now"
| "apply_log_op (Retain keep) log = log_retain log keep"

interpretation activity_store: bounded_store "Map.empty :: ActivityLog" apply_log_op log_ok
  "\<lambda>i log. length (log_recent log i)" MAX_ENTRIES_PER_GRANT
proof (unfold_locales, goal_cases)
  case (2 s x)
  then show ?case by (cases x) (simp_all add: log_ok_record log_ok_retain)
next
  case (3 s k)
  then show ?case using log_recent_entries [of s k] by (simp add: entries_ok_def)
qed (simp add: log_ok_def)

subsection \<open>Properties\<close>

text \<open>
  C14: the activity log keeps one line per distinct happening and at most 24
  lines per grant, after any series of records and clean-ups, and every line
  counts at least one happening.
\<close>

theorem activity_log_bounded:
  "length (log_recent (foldl (\<lambda>log x. apply_log_op x log) Map.empty ops) i) \<le> 24
   \<and> distinct (map entry_key (log_recent (foldl (\<lambda>log x. apply_log_op x log) Map.empty ops) i))
   \<and> list_all (\<lambda>e. 1 \<le> e_count e) (log_recent (foldl (\<lambda>log x. apply_log_op x log) Map.empty ops) i)"
  using activity_store.run_bounded [where k = i and xs = ops]
    log_recent_entries [OF activity_store.run_inv_empty [of ops], of i]
  by (simp add: MAX_ENTRIES_PER_GRANT_def entries_ok_def list_all_iff rev_map [symmetric])

end
