(* ===== verification/Access_Service.thy ===== *)
theory Access_Service
  imports Grant_Admin Activity
begin

text \<open>
  The access service (\<^verbatim>\<open>ket-server/src/service.rs\<close>). Its state is a record; every
  operation takes the service and returns it with a result. The repository is
  a pair of functions on a disk of any type, as the source keeps a trait
  object; \<open>clk k\<close> is the k-th reading of the clock an operation makes, and the
  random tokens and the salt it draws are arguments.

  Operations that hold the state lock more than once are split where the code
  gives the lock up: the part under the last lock is an operation of its own
  (its name ends in \<open>commit\<close>), given what the earlier part read.
\<close>

subsection \<open>Data\<close>

record 'd AccessService =
  repository :: 'd
  svc_state :: PersistedState
  crypto_available :: nat
  crypto_overloads :: nat
  session_ttl :: nat
  max_sessions :: nat
  activity :: ActivityLog
  usage_stored_at :: nat

type_synonym 'd storer = "'d \<Rightarrow> PersistedState \<Rightarrow> 'd \<times> (RepositoryError + unit)"
type_synonym clock = "nat \<Rightarrow> nat"
type_synonym ('d, 'a) outcome = "'d AccessService \<times> (ServiceError + 'a)"

definition MAX_PENDING_CRYPTO_OPERATIONS :: nat where "MAX_PENDING_CRYPTO_OPERATIONS = 32"
definition EXPIRED_GRANT_RETENTION_SECONDS :: nat where
  "EXPIRED_GRANT_RETENTION_SECONDS = 7 * 24 * 60 * 60"
definition USAGE_STORE_INTERVAL_SECONDS :: nat where "USAGE_STORE_INTERVAL_SECONDS = 60"
definition MAX_ACCESS_GRANT_VALIDITY_MINUTES :: nat where
  "MAX_ACCESS_GRANT_VALIDITY_MINUTES = 365 * 24 * 60"

record CreateAccessGrantRequest =
  q_label :: rstr
  q_max_connections :: nat
  q_valid_for_minutes :: nat
  q_protocols :: ProtocolAccess
  q_allowance :: "DataAllowance option"

record CreateAccessGrantBatchRequest =
  b_count :: nat
  b_label_prefix :: rstr
  b_max_connections :: nat
  b_valid_for_minutes :: nat
  b_protocols :: ProtocolAccess
  b_allowance :: "DataAllowance option"

record CreateAccessGrantResponse =
  p_id :: rstr
  p_access_code :: rstr
  p_label :: rstr
  p_max_connections :: nat
  p_valid_for_minutes :: nat
  p_expires_at :: nat
  p_created_at :: nat
  p_protocols :: ProtocolAccess
  p_allowance :: "DataAllowance option"
  p_invite :: "rstr option"

record AccessGrantSummary =
  y_id :: rstr
  y_label :: rstr
  y_max_connections :: nat
  y_active_connections :: nat
  y_expires_at :: "nat option"
  y_created_at :: nat
  y_paused :: bool
  y_protocols :: ProtocolAccess
  y_allowance :: "AllowanceStatus option"

record GrantDevice =
  d_allocation :: SessionAllocation
  d_client_name :: rstr
  d_connected_at :: nat
  d_session_expires_at :: nat

record SessionView =
  v_id :: rstr
  v_grant_id :: rstr
  v_resource_slot :: nat
  v_client_name :: rstr
  v_expires_at :: nat
  v_access_expires_at :: "nat option"
  v_protocols :: ProtocolAccess
  v_allowance :: "AllowanceStatus option"

record CreatedSession =
  c_token :: rstr
  c_data_plane_token :: rstr
  c_id :: rstr
  c_grant_id :: rstr
  c_resource_slot :: nat
  c_expired_allocations :: "SessionAllocation list"
  c_client_name :: rstr
  c_expires_at :: nat
  c_access_expires_at :: "nat option"
  c_protocols :: ProtocolAccess
  c_allowance :: "AllowanceStatus option"

subsection \<open>Checks on input\<close>

definition validate_text :: "rstr \<Rightarrow> string \<Rightarrow> nat \<Rightarrow> ServiceError + rstr" where
  "validate_text value field maximum = (
     let value = trim value
     in if value = [] \<or> str_len value > maximum \<or> list_ex is_control value
        then Err (InvalidInput (lit field @ lit '' must contain between 1 and '' @ decimal maximum
                    @ lit '' printable characters''))
        else Ok value)"

definition validate_protocols :: "ProtocolAccess \<Rightarrow> ServiceError + unit" where
  "validate_protocols protocols = (if protocols_valid protocols then Ok ()
     else Err (InvalidInput (lit ''protocols must name at least one protocol'')))"

definition validate_allowance :: "DataAllowance option \<Rightarrow> ServiceError + unit" where
  "validate_allowance allowance =
     (if (case allowance of None \<Rightarrow> True | Some a \<Rightarrow> allowance_is_valid a) then Ok ()
      else Err (InvalidInput (lit ''allowance bytes must be between '' @ decimal MIN_ALLOWANCE_BYTES
                  @ lit '' and '' @ decimal MAX_ALLOWANCE_BYTES)))"

definition admits :: "SessionRecord \<Rightarrow> AccessGrantRecord \<Rightarrow> nat \<Rightarrow> bool" where
  "admits session grant now \<longleftrightarrow> s_expires_at session > now \<and> \<not> g_paused grant
     \<and> (case g_expires_at grant of None \<Rightarrow> True | Some expiry \<Rightarrow> expiry > now)
     \<and> used_up_until grant now = None"

definition active_for :: "rstr \<Rightarrow> nat \<Rightarrow> PersistedState \<Rightarrow> nat" where
  "active_for i now st = length (filter (\<lambda>session. s_grant_id session = i \<and> s_expires_at session > now)
     (sessions st))"

definition grant_summary :: "PersistedState \<Rightarrow> AccessGrantRecord \<Rightarrow> nat \<Rightarrow> AccessGrantSummary" where
  "grant_summary st grant now = \<lparr>y_id = g_id grant, y_label = g_label grant,
     y_max_connections = g_max_connections grant, y_active_connections = active_for (g_id grant) now st,
     y_expires_at = g_expires_at grant, y_created_at = g_created_at grant, y_paused = g_paused grant,
     y_protocols = g_protocols grant, y_allowance = allowance_status grant now\<rparr>"

subsection \<open>Helpers on the persisted state\<close>

definition next_resource_slot :: "PersistedState \<Rightarrow> nat \<Rightarrow> nat option" where
  "next_resource_slot st limit =
     find (\<lambda>slot. slot \<notin> set (slots_of (sessions st))) [0..<limit]"

definition take_expired_sessions :: "PersistedState \<Rightarrow> nat \<Rightarrow> PersistedState \<times> SessionRecord list" where
  "take_expired_sessions st now =
     (st\<lparr>sessions := filter (\<lambda>session. \<not> s_expires_at session \<le> now) (sessions st)\<rparr>,
      filter (\<lambda>session. s_expires_at session \<le> now) (sessions st))"

definition stale :: "nat \<Rightarrow> AccessGrantRecord \<Rightarrow> bool" where
  "stale now grant = (case g_expires_at grant of None \<Rightarrow> False
     | Some expires_at \<Rightarrow> now - expires_at \<ge> EXPIRED_GRANT_RETENTION_SECONDS)"

definition forget_stale_grants :: "PersistedState \<Rightarrow> nat \<Rightarrow> PersistedState \<times> bool" where
  "forget_stale_grants st now = (
     let forgotten = map g_id (filter (stale now) (grants st));
         gs = filter (\<lambda>grant. \<not> stale now grant) (grants st);
         ss = filter (\<lambda>session. s_grant_id session \<notin> set forgotten) (sessions st)
     in (st\<lparr>grants := gs, sessions := ss\<rparr>, length gs \<noteq> length (grants st)))"

definition enrollment_refusal :: "ServiceError \<Rightarrow> GrantActivityEvent option" where
  "enrollment_refusal error = (case error of
     Unauthorized \<Rightarrow> Some RefusedWrongCode
   | GrantExpired \<Rightarrow> Some RefusedExpired
   | GrantPaused \<Rightarrow> Some RefusedPaused
   | AllowanceUsed _ \<Rightarrow> Some RefusedAllowanceUsed
   | GrantCapacity \<Rightarrow> Some RefusedDeviceLimit
   | NodeCapacity \<Rightarrow> Some RefusedServerFull
   | _ \<Rightarrow> None)"

text \<open>Loading: expired sessions go, kept slots are checked, missing slots are filled.\<close>

fun check_slots :: "nat \<Rightarrow> nat set \<Rightarrow> SessionRecord list \<Rightarrow> ServiceError + nat set" where
  "check_slots limit taken [] = Ok taken"
| "check_slots limit taken (session # rest) = (case s_resource_slot session of
     None \<Rightarrow> check_slots limit taken rest
   | Some slot \<Rightarrow>
       (if slot \<ge> limit then Err (InvalidState ''a session resource slot exceeds node capacity'')
        else if slot \<in> taken then Err (InvalidState ''session resource slots are duplicated'')
        else check_slots limit (insert slot taken) rest))"

fun assign_slots :: "nat \<Rightarrow> nat set \<Rightarrow> bool \<Rightarrow> SessionRecord list
    \<Rightarrow> ServiceError + (SessionRecord list \<times> bool)" where
  "assign_slots limit taken changed [] = Ok ([], changed)"
| "assign_slots limit taken changed (session # rest) =
    (if s_resource_slot session \<noteq> None
       then (case assign_slots limit taken changed rest of Err e \<Rightarrow> Err e
             | Ok (rest', changed') \<Rightarrow> Ok (session # rest', changed'))
     else (case find (\<lambda>slot. slot \<notin> taken) [0..<limit] of
         None \<Rightarrow> Err (InvalidState ''active sessions exceed node resource slots'')
       | Some slot \<Rightarrow>
           (case assign_slots limit (insert slot taken) True rest of Err e \<Rightarrow> Err e
            | Ok (rest', changed') \<Rightarrow> Ok (session\<lparr>s_resource_slot := Some slot\<rparr> # rest', changed'))))"

definition prepare_resource_slots :: "nat \<Rightarrow> PersistedState \<Rightarrow> nat
    \<Rightarrow> ServiceError + (PersistedState \<times> bool)" where
  "prepare_resource_slots now st limit = (
     let kept = filter (\<lambda>session. s_expires_at session > now) (sessions st);
         changed = (length kept \<noteq> length (sessions st))
     in (case check_slots limit {} kept of Err e \<Rightarrow> Err e
         | Ok taken \<Rightarrow> (case assign_slots limit taken changed kept of Err e \<Rightarrow> Err e
             | Ok (ss, changed) \<Rightarrow> Ok (st\<lparr>sessions := ss\<rparr>, changed))))"

definition load_service :: "('d \<Rightarrow> RepositoryError + PersistedState) \<Rightarrow> 'd storer \<Rightarrow> clock \<Rightarrow> 'd
    \<Rightarrow> nat \<Rightarrow> nat \<Rightarrow> 'd \<times> (ServiceError + 'd AccessService)" where
  "load_service load store clk d ttl limit = (case load d of
     Err e \<Rightarrow> (d, Err (Persistence e))
   | Ok st \<Rightarrow>
     (case prepare_resource_slots (clk 0) st limit of
        Err e \<Rightarrow> (d, Err e)
      | Ok (st, changed) \<Rightarrow>
        (case (if changed then store d st else (d, Ok ())) of
           (d, Err e) \<Rightarrow> (d, Err (Persistence e))
         | (d, Ok _) \<Rightarrow>
           (d, Ok \<lparr>repository = d, svc_state = st,
                  crypto_available = MAX_PENDING_CRYPTO_OPERATIONS, crypto_overloads = 0,
                  session_ttl = ttl, max_sessions = limit, activity = Map.empty,
                  usage_stored_at = clk 1\<rparr>))))"

subsection \<open>Writing the state and the activity log\<close>

text \<open>\<open>self.repository.store(&next).await?; *state = next;\<close>\<close>

definition persist :: "'d storer \<Rightarrow> PersistedState \<Rightarrow> 'd AccessService \<Rightarrow> ('d, unit) outcome" where
  "persist store next svc = (case store (repository svc) next of
     (d, Err e) \<Rightarrow> (svc\<lparr>repository := d\<rparr>, Err (Persistence e))
   | (d, Ok _) \<Rightarrow> (svc\<lparr>repository := d, svc_state := next\<rparr>, Ok ()))"

definition has_grant :: "PersistedState \<Rightarrow> rstr \<Rightarrow> bool" where
  "has_grant st i \<longleftrightarrow> list_ex (\<lambda>grant. g_id grant = i) (grants st)"

definition svc_note :: "nat \<Rightarrow> rstr \<Rightarrow> Activity \<Rightarrow> 'd AccessService \<Rightarrow> 'd AccessService" where
  "svc_note now grant_id act svc =
     (if \<not> has_grant (svc_state svc) grant_id then svc
      else svc\<lparr>activity := log_record (activity svc) grant_id act now\<rparr>)"

fun note_ended :: "clock \<Rightarrow> SessionRecord list \<Rightarrow> GrantActivityEvent \<Rightarrow> 'd AccessService
    \<Rightarrow> 'd AccessService" where
  "note_ended clk [] event svc = svc"
| "note_ended clk (session # rest) event svc = note_ended (clk \<circ> Suc) rest event
     (svc_note (clk 0) (s_grant_id session) (activity_session event (s_id session) (s_client_name session)) svc)"

definition forget_missing_activity :: "'d AccessService \<Rightarrow> 'd AccessService" where
  "forget_missing_activity svc = svc\<lparr>activity := log_retain (activity svc) (has_grant (svc_state svc))\<rparr>"

definition record_activity :: "nat \<Rightarrow> rstr \<Rightarrow> Activity \<Rightarrow> 'd AccessService \<Rightarrow> 'd AccessService" where
  "record_activity now grant_id act svc = svc_note now grant_id act svc"

definition recent_activity :: "'d AccessService \<Rightarrow> rstr \<Rightarrow> GrantActivity list" where
  "recent_activity svc grant_id = log_recent (activity svc) grant_id"

subsection \<open>Password hashing\<close>

text \<open>
  At most 32 operations may be waiting for a hash or a check; one more is
  turned away and counted. The permit an operation takes is given back before
  it returns.
\<close>

definition crypto_overload :: "'d AccessService \<Rightarrow> 'd AccessService" where
  "crypto_overload svc = svc\<lparr>crypto_overloads := (crypto_overloads svc + 1) mod 2 ^ 64\<rparr>"

definition svc_hash :: "crypto \<Rightarrow> rstr \<Rightarrow> rstr \<Rightarrow> 'd AccessService \<Rightarrow> ('d, rstr) outcome" where
  "svc_hash cr salt secret svc =
    (if crypto_available svc = 0 then (crypto_overload svc, Err Busy)
     else (svc, (case hash_secret cr salt secret of Err _ \<Rightarrow> Err Crypto | Ok h \<Rightarrow> Ok h)))"

definition svc_verify :: "crypto \<Rightarrow> rstr \<Rightarrow> rstr \<Rightarrow> 'd AccessService \<Rightarrow> ('d, bool) outcome" where
  "svc_verify cr secret hash svc =
    (if crypto_available svc = 0 then (crypto_overload svc, Err Busy)
     else (svc, Ok (verify_secret cr secret hash)))"

definition crypto_operations_in_flight :: "'d AccessService \<Rightarrow> nat" where
  "crypto_operations_in_flight svc = MAX_PENDING_CRYPTO_OPERATIONS - crypto_available svc"

subsection \<open>Grants\<close>

definition create_grant_commit :: "'d storer \<Rightarrow> AccessGrantRecord \<Rightarrow> 'd AccessService
    \<Rightarrow> ('d, unit) outcome" where
  "create_grant_commit store grant svc =
    (if list_ex (\<lambda>g. g_id g = g_id grant) (grants (svc_state svc)) then (svc, Err Crypto)
     else persist store ((svc_state svc)\<lparr>grants := grants (svc_state svc) @ [grant]\<rparr>) svc)"

definition create_grant :: "crypto \<Rightarrow> 'd storer \<Rightarrow> clock \<Rightarrow> (nat \<Rightarrow> uchar) \<Rightarrow> rstr
    \<Rightarrow> CreateAccessGrantRequest \<Rightarrow> 'd AccessService \<Rightarrow> ('d, CreateAccessGrantResponse) outcome" where
  "create_grant cr store clk rng salt request svc = (
    case validate_text (q_label request) ''label'' MAX_LABEL_LENGTH of
      Err e \<Rightarrow> (svc, Err e)
    | Ok label \<Rightarrow>
    if q_max_connections request = 0 \<or> q_max_connections request > max_sessions svc
      then (svc, Err (InvalidInput (lit ''max_connections must be between 1 and '' @ decimal (max_sessions svc))))
    else if q_valid_for_minutes request = 0 \<or> q_valid_for_minutes request > MAX_ACCESS_GRANT_VALIDITY_MINUTES
      then (svc, Err (InvalidInput (lit ''valid_for_minutes must be between 1 and ''
              @ decimal MAX_ACCESS_GRANT_VALIDITY_MINUTES)))
    else (case validate_protocols (q_protocols request) of Err e \<Rightarrow> (svc, Err e) | Ok _ \<Rightarrow>
    (case validate_allowance (q_allowance request) of Err e \<Rightarrow> (svc, Err e) | Ok _ \<Rightarrow>
    let now = clk 0;
        expires_at = sat_add64 now (q_valid_for_minutes request * 60);
        code = generate_access_code rng
    in (case split_access_code code of Err _ \<Rightarrow> (svc, Err Crypto) | Ok parts \<Rightarrow>
    (case svc_hash cr salt (part_secret parts) svc of
       (svc, Err e) \<Rightarrow> (svc, Err e)
     | (svc, Ok secret_hash) \<Rightarrow>
       (case create_grant_commit store \<lparr>g_id = part_id parts, g_secret_hash = secret_hash, g_label = label,
           g_max_connections = q_max_connections request, g_expires_at = Some expires_at,
           g_created_at = now, g_paused = False, g_protocols = q_protocols request,
           g_allowance = q_allowance request,
           g_allowance_since = map_option (\<lambda>_. now) (q_allowance request), g_usage = None\<rparr> svc of
          (svc, Err e) \<Rightarrow> (svc, Err e)
        | (svc, Ok _) \<Rightarrow> (svc, Ok \<lparr>p_id = part_id parts, p_access_code = code, p_label = label,
            p_max_connections = q_max_connections request,
            p_valid_for_minutes = q_valid_for_minutes request, p_expires_at = expires_at,
            p_created_at = now, p_protocols = q_protocols request,
            p_allowance = q_allowance request, p_invite = None\<rparr>)))))))"

text \<open>
  The batch makes its grants one after another and stops at the first error;
  grants made before it stay.
\<close>

fun create_grants :: "crypto \<Rightarrow> 'd storer \<Rightarrow> (nat \<Rightarrow> clock) \<Rightarrow> (nat \<Rightarrow> nat \<Rightarrow> uchar) \<Rightarrow> (nat \<Rightarrow> rstr)
    \<Rightarrow> rstr \<Rightarrow> CreateAccessGrantBatchRequest \<Rightarrow> nat list \<Rightarrow> 'd AccessService
    \<Rightarrow> ('d, CreateAccessGrantResponse list) outcome" where
  "create_grants cr store clks rngs salts label_prefix request [] svc = (svc, Ok [])"
| "create_grants cr store clks rngs salts label_prefix request (index # rest) svc =
    (case create_grant cr store (clks index) (rngs index) (salts index)
        \<lparr>q_label = label_prefix @ lit ''-'' @ decimal index,
         q_max_connections = b_max_connections request,
         q_valid_for_minutes = b_valid_for_minutes request, q_protocols = b_protocols request,
         q_allowance = b_allowance request\<rparr> svc of
       (svc, Err e) \<Rightarrow> (svc, Err e)
     | (svc, Ok response) \<Rightarrow>
       (case create_grants cr store clks rngs salts label_prefix request rest svc of
          (svc, Err e) \<Rightarrow> (svc, Err e)
        | (svc, Ok responses) \<Rightarrow> (svc, Ok (response # responses))))"

definition create_grant_batch :: "crypto \<Rightarrow> 'd storer \<Rightarrow> (nat \<Rightarrow> clock) \<Rightarrow> (nat \<Rightarrow> nat \<Rightarrow> uchar)
    \<Rightarrow> (nat \<Rightarrow> rstr) \<Rightarrow> CreateAccessGrantBatchRequest \<Rightarrow> 'd AccessService
    \<Rightarrow> ('d, CreateAccessGrantResponse list) outcome" where
  "create_grant_batch cr store clks rngs salts request svc =
    (if b_count request = 0 \<or> b_count request > 100
       then (svc, Err (InvalidInput (lit ''count must be between 1 and 100'')))
     else (case validate_text (b_label_prefix request) ''label_prefix'' MAX_LABEL_LENGTH of
         Err e \<Rightarrow> (svc, Err e)
       | Ok label_prefix \<Rightarrow>
         create_grants cr store clks rngs salts label_prefix request [1..<Suc (b_count request)] svc))"

definition list_grants :: "nat \<Rightarrow> 'd AccessService \<Rightarrow> AccessGrantSummary list" where
  "list_grants now svc = map (\<lambda>grant. grant_summary (svc_state svc) grant now) (grants (svc_state svc))"

definition grant_details :: "nat \<Rightarrow> rstr \<Rightarrow> 'd AccessService
    \<Rightarrow> ServiceError + (AccessGrantSummary \<times> GrantDevice list)" where
  "grant_details now i svc = (
    case find (\<lambda>grant. g_id grant = i) (grants (svc_state svc)) of
      None \<Rightarrow> Err NotFound
    | Some grant \<Rightarrow>
      (case try_map (\<lambda>session. case session_allocation session of Err e \<Rightarrow> Err e
            | Ok allocation \<Rightarrow> Ok \<lparr>d_allocation = allocation, d_client_name = s_client_name session,
                d_connected_at = s_issued_at session, d_session_expires_at = s_expires_at session\<rparr>)
          (filter (\<lambda>session. s_grant_id session = i \<and> s_expires_at session > now) (sessions (svc_state svc))) of
         Err e \<Rightarrow> Err e
       | Ok devices \<Rightarrow> Ok (grant_summary (svc_state svc) grant now, sort_key d_connected_at devices)))"

definition update_grant_commit :: "'d storer \<Rightarrow> clock \<Rightarrow> rstr \<Rightarrow> UpdateAccessGrantRequest \<Rightarrow> nat
    \<Rightarrow> 'd AccessService \<Rightarrow> ('d, AccessGrantSummary \<times> SessionAllocation list) outcome" where
  "update_grant_commit store clk i changes now svc = (
    case apply_changes (svc_state svc) i changes now of
      Err e \<Rightarrow> (svc, Err e)
    | Ok (next, ended) \<Rightarrow>
      (let ended_sessions = filter (\<lambda>session. list_ex (\<lambda>allocation. alloc_id allocation = s_id session) ended)
             (sessions (svc_state svc))
       in case persist store next svc of
            (svc, Err e) \<Rightarrow> (svc, Err e)
          | (svc, Ok _) \<Rightarrow>
            (let svc = note_ended clk ended_sessions EndedByChange svc
             in case find (\<lambda>grant. g_id grant = i) (grants (svc_state svc)) of
                  None \<Rightarrow> (svc, Err NotFound)
                | Some grant \<Rightarrow> (svc, Ok (grant_summary (svc_state svc) grant now, ended)))))"

definition update_grant :: "'d storer \<Rightarrow> clock \<Rightarrow> rstr \<Rightarrow> UpdateAccessGrantRequest \<Rightarrow> 'd AccessService
    \<Rightarrow> ('d, AccessGrantSummary \<times> SessionAllocation list) outcome" where
  "update_grant store clk i changes svc = (
    if changes = no_changes then (svc, Err (InvalidInput (lit ''the request changes nothing'')))
    else (case (case u_label changes of None \<Rightarrow> Ok None
          | Some label \<Rightarrow> (case validate_text label ''label'' MAX_LABEL_LENGTH of Err e \<Rightarrow> Err e | Ok l \<Rightarrow> Ok (Some l))) of
        Err e \<Rightarrow> (svc, Err e)
      | Ok label \<Rightarrow>
    let changes = changes\<lparr>u_label := label\<rparr>;
        now = clk 0;
        latest_end = sat_add64 now (MAX_ACCESS_GRANT_VALIDITY_MINUTES * 60)
    in if (case u_max_connections changes of None \<Rightarrow> False | Some devices \<Rightarrow> devices = 0 \<or> devices > max_sessions svc)
      then (svc, Err (InvalidInput (lit ''max_connections must be between 1 and '' @ decimal (max_sessions svc))))
    else if (case u_expires_at changes of None \<Rightarrow> False | Some expires_at \<Rightarrow> expires_at \<le> now \<or> expires_at > latest_end)
      then (svc, Err (InvalidInput
              (lit ''expires_at_epoch_seconds must be in the future and at most 365 days away'')))
    else (case (case u_protocols changes of None \<Rightarrow> Ok () | Some protocols \<Rightarrow> validate_protocols protocols) of
        Err e \<Rightarrow> (svc, Err e)
      | Ok _ \<Rightarrow>
    (case (case u_allowance changes of None \<Rightarrow> Ok () | Some allowance \<Rightarrow> validate_allowance allowance) of
        Err e \<Rightarrow> (svc, Err e)
      | Ok _ \<Rightarrow> update_grant_commit store (clk \<circ> Suc) i changes now svc))))"

definition revoke_grant :: "'d storer \<Rightarrow> rstr \<Rightarrow> 'd AccessService \<Rightarrow> ('d, SessionAllocation list) outcome" where
  "revoke_grant store i svc = (
    if \<not> has_grant (svc_state svc) i then (svc, Err NotFound)
    else (case try_map session_allocation (filter (\<lambda>session. s_grant_id session = i) (sessions (svc_state svc))) of
        Err e \<Rightarrow> (svc, Err e)
      | Ok revoked \<Rightarrow>
        (case persist store ((svc_state svc)\<lparr>
              grants := filter (\<lambda>grant. g_id grant \<noteq> i) (grants (svc_state svc)),
              sessions := filter (\<lambda>session. s_grant_id session \<noteq> i) (sessions (svc_state svc))\<rparr>) svc of
           (svc, Err e) \<Rightarrow> (svc, Err e)
         | (svc, Ok _) \<Rightarrow> (forget_missing_activity svc, Ok revoked))))"

subsection \<open>Sessions\<close>

text \<open>
  The part of \<open>admit_session\<close> under the state lock. \<open>grant_id\<close> is the ID of the
  grant read before; everything else about the grant is read again here.
\<close>

definition admit_commit :: "crypto \<Rightarrow> 'd storer \<Rightarrow> clock \<Rightarrow> nat \<Rightarrow> rstr \<Rightarrow> rstr \<Rightarrow> SessionTokenParts
    \<Rightarrow> SessionTokenParts \<Rightarrow> rstr \<Rightarrow> rstr \<Rightarrow> 'd AccessService \<Rightarrow> ('d, CreatedSession) outcome" where
  "admit_commit cr store clk now token data_plane_token token_parts data_plane_parts grant_id client_name svc = (
    let (next, expired) = take_expired_sessions (svc_state svc) now
    in case try_map session_allocation expired of
      Err e \<Rightarrow> (svc, Err e)
    | Ok expired_allocations \<Rightarrow>
    (case find (\<lambda>candidate. g_id candidate = grant_id) (grants next) of
       None \<Rightarrow> (svc, Err Unauthorized)
     | Some grant \<Rightarrow>
    if (case g_expires_at grant of None \<Rightarrow> False | Some expires_at \<Rightarrow> expires_at \<le> now)
      then (svc, Err GrantExpired)
    else if g_paused grant then (svc, Err GrantPaused)
    else (case used_up_until grant now of
       Some resets \<Rightarrow> (svc, Err (AllowanceUsed resets))
     | None \<Rightarrow>
    if active_for (g_id grant) now next \<ge> g_max_connections grant then (svc, Err GrantCapacity)
    else if length (filter (\<lambda>session. s_expires_at session > now) (sessions next)) \<ge> max_sessions svc
      then (svc, Err NodeCapacity)
    else (case next_resource_slot next (max_sessions svc) of
       None \<Rightarrow> (svc, Err NodeCapacity)
     | Some resource_slot \<Rightarrow>
    let access_expires_at = g_expires_at grant;
        expires_at = sat_add64 now (session_ttl svc);
        expires_at = (case access_expires_at of None \<Rightarrow> expires_at
          | Some grant_expiry \<Rightarrow> min expires_at grant_expiry);
        session = \<lparr>s_id = part_id token_parts, s_grant_id = g_id grant, s_secret_hash = None,
          s_control_secret_hash = Some (hash_token_secret cr (part_secret token_parts)),
          s_data_plane_secret_hash = Some (hash_token_secret cr (part_secret data_plane_parts)),
          s_resource_slot = Some resource_slot, s_client_name = client_name, s_issued_at = now,
          s_expires_at = expires_at\<rparr>
    in if list_ex (\<lambda>item. s_id item = s_id session) (sessions next) then (svc, Err Crypto)
       else (case persist store (next\<lparr>sessions := sessions next @ [session]\<rparr>) svc of
            (svc, Err e) \<Rightarrow> (svc, Err e)
          | (svc, Ok _) \<Rightarrow>
            (note_ended clk expired LeaseEnded svc,
             Ok \<lparr>c_token = token, c_data_plane_token = data_plane_token, c_id = part_id token_parts,
                 c_grant_id = g_id grant, c_resource_slot = resource_slot,
                 c_expired_allocations = expired_allocations, c_client_name = client_name,
                 c_expires_at = expires_at, c_access_expires_at = access_expires_at,
                 c_protocols = g_protocols grant, c_allowance = allowance_status grant now\<rparr>))))))"

definition admit_session :: "crypto \<Rightarrow> 'd storer \<Rightarrow> clock \<Rightarrow> (nat \<Rightarrow> uchar) \<Rightarrow> (nat \<Rightarrow> uchar)
    \<Rightarrow> AccessGrantRecord \<Rightarrow> rstr \<Rightarrow> rstr \<Rightarrow> 'd AccessService \<Rightarrow> ('d, CreatedSession) outcome" where
  "admit_session cr store clk rng rng' grant secret client_name svc = (
    case svc_verify cr secret (g_secret_hash grant) svc of
      (svc, Err e) \<Rightarrow> (svc, Err e)
    | (svc, Ok False) \<Rightarrow> (svc, Err Unauthorized)
    | (svc, Ok True) \<Rightarrow>
    if g_paused grant then (svc, Err GrantPaused)
    else let now = clk 0 in
    (case used_up_until grant now of
       Some resets \<Rightarrow> (svc, Err (AllowanceUsed resets))
     | None \<Rightarrow>
    let token = generate_session_token rng
    in (case split_session_token token of Err _ \<Rightarrow> (svc, Err Crypto) | Ok token_parts \<Rightarrow>
    (case generate_scoped_token rng' (part_id token_parts) of Err _ \<Rightarrow> (svc, Err Crypto) | Ok data_plane_token \<Rightarrow>
    (case split_session_token data_plane_token of Err _ \<Rightarrow> (svc, Err Crypto) | Ok data_plane_parts \<Rightarrow>
      admit_commit cr store (clk \<circ> Suc) now token data_plane_token token_parts data_plane_parts
        (g_id grant) client_name svc)))))"

definition create_session :: "crypto \<Rightarrow> 'd storer \<Rightarrow> clock \<Rightarrow> (nat \<Rightarrow> uchar) \<Rightarrow> (nat \<Rightarrow> uchar) \<Rightarrow> nat
    \<Rightarrow> rstr \<Rightarrow> rstr \<Rightarrow> 'd AccessService \<Rightarrow> ('d, CreatedSession) outcome" where
  "create_session cr store clk rng rng' note_at access_code client_name svc = (
    case validate_text client_name ''client_name'' MAX_CLIENT_NAME_LENGTH of
      Err e \<Rightarrow> (svc, Err e)
    | Ok client_name \<Rightarrow>
    (case split_access_code access_code of Err _ \<Rightarrow> (svc, Err Unauthorized) | Ok code \<Rightarrow>
    (case find (\<lambda>grant. g_id grant = part_id code) (grants (svc_state svc)) of
       None \<Rightarrow> (svc, Err Unauthorized)
     | Some grant \<Rightarrow>
       (case admit_session cr store clk rng rng' grant (part_secret code) client_name svc of
          (svc, Ok created) \<Rightarrow> (svc, Ok created)
        | (svc, Err error) \<Rightarrow>
          ((case enrollment_refusal error of None \<Rightarrow> svc
            | Some event \<Rightarrow> svc_note note_at (part_id code) (activity_enrollment event client_name) svc),
           Err error)))))"

text \<open>The part of \<open>authenticate\<close> under the state lock, and the checks after it.\<close>

definition find_session :: "PersistedState \<Rightarrow> rstr \<Rightarrow> ServiceError + (SessionRecord \<times> AccessGrantRecord)" where
  "find_session st i = (
    case find (\<lambda>session. s_id session = i) (sessions st) of
      None \<Rightarrow> Err Unauthorized
    | Some session \<Rightarrow>
      (case find (\<lambda>grant. g_id grant = s_grant_id session) (grants st) of
         None \<Rightarrow> Err Unauthorized
       | Some grant \<Rightarrow> Ok (session, grant)))"

definition authenticate :: "crypto \<Rightarrow> nat \<Rightarrow> rstr \<Rightarrow> 'd AccessService
    \<Rightarrow> ('d, SessionRecord \<times> AccessGrantRecord) outcome" where
  "authenticate cr now token svc = (
    case split_session_token token of Err _ \<Rightarrow> (svc, Err Unauthorized) | Ok parts \<Rightarrow>
    (case find_session (svc_state svc) (part_id parts) of Err e \<Rightarrow> (svc, Err e) | Ok (session, grant) \<Rightarrow>
    (case (case (s_control_secret_hash session, s_secret_hash session) of
             (Some expected_hash, None) \<Rightarrow> (svc, Ok (verify_token_secret cr (part_secret parts) expected_hash))
           | (None, Some legacy_hash) \<Rightarrow> svc_verify cr (part_secret parts) legacy_hash svc
           | _ \<Rightarrow> (svc, Err (InvalidState ''session control-token hash is invalid''))) of
       (svc, Err e) \<Rightarrow> (svc, Err e)
     | (svc, Ok authorized) \<Rightarrow>
       if \<not> authorized then (svc, Err Unauthorized)
       else if \<not> admits session grant now then (svc, Err Unauthorized)
       else (svc, Ok (session, grant)))))"

definition session_view :: "SessionRecord \<Rightarrow> AccessGrantRecord \<Rightarrow> nat \<Rightarrow> nat \<Rightarrow> nat \<Rightarrow> SessionView" where
  "session_view session grant slot expires_at now = \<lparr>v_id = s_id session, v_grant_id = g_id grant,
     v_resource_slot = slot, v_client_name = s_client_name session, v_expires_at = expires_at,
     v_access_expires_at = g_expires_at grant, v_protocols = g_protocols grant,
     v_allowance = allowance_status grant now\<rparr>"

definition get_session :: "crypto \<Rightarrow> clock \<Rightarrow> rstr \<Rightarrow> 'd AccessService \<Rightarrow> ('d, SessionView) outcome" where
  "get_session cr clk token svc = (case authenticate cr (clk 0) token svc of
     (svc, Err e) \<Rightarrow> (svc, Err e)
   | (svc, Ok (session, grant)) \<Rightarrow>
     (case required_resource_slot session of Err e \<Rightarrow> (svc, Err e)
      | Ok slot \<Rightarrow> (svc, Ok (session_view session grant slot (s_expires_at session) (clk 1)))))"

definition verify_data_plane :: "crypto \<Rightarrow> nat \<Rightarrow> SessionTokenParts \<Rightarrow> TransportProtocol \<Rightarrow> rstr option
    \<Rightarrow> PersistedState \<Rightarrow> ServiceError + SessionView" where
  "verify_data_plane cr now parts protocol username st = (
    if (case username of None \<Rightarrow> False | Some name \<Rightarrow> name \<noteq> part_id parts) then Err Unauthorized
    else (case find_session st (part_id parts) of Err e \<Rightarrow> Err e | Ok (session, grant) \<Rightarrow>
    (case s_data_plane_secret_hash session of None \<Rightarrow> Err Unauthorized | Some expected_hash \<Rightarrow>
    if \<not> verify_token_secret cr (part_secret parts) expected_hash then Err Unauthorized
    else if \<not> admits session grant now then Err Unauthorized
    else if \<not> allows (g_protocols grant) protocol then Err Forbidden
    else (case required_resource_slot session of Err e \<Rightarrow> Err e
          | Ok slot \<Rightarrow> Ok (session_view session grant slot (s_expires_at session) now)))))"

definition authenticate_data_plane :: "crypto \<Rightarrow> clock \<Rightarrow> rstr \<Rightarrow> TransportProtocol \<Rightarrow> rstr option
    \<Rightarrow> 'd AccessService \<Rightarrow> ('d, SessionView) outcome" where
  "authenticate_data_plane cr clk token protocol username svc = (
    case split_session_token token of Err _ \<Rightarrow> (svc, Err Unauthorized) | Ok parts \<Rightarrow>
    let result = verify_data_plane cr (clk 0) parts protocol username (svc_state svc);
        event = (case result of Ok _ \<Rightarrow> SignedIn
          | Err e \<Rightarrow> (if e = Forbidden then SignInRefusedProtocol else SignInRefused));
        svc = (case find (\<lambda>session. s_id session = part_id parts) (sessions (svc_state svc)) of
            None \<Rightarrow> svc
          | Some session \<Rightarrow> svc_note (clk 1) (s_grant_id session)
              (activity_over (activity_session event (s_id session) (s_client_name session)) protocol) svc)
    in (svc, (case result of Err _ \<Rightarrow> Err Unauthorized | Ok view \<Rightarrow> Ok view)))"

definition renew_commit :: "'d storer \<Rightarrow> nat \<Rightarrow> SessionRecord \<Rightarrow> AccessGrantRecord \<Rightarrow> nat
    \<Rightarrow> 'd AccessService \<Rightarrow> ('d, unit) outcome" where
  "renew_commit store note_at session grant expires_at svc = (
    if find (\<lambda>x. s_id x = s_id session) (sessions (svc_state svc)) = None then (svc, Err Unauthorized)
    else (case persist store ((svc_state svc)\<lparr>sessions :=
            update_first (\<lambda>x. s_id x = s_id session) (\<lambda>x. x\<lparr>s_expires_at := expires_at\<rparr>)
              (sessions (svc_state svc))\<rparr>) svc of
         (svc, Err e) \<Rightarrow> (svc, Err e)
       | (svc, Ok _) \<Rightarrow>
         (svc_note note_at (g_id grant)
            (activity_session CheckedIn (s_id session) (s_client_name session)) svc, Ok ())))"

definition lease_end :: "nat \<Rightarrow> nat \<Rightarrow> AccessGrantRecord \<Rightarrow> nat" where
  "lease_end now ttl grant = (let expires_at = sat_add64 now ttl
     in case g_expires_at grant of None \<Rightarrow> expires_at
        | Some grant_expiry \<Rightarrow> min expires_at grant_expiry)"

definition renew_session :: "crypto \<Rightarrow> 'd storer \<Rightarrow> clock \<Rightarrow> rstr \<Rightarrow> 'd AccessService
    \<Rightarrow> ('d, SessionView) outcome" where
  "renew_session cr store clk token svc = (case authenticate cr (clk 0) token svc of
     (svc, Err e) \<Rightarrow> (svc, Err e)
   | (svc, Ok (session, grant)) \<Rightarrow>
     (let now = clk 1;
          expires_at = lease_end now (session_ttl svc) grant
      in case renew_commit store (clk 2) session grant expires_at svc of
           (svc, Err e) \<Rightarrow> (svc, Err e)
         | (svc, Ok _) \<Rightarrow>
           (case required_resource_slot session of Err e \<Rightarrow> (svc, Err e)
            | Ok slot \<Rightarrow> (svc, Ok (session_view session grant slot expires_at now)))))"

definition end_commit :: "'d storer \<Rightarrow> clock \<Rightarrow> SessionRecord \<Rightarrow> GrantActivityEvent option
    \<Rightarrow> 'd AccessService \<Rightarrow> ('d, unit) outcome" where
  "end_commit store clk session event svc = (
    case persist store ((svc_state svc)\<lparr>sessions :=
           filter (\<lambda>x. s_id x \<noteq> s_id session) (sessions (svc_state svc))\<rparr>) svc of
      (svc, Err e) \<Rightarrow> (svc, Err e)
    | (svc, Ok _) \<Rightarrow>
      ((case event of None \<Rightarrow> svc | Some event \<Rightarrow> note_ended clk [session] event svc), Ok ()))"

definition end_session :: "crypto \<Rightarrow> 'd storer \<Rightarrow> clock \<Rightarrow> rstr \<Rightarrow> GrantActivityEvent option
    \<Rightarrow> 'd AccessService \<Rightarrow> ('d, SessionAllocation) outcome" where
  "end_session cr store clk token event svc = (case authenticate cr (clk 0) token svc of
     (svc, Err e) \<Rightarrow> (svc, Err e)
   | (svc, Ok (session, _)) \<Rightarrow>
     (case session_allocation session of Err e \<Rightarrow> (svc, Err e) | Ok allocation \<Rightarrow>
     (case end_commit store (clk \<circ> Suc) session event svc of
        (svc, Err e) \<Rightarrow> (svc, Err e)
      | (svc, Ok _) \<Rightarrow> (svc, Ok allocation))))"

definition release_session :: "crypto \<Rightarrow> 'd storer \<Rightarrow> clock \<Rightarrow> rstr \<Rightarrow> 'd AccessService
    \<Rightarrow> ('d, SessionAllocation) outcome" where
  "release_session cr store clk token svc = end_session cr store clk token (Some Left) svc"

definition discard_session :: "crypto \<Rightarrow> 'd storer \<Rightarrow> clock \<Rightarrow> rstr \<Rightarrow> 'd AccessService
    \<Rightarrow> ('d, SessionAllocation) outcome" where
  "discard_session cr store clk token svc = end_session cr store clk token None svc"

subsection \<open>Clean-up and metering\<close>

definition expire_sessions :: "'d storer \<Rightarrow> clock \<Rightarrow> 'd AccessService
    \<Rightarrow> ('d, SessionAllocation list) outcome" where
  "expire_sessions store clk svc = (
    let now = clk 0;
        (next, ended) = take_expired_sessions (svc_state svc) now
    in case try_map session_allocation ended of
      Err e \<Rightarrow> (svc, Err e)
    | Ok expired \<Rightarrow>
      (let (next, forgot_grants) = forget_stale_grants next now
       in if expired = [] \<and> \<not> forgot_grants then (svc, Ok expired)
          else (case persist store next svc of
               (svc, Err e) \<Rightarrow> (svc, Err e)
             | (svc, Ok _) \<Rightarrow>
               (forget_missing_activity (note_ended (clk \<circ> Suc) ended LeaseEnded svc), Ok expired))))"

definition metered_sessions :: "nat \<Rightarrow> 'd AccessService \<Rightarrow> MeteredSession list" where
  "metered_sessions now svc = List.map_filter (\<lambda>session.
     case find (\<lambda>grant. g_id grant = s_grant_id session \<and> g_allowance grant \<noteq> None) (grants (svc_state svc)) of
       None \<Rightarrow> None
     | Some grant \<Rightarrow>
       (case session_allocation session of Err _ \<Rightarrow> None
        | Ok allocation \<Rightarrow> Some \<lparr>m_allocation = allocation, m_issued_at = s_issued_at session,
            m_counted_since = (case g_allowance_since grant of None \<Rightarrow> 0 | Some t \<Rightarrow> t)\<rparr>))
     (filter (\<lambda>session. s_expires_at session > now) (sessions (svc_state svc)))"

text \<open>The loop that adds up what the sessions of each grant moved.\<close>

definition grant_moved :: "(rstr \<rightharpoonup> nat) \<Rightarrow> (rstr \<rightharpoonup> nat) \<Rightarrow> SessionRecord \<Rightarrow> (rstr \<rightharpoonup> nat)" where
  "grant_moved moved per_grant session = (case moved (s_id session) of
     None \<Rightarrow> per_grant
   | Some bytes \<Rightarrow>
     (if bytes > 0
        then per_grant(s_grant_id session \<mapsto>
          sat_add64 (case per_grant (s_grant_id session) of None \<Rightarrow> 0 | Some t \<Rightarrow> t) bytes)
      else per_grant))"

definition moved_per_grant :: "(rstr \<rightharpoonup> nat) \<Rightarrow> SessionRecord list \<Rightarrow> (rstr \<rightharpoonup> nat)" where
  "moved_per_grant moved ss = foldl (grant_moved moved) Map.empty ss"

definition count_usage :: "(rstr \<rightharpoonup> nat) \<Rightarrow> nat \<Rightarrow> AccessGrantRecord list \<Rightarrow> AccessGrantRecord list" where
  "count_usage per_grant now gs = map (\<lambda>grant. case per_grant (g_id grant) of
     None \<Rightarrow> grant | Some bytes \<Rightarrow> add_usage grant bytes now) gs"

definition record_usage :: "'d storer \<Rightarrow> clock \<Rightarrow> (rstr \<rightharpoonup> nat) \<Rightarrow> nat \<Rightarrow> 'd AccessService
    \<Rightarrow> ('d, SessionAllocation list) outcome" where
  "record_usage store clk moved now svc = (
    let st = svc_state svc;
        per_grant = moved_per_grant moved (sessions st);
        gs = count_usage per_grant now (grants st);
        used_up = g_id ` set (filter (\<lambda>grant. used_up_until grant now \<noteq> None) gs);
        ending = filter (\<lambda>session. s_grant_id session \<in> used_up) (sessions st);
        kept = filter (\<lambda>session. s_grant_id session \<notin> used_up) (sessions st);
        next = st\<lparr>grants := gs, sessions := kept\<rparr>
    in case try_map session_allocation ending of
      Err e \<Rightarrow> (svc, Err e)
    | Ok ended \<Rightarrow>
      (let due = ending \<noteq> [] \<or> (per_grant \<noteq> Map.empty
               \<and> now - usage_stored_at svc \<ge> USAGE_STORE_INTERVAL_SECONDS)
       in case (if due
                then (case persist store next svc of
                        (svc, Err e) \<Rightarrow> (svc, Err e)
                      | (svc, Ok _) \<Rightarrow> (svc\<lparr>usage_stored_at := now\<rparr>, Ok ()))
                else (svc\<lparr>svc_state := next\<rparr>, Ok ())) of
            (svc, Err e) \<Rightarrow> (svc, Err e)
          | (svc, Ok _) \<Rightarrow> (note_ended clk ending EndedAllowanceUsed svc, Ok ended)))"

definition active_session_count :: "nat \<Rightarrow> 'd AccessService \<Rightarrow> nat" where
  "active_session_count now svc = length (filter (\<lambda>session. s_expires_at session > now) (sessions (svc_state svc)))"

definition active_session_allocations :: "nat \<Rightarrow> 'd AccessService \<Rightarrow> ServiceError + SessionAllocation list" where
  "active_session_allocations now svc =
     try_map session_allocation (filter (\<lambda>session. s_expires_at session > now) (sessions (svc_state svc)))"

end
