(* ===== verification/Access_Invariants.thy ===== *)
theory Access_Invariants
  imports Access_Service
begin

text \<open>
  What every state of the access service satisfies. The atomic steps of the
  service are its sections under the state lock, each with arbitrary values
  for what an earlier section read, so the runs of \<open>svc_step\<close> cover every
  interleaving of requests. The lemmas are proved against the contract of a
  repository and hold of the file repository by interpretation.
\<close>

subsection \<open>Atomic steps\<close>

inductive svc_step :: "crypto \<Rightarrow> ('io \<Rightarrow> 'd storer) \<Rightarrow> 'd AccessService \<Rightarrow> 'd AccessService \<Rightarrow> bool"
  for cr :: crypto and store :: "'io \<Rightarrow> 'd storer"
where
  step_create: "svc_step cr store svc (fst (create_grant_commit (store i) grant svc))"
| step_update: "svc_step cr store svc (fst (update_grant_commit (store i) clk gid changes now svc))"
| step_revoke: "svc_step cr store svc (fst (revoke_grant (store i) gid svc))"
| step_admit: "svc_step cr store svc
    (fst (admit_commit cr (store i) clk now token dtoken parts dparts gid name svc))"
| step_renew: "svc_step cr store svc (fst (renew_commit (store i) t session grant expires_at svc))"
| step_end: "svc_step cr store svc (fst (end_commit (store i) clk session event svc))"
| step_expire: "svc_step cr store svc (fst (expire_sessions (store i) clk svc))"
| step_usage: "svc_step cr store svc (fst (record_usage (store i) clk moved now svc))"
| step_note: "svc_step cr store svc (svc_note now gid act svc)"
| step_permit: "0 < crypto_available svc \<Longrightarrow>
    svc_step cr store svc (svc\<lparr>crypto_available := crypto_available svc - 1\<rparr>)"
| step_release: "crypto_available svc < MAX_PENDING_CRYPTO_OPERATIONS \<Longrightarrow>
    svc_step cr store svc (svc\<lparr>crypto_available := crypto_available svc + 1\<rparr>)"
| step_overload: "crypto_available svc = 0 \<Longrightarrow> svc_step cr store svc (crypto_overload svc)"

subsection \<open>The invariant\<close>

definition slots_ok :: "nat \<Rightarrow> PersistedState \<Rightarrow> bool" where
  "slots_ok n st \<longleftrightarrow> (\<forall>s \<in> set (sessions st). \<exists>k < n. s_resource_slot s = Some k)"

definition core_ok :: "crypto \<Rightarrow> 'd AccessService \<Rightarrow> bool" where
  "core_ok cr svc \<longleftrightarrow> schema_version (svc_state svc) = CURRENT_STATE_SCHEMA_VERSION
     \<and> valid_state cr (svc_state svc) \<and> slots_ok (max_sessions svc) (svc_state svc)
     \<and> log_ok (activity svc) \<and> crypto_available svc \<le> MAX_PENDING_CRYPTO_OPERATIONS"

definition log_current :: "'d AccessService \<Rightarrow> bool" where
  "log_current svc \<longleftrightarrow> (\<forall>i. activity svc i \<noteq> None \<longrightarrow> has_grant (svc_state svc) i)"

definition svc_ok :: "crypto \<Rightarrow> 'd AccessService \<Rightarrow> bool" where
  "svc_ok cr svc \<longleftrightarrow> core_ok cr svc \<and> log_current svc"

text \<open>Equal but for the running totals of the grants.\<close>

definition same_but_usage :: "PersistedState \<Rightarrow> PersistedState \<Rightarrow> bool" where
  "same_but_usage a b \<longleftrightarrow> schema_version a = schema_version b \<and> sessions a = sessions b
     \<and> map (\<lambda>g. g\<lparr>g_usage := None\<rparr>) (grants a) = map (\<lambda>g. g\<lparr>g_usage := None\<rparr>) (grants b)"

lemma same_but_usage_refl [simp]: "same_but_usage a a"
  by (simp add: same_but_usage_def)

lemma same_but_usage_trans: "same_but_usage a b \<Longrightarrow> same_but_usage b c \<Longrightarrow> same_but_usage a c"
  by (simp add: same_but_usage_def)

subsection \<open>What notes leave alone\<close>

lemma svc_note_fields [simp]:
  "svc_state (svc_note now i a svc) = svc_state svc" "repository (svc_note now i a svc) = repository svc"
  "max_sessions (svc_note now i a svc) = max_sessions svc" "session_ttl (svc_note now i a svc) = session_ttl svc"
  "crypto_available (svc_note now i a svc) = crypto_available svc"
  "usage_stored_at (svc_note now i a svc) = usage_stored_at svc"
  by (simp_all add: svc_note_def)

lemma note_ended_fields [simp]:
  "svc_state (note_ended clk ss e svc) = svc_state svc" "repository (note_ended clk ss e svc) = repository svc"
  "max_sessions (note_ended clk ss e svc) = max_sessions svc" "session_ttl (note_ended clk ss e svc) = session_ttl svc"
  "crypto_available (note_ended clk ss e svc) = crypto_available svc"
  "usage_stored_at (note_ended clk ss e svc) = usage_stored_at svc"
  by (induction clk ss e svc rule: note_ended.induct) simp_all

lemma forget_fields [simp]:
  "svc_state (forget_missing_activity svc) = svc_state svc"
  "repository (forget_missing_activity svc) = repository svc"
  "max_sessions (forget_missing_activity svc) = max_sessions svc"
  "session_ttl (forget_missing_activity svc) = session_ttl svc"
  by (simp_all add: forget_missing_activity_def)

lemma core_ok_note: "core_ok cr svc \<Longrightarrow> core_ok cr (svc_note now i a svc)"
  by (simp add: core_ok_def svc_note_def log_ok_record)

lemma log_current_note: "log_current svc \<Longrightarrow> log_current (svc_note now i a svc)"
  by (simp add: log_current_def svc_note_def log_record_def)

lemma core_ok_note_ended: "core_ok cr svc \<Longrightarrow> core_ok cr (note_ended clk ss e svc)"
  by (induction clk ss e svc rule: note_ended.induct) (simp_all add: core_ok_note)

lemma log_current_note_ended: "log_current svc \<Longrightarrow> log_current (note_ended clk ss e svc)"
  by (induction clk ss e svc rule: note_ended.induct) (simp_all add: log_current_note)

lemma svc_ok_note: "svc_ok cr svc \<Longrightarrow> svc_ok cr (svc_note now i a svc)"
  by (simp add: svc_ok_def core_ok_note log_current_note)

lemma svc_ok_note_ended: "svc_ok cr svc \<Longrightarrow> svc_ok cr (note_ended clk ss e svc)"
  by (simp add: svc_ok_def core_ok_note_ended log_current_note_ended)

lemma svc_ok_forget: "core_ok cr svc \<Longrightarrow> svc_ok cr (forget_missing_activity svc)"
  using log_ok_retain [of "activity svc" "has_grant (svc_state svc)"]
  by (auto simp: svc_ok_def core_ok_def log_current_def forget_missing_activity_def log_retain_def
      split: if_splits)

subsection \<open>Slots\<close>

lemma slots_ok_filter: "slots_ok n st \<Longrightarrow> slots_ok n (st\<lparr>sessions := filter P (sessions st)\<rparr>)"
  by (simp add: slots_ok_def)

lemma slots_ok_grants [simp]: "slots_ok n (st\<lparr>grants := gs\<rparr>) = slots_ok n st"
  by (simp add: slots_ok_def)

lemma slots_ok_total:
  "slots_ok n st \<Longrightarrow> set ss \<subseteq> set (sessions st) \<Longrightarrow> \<exists>as. try_map session_allocation ss = Ok as"
  by (rule allocations_total) (fastforce simp: slots_ok_def)

lemma next_resource_slot_Some:
  "next_resource_slot st n = Some k \<Longrightarrow> k < n \<and> k \<notin> set (slots_of (sessions st))"
  unfolding next_resource_slot_def by (drule find_Some_mem) auto

text \<open>A free slot is found whenever fewer sessions than slots hold one.\<close>

lemma next_resource_slot_exists:
  assumes "length (sessions st) < n"
  shows "\<exists>k. next_resource_slot st n = Some k"
proof (rule ccontr)
  assume "\<nexists>k. next_resource_slot st n = Some k"
  then have "{0..<n} \<subseteq> set (slots_of (sessions st))"
    by (auto simp: next_resource_slot_def find_None_iff)
  then have "n \<le> card (set (slots_of (sessions st)))"
    using card_mono [of "set (slots_of (sessions st))" "{0..<n}"] by simp
  also have "\<dots> \<le> length (slots_of (sessions st))" by (rule card_length)
  also have "\<dots> \<le> length (sessions st)"
    by (induction "sessions st" rule: rev_induct) (auto simp: slots_of_def List.map_filter_def)
  finally show False using assms by simp
qed

subsection \<open>What each operation does to the persisted state\<close>

lemma has_grant_iff: "has_grant st i \<longleftrightarrow> i \<in> g_id ` set (grants st)"
  by (auto simp: has_grant_def list_ex_iff)

lemma has_grant_ids: "map g_id (grants a) = map g_id (grants b) \<Longrightarrow> has_grant a j \<longleftrightarrow> has_grant b j"
  unfolding has_grant_iff by (metis list.set_map)

lemma apply_changes_keeps:
  assumes "valid_state cr st" "apply_changes st i c now = Ok (nxt, ended)"
  shows "slots_ok n st \<Longrightarrow> slots_ok n nxt" "has_grant nxt j \<longleftrightarrow> has_grant st j"
proof -
  obtain g where g: "g \<in> set (grants st)" "g_id g = i"
    using assms by (auto simp: apply_changes_Ok [OF assms(1)])
  obtain g' end_all where c: "change_grant c now g = (g', end_all)" by fastforce
  note result = apply_changes_result [OF assms g c]
  have "g_id g' = i" using change_grant_id [of c now g] c g(2) by simp
  then show "has_grant nxt j \<longleftrightarrow> has_grant st j"
    by (intro has_grant_ids) (auto simp: result(1))
  show "slots_ok n st \<Longrightarrow> slots_ok n nxt"
    unfolding slots_ok_def result(2) by auto
qed

lemma count_usage_ids: "map g_id (count_usage per now gs) = map g_id gs"
  by (induction gs) (auto simp: count_usage_def split: option.splits)

lemma add_usage_erased: "(add_usage g b now)\<lparr>g_usage := None\<rparr> = g\<lparr>g_usage := None\<rparr>"
  by (simp add: add_usage_def split: option.splits)

lemma count_usage_erased:
  "map (\<lambda>g. g\<lparr>g_usage := None\<rparr>) (count_usage per now gs) = map (\<lambda>g. g\<lparr>g_usage := None\<rparr>) gs"
  by (induction gs) (auto simp: count_usage_def add_usage_erased split: option.splits)

lemma count_usage_mem:
  "x \<in> set (count_usage per now gs) \<Longrightarrow> \<exists>g \<in> set gs. x = g \<or> (\<exists>b. x = add_usage g b now)"
proof -
  assume "x \<in> set (count_usage per now gs)"
  then obtain g where "g \<in> set gs" "x = (case per (g_id g) of None \<Rightarrow> g | Some b \<Rightarrow> add_usage g b now)"
    by (auto simp: count_usage_def)
  then show ?thesis by (intro bexI [of _ g]) (auto split: option.splits)
qed

lemma within_count_usage:
  assumes "within_grant gs s"
  shows "within_grant (count_usage per now gs) s"
proof -
  obtain g where g: "g \<in> set gs" "g_id g = s_grant_id s"
    "\<forall>e. g_expires_at g = Some e \<longrightarrow> s_expires_at s \<le> e"
    using assms by (auto simp: within_grant_def)
  show ?thesis
    unfolding within_grant_def count_usage_def
    using g by (auto split: option.splits intro!: bexI [of _ g])
qed

lemma valid_count_usage:
  assumes "valid_state cr st"
  shows "valid_state cr (st\<lparr>grants := count_usage per now (grants st), sessions := filter P (sessions st)\<rparr>)"
  using assms unfolding valid_state_def
  by (auto simp: count_usage_ids within_count_usage distinct_slots_filter dest!: count_usage_mem
      intro: grant_ok_add_usage)

lemma has_grant_count_usage:
  "has_grant (st\<lparr>grants := count_usage per now (grants st), sessions := ss\<rparr>) i \<longleftrightarrow> has_grant st i"
  by (rule has_grant_ids) (simp add: count_usage_ids)

text \<open>The sessions a usage report ends and the state it leads to.\<close>

definition usage_grants :: "(rstr \<rightharpoonup> nat) \<Rightarrow> nat \<Rightarrow> PersistedState \<Rightarrow> AccessGrantRecord list" where
  "usage_grants moved now st = count_usage (moved_per_grant moved (sessions st)) now (grants st)"

definition used_up_ids :: "(rstr \<rightharpoonup> nat) \<Rightarrow> nat \<Rightarrow> PersistedState \<Rightarrow> rstr set" where
  "used_up_ids moved now st = g_id ` set (filter (\<lambda>g. used_up_until g now \<noteq> None) (usage_grants moved now st))"

definition usage_ending :: "(rstr \<rightharpoonup> nat) \<Rightarrow> nat \<Rightarrow> PersistedState \<Rightarrow> SessionRecord list" where
  "usage_ending moved now st = filter (\<lambda>s. s_grant_id s \<in> used_up_ids moved now st) (sessions st)"

definition usage_next :: "(rstr \<rightharpoonup> nat) \<Rightarrow> nat \<Rightarrow> PersistedState \<Rightarrow> PersistedState" where
  "usage_next moved now st = st\<lparr>grants := usage_grants moved now st,
     sessions := filter (\<lambda>s. s_grant_id s \<notin> used_up_ids moved now st) (sessions st)\<rparr>"

definition usage_due :: "(rstr \<rightharpoonup> nat) \<Rightarrow> nat \<Rightarrow> 'd AccessService \<Rightarrow> bool" where
  "usage_due moved now svc \<longleftrightarrow> usage_ending moved now (svc_state svc) \<noteq> []
     \<or> (moved_per_grant moved (sessions (svc_state svc)) \<noteq> Map.empty
        \<and> now - usage_stored_at svc \<ge> USAGE_STORE_INTERVAL_SECONDS)"

lemma record_usage_alt:
  "record_usage store clk moved now svc = (case try_map session_allocation (usage_ending moved now (svc_state svc)) of
      Err e \<Rightarrow> (svc, Err e)
    | Ok ended \<Rightarrow>
      (case (if usage_due moved now svc
             then (case persist store (usage_next moved now (svc_state svc)) svc of
                     (svc, Err e) \<Rightarrow> (svc, Err e)
                   | (svc, Ok _) \<Rightarrow> (svc\<lparr>usage_stored_at := now\<rparr>, Ok ()))
             else (svc\<lparr>svc_state := usage_next moved now (svc_state svc)\<rparr>, Ok ())) of
         (svc, Err e) \<Rightarrow> (svc, Err e)
       | (svc', Ok _) \<Rightarrow> (note_ended clk (usage_ending moved now (svc_state svc)) EndedAllowanceUsed svc', Ok ended)))"
  unfolding record_usage_def Let_def usage_due_def usage_next_def usage_ending_def used_up_ids_def usage_grants_def
  by (rule refl)

lemma valid_usage_next: "valid_state cr st \<Longrightarrow> valid_state cr (usage_next moved now st)"
  by (simp add: usage_next_def usage_grants_def valid_count_usage)

lemma slots_usage_next: "slots_ok n st \<Longrightarrow> slots_ok n (usage_next moved now st)"
  by (simp add: usage_next_def slots_ok_def)

lemma has_grant_usage_next: "has_grant (usage_next moved now st) j \<longleftrightarrow> has_grant st j"
  by (simp add: usage_next_def usage_grants_def has_grant_count_usage)

lemma schema_usage_next [simp]: "schema_version (usage_next moved now st) = schema_version st"
  by (simp add: usage_next_def)

lemma same_usage_next: "usage_ending moved now st = [] \<Longrightarrow> same_but_usage st (usage_next moved now st)"
  by (auto simp: same_but_usage_def usage_next_def usage_grants_def count_usage_erased usage_ending_def
      filter_empty_conv filter_id_conv)

subsection \<open>Against the contract of a repository\<close>

definition agrees :: "('d \<Rightarrow> RepositoryError + PersistedState) \<Rightarrow> 'd AccessService \<Rightarrow> bool" where
  "agrees load svc \<longleftrightarrow> (\<exists>st. load (repository svc) = Ok st \<and> same_but_usage st (svc_state svc))"

locale access_repository =
  state_repository load store "\<lambda>st. schema_version st = CURRENT_STATE_SCHEMA_VERSION \<and> valid_state cr st" lossless
  for load :: "'d \<Rightarrow> RepositoryError + PersistedState"
    and store :: "'io \<Rightarrow> 'd storer"
    and cr :: crypto
    and lossless :: bool
begin

lemma persist_fields:
  "max_sessions (fst (persist s nxt svc)) = max_sessions svc"
  "session_ttl (fst (persist s nxt svc)) = session_ttl svc"
  "activity (fst (persist s nxt svc)) = activity svc"
  by (simp_all add: persist_def split: prod.splits sum.splits)

lemma persist_Ok:
  "persist (store i) nxt svc = (svc', Ok ()) \<Longrightarrow>
     svc_state svc' = nxt \<and> schema_version nxt = CURRENT_STATE_SCHEMA_VERSION \<and> valid_state cr nxt
     \<and> (lossless \<longrightarrow> load (repository svc') = Ok nxt)"
  using store_valid [of i "repository svc" nxt] store_load [of i "repository svc" nxt]
  by (auto simp: persist_def split: prod.splits sum.splits)

lemma persist_Err:
  "persist (store i) nxt svc = (svc', Err e) \<Longrightarrow>
     svc_state svc' = svc_state svc \<and> load (repository svc') = load (repository svc)"
  using store_failed [of i "repository svc" nxt]
  by (auto simp: persist_def split: prod.splits sum.splits)

lemma core_ok_persist:
  assumes "core_ok cr svc" "slots_ok (max_sessions svc) nxt"
  shows "core_ok cr (fst (persist (store i) nxt svc))"
  using assms store_valid [of i "repository svc" nxt]
  by (auto simp: core_ok_def persist_def split: prod.splits sum.splits)

lemma svc_ok_persist:
  assumes "svc_ok cr svc" "slots_ok (max_sessions svc) nxt"
    and "\<And>j. has_grant (svc_state svc) j \<Longrightarrow> has_grant nxt j"
  shows "svc_ok cr (fst (persist (store i) nxt svc))"
  using core_ok_persist [of svc nxt i] assms
  by (auto simp: svc_ok_def log_current_def persist_def split: prod.splits sum.splits)

lemma agrees_persist:
  assumes lossless "agrees load svc"
  shows "agrees load (fst (persist (store i) nxt svc))"
proof (cases "persist (store i) nxt svc")
  case (Pair svc' r)
  show ?thesis
  proof (cases r)
    case (Inl e)
    then show ?thesis using Pair persist_Err [of i nxt svc svc' e] assms(2) by (auto simp: agrees_def)
  next
    case (Inr u)
    then show ?thesis using Pair persist_Ok [of i nxt svc svc'] assms(1) by (auto simp: agrees_def)
  qed
qed

text \<open>Every operation under the lock keeps the invariant.\<close>

lemma svc_ok_create: "svc_ok cr svc \<Longrightarrow> svc_ok cr (fst (create_grant_commit (store i) g svc))"
  using svc_ok_persist [of svc "(svc_state svc)\<lparr>grants := grants (svc_state svc) @ [g]\<rparr>" i]
  by (auto simp: create_grant_commit_def svc_ok_def core_ok_def has_grant_def)

lemma svc_ok_update:
  assumes "svc_ok cr svc"
  shows "svc_ok cr (fst (update_grant_commit (store i) clk gid c now svc))"
proof (cases "apply_changes (svc_state svc) gid c now")
  case (Inr r)
  obtain nxt ended where r: "r = (nxt, ended)" by (cases r)
  have valid: "valid_state cr (svc_state svc)" using assms by (simp add: svc_ok_def core_ok_def)
  have "svc_ok cr (fst (persist (store i) nxt svc))"
    using apply_changes_keeps [OF valid Inr [unfolded r]] assms
    by (intro svc_ok_persist) (auto simp: svc_ok_def core_ok_def)
  then show ?thesis
    by (auto simp: update_grant_commit_def Inr r Let_def svc_ok_note_ended split: prod.splits sum.splits option.splits)
qed (use assms in \<open>simp add: update_grant_commit_def\<close>)

lemma persist_keeping:
  assumes "svc_ok cr svc" "slots_ok (max_sessions svc) nxt"
    and "\<And>j. has_grant (svc_state svc) j \<Longrightarrow> has_grant nxt j" "persist (store i) nxt svc = (svc', r)"
  shows "svc_ok cr svc'"
  using svc_ok_persist [OF assms(1-3), of i] assms(4) by simp

lemma persist_dropping:
  assumes "svc_ok cr svc" "slots_ok (max_sessions svc) nxt"
  shows "persist (store i) nxt svc = (svc', Ok u) \<Longrightarrow> core_ok cr svc'"
    and "persist (store i) nxt svc = (svc', Err e) \<Longrightarrow> svc_ok cr svc'"
proof -
  have core: "core_ok cr (fst (persist (store i) nxt svc))"
    using assms by (intro core_ok_persist) (simp_all add: svc_ok_def)
  show "persist (store i) nxt svc = (svc', Ok u) \<Longrightarrow> core_ok cr svc'" using core by simp
  show "persist (store i) nxt svc = (svc', Err e) \<Longrightarrow> svc_ok cr svc'"
    using core assms(1) persist_Err [of i nxt svc svc' e] persist_fields(3) [of "store i" nxt svc]
    by (simp add: svc_ok_def log_current_def)
qed

lemma svc_ok_revoke:
  assumes "svc_ok cr svc"
  shows "svc_ok cr (fst (revoke_grant (store i) gid svc))"
proof -
  define nxt where "nxt = (svc_state svc)\<lparr>grants := filter (\<lambda>g. g_id g \<noteq> gid) (grants (svc_state svc)),
    sessions := filter (\<lambda>s. s_grant_id s \<noteq> gid) (sessions (svc_state svc))\<rparr>"
  have "slots_ok (max_sessions svc) nxt"
    using assms by (auto simp: nxt_def svc_ok_def core_ok_def slots_ok_def)
  note persisted = persist_dropping [OF assms this]
  show ?thesis
    using assms unfolding revoke_grant_def nxt_def [symmetric]
    by (auto dest: persisted intro: svc_ok_forget split: prod.splits sum.splits)
qed

lemma svc_ok_admit:
  assumes "svc_ok cr svc"
  shows "svc_ok cr (fst (admit_commit cr' (store i) clk now token dtoken parts dparts gid name svc))"
proof -
  define kept where "kept = fst (take_expired_sessions (svc_state svc) now)"
  have kept: "slots_ok (max_sessions svc) kept" "grants kept = grants (svc_state svc)"
    using assms by (auto simp: kept_def take_expired_sessions_def svc_ok_def core_ok_def slots_ok_def)
  have persisted: "svc_ok cr svc'"
    if "persist (store i) (kept\<lparr>sessions := sessions kept @ [\<lparr>s_id = a, s_grant_id = b, s_secret_hash = c,
        s_control_secret_hash = d, s_data_plane_secret_hash = f, s_resource_slot = Some k,
        s_client_name = g, s_issued_at = h, s_expires_at = j\<rparr>]\<rparr>) svc = (svc', r)"
      "next_resource_slot kept (max_sessions svc) = Some k" for a b c d f k g h j svc' r
    using persist_keeping [OF assms _ _ that(1)] kept next_resource_slot_Some [OF that(2)]
    by (auto simp: slots_ok_def has_grant_def)
  obtain expired where split: "take_expired_sessions (svc_state svc) now = (kept, expired)"
    by (metis kept_def prod.collapse)
  show ?thesis
    using assms unfolding admit_commit_def split Let_def
    by (auto dest: persisted intro: svc_ok_note_ended split: prod.splits sum.splits option.splits if_splits)
qed

lemma svc_ok_renew:
  assumes "svc_ok cr svc"
  shows "svc_ok cr (fst (renew_commit (store i) t s g e svc))"
proof -
  have persisted: "svc_ok cr svc'" if "persist (store i) ((svc_state svc)\<lparr>sessions := update_first P
      (\<lambda>x. x\<lparr>s_expires_at := e\<rparr>) (sessions (svc_state svc))\<rparr>) svc = (svc', r)" for P svc' r
    using assms by (intro persist_keeping [OF assms _ _ that])
      (auto simp: svc_ok_def core_ok_def slots_ok_def has_grant_def dest!: set_update_first)
  show ?thesis
    using assms by (auto simp: renew_commit_def dest: persisted intro: svc_ok_note split: prod.splits sum.splits)
qed

lemma svc_ok_end:
  assumes "svc_ok cr svc"
  shows "svc_ok cr (fst (end_commit (store i) clk s e svc))"
proof -
  have persisted: "svc_ok cr svc'"
    if "persist (store i) ((svc_state svc)\<lparr>sessions := filter P (sessions (svc_state svc))\<rparr>) svc = (svc', r)"
    for P svc' r
    using assms by (intro persist_keeping [OF assms _ _ that])
      (auto simp: svc_ok_def core_ok_def slots_ok_def has_grant_def)
  show ?thesis
    by (auto simp: end_commit_def dest: persisted intro: svc_ok_note split: prod.splits sum.splits option.splits)
qed

lemma svc_ok_expire:
  assumes "svc_ok cr svc"
  shows "svc_ok cr (fst (expire_sessions (store i) clk svc))"
proof -
  obtain kept ended where kept: "take_expired_sessions (svc_state svc) (clk 0) = (kept, ended)" by fastforce
  obtain nxt forgot where nxt: "forget_stale_grants kept (clk 0) = (nxt, forgot)" by fastforce
  have "slots_ok (max_sessions svc) nxt"
    using assms kept nxt by (auto simp: forget_stale_grants_def take_expired_sessions_def Let_def svc_ok_def
        core_ok_def slots_ok_def)
  note persisted = persist_dropping [OF assms this]
  show ?thesis
    using assms unfolding expire_sessions_def Let_def kept prod.case nxt
    by (auto dest: persisted intro: svc_ok_forget core_ok_note_ended split: prod.splits sum.splits)
qed

lemma svc_ok_usage:
  assumes "svc_ok cr svc"
  shows "svc_ok cr (fst (record_usage (store i) clk moved now svc))"
proof -
  let ?next = "usage_next moved now (svc_state svc)"
  have nxt: "valid_state cr ?next" "slots_ok (max_sessions svc) ?next"
    "has_grant ?next j \<longleftrightarrow> has_grant (svc_state svc) j" for j
    using assms by (auto simp: svc_ok_def core_ok_def valid_usage_next slots_usage_next has_grant_usage_next)
  have persisted: "svc_ok cr svc'" if "persist (store i) ?next svc = (svc', r)" for svc' r
    using nxt by (intro persist_keeping [OF assms _ _ that]) auto
  have unsaved: "svc_ok cr (svc\<lparr>svc_state := ?next\<rparr>)"
    using assms nxt by (auto simp: svc_ok_def core_ok_def log_current_def)
  have stamped: "svc_ok cr x \<Longrightarrow> svc_ok cr (x\<lparr>usage_stored_at := t\<rparr>)" for x t
    by (simp add: svc_ok_def core_ok_def log_current_def)
  show ?thesis
    unfolding record_usage_alt
    using assms unsaved
    by (auto dest: persisted intro: svc_ok_note_ended stamped split: prod.splits sum.splits if_splits)
qed

lemma svc_ok_step: "svc_step cr store svc svc' \<Longrightarrow> svc_ok cr svc \<Longrightarrow> svc_ok cr svc'"
proof (induction rule: svc_step.induct)
  case (step_note svc now gid act)
  then show ?case by (simp add: svc_ok_note)
qed (auto simp: svc_ok_create svc_ok_update svc_ok_revoke svc_ok_admit svc_ok_renew svc_ok_end
      svc_ok_expire svc_ok_usage, auto simp: svc_ok_def core_ok_def log_current_def crypto_overload_def)

text \<open>So does what the disk holds: it differs from memory in running totals only.\<close>

lemma agrees_persisted:
  "lossless \<Longrightarrow> agrees load svc \<Longrightarrow> persist (store i) nxt svc = (svc', r) \<Longrightarrow> agrees load svc'"
  using agrees_persist [of svc i nxt] by simp

lemma agrees_fields [simp]:
  "agrees load (svc_note now j a svc) = agrees load svc"
  "agrees load (note_ended clk ss e svc) = agrees load svc"
  "agrees load (forget_missing_activity svc) = agrees load svc"
  "agrees load (svc\<lparr>usage_stored_at := t\<rparr>) = agrees load svc"
  "agrees load (svc\<lparr>crypto_available := n\<rparr>) = agrees load svc"
  "agrees load (crypto_overload svc) = agrees load svc"
  by (simp_all add: agrees_def crypto_overload_def)

lemma agrees_usage:
  assumes lossless "agrees load svc"
  shows "agrees load (fst (record_usage (store i) clk moved now svc))"
proof -
  have unsaved: "agrees load (svc\<lparr>svc_state := usage_next moved now (svc_state svc)\<rparr>)"
    if "\<not> usage_due moved now svc"
    using assms(2) that same_usage_next [of moved now "svc_state svc"] same_but_usage_trans
    by (fastforce simp: agrees_def usage_due_def)
  show ?thesis
    unfolding record_usage_alt using assms unsaved
    by (auto dest: agrees_persisted split: prod.splits sum.splits if_splits)
qed

lemma agrees_step:
  assumes lossless
  shows "svc_step cr store svc svc' \<Longrightarrow> agrees load svc \<Longrightarrow> agrees load svc'"
proof (induction rule: svc_step.induct)
  case (step_create svc i grant)
  then show ?case using assms by (auto simp: create_grant_commit_def intro: agrees_persist)
next
  case (step_update svc i clk gid changes now)
  then show ?case using assms
    by (auto simp: update_grant_commit_def Let_def dest: agrees_persisted
        split: prod.splits sum.splits option.splits)
next
  case (step_revoke svc i gid)
  then show ?case using assms
    by (auto simp: revoke_grant_def dest: agrees_persisted split: prod.splits sum.splits)
next
  case (step_admit svc i clk now token dtoken parts dparts gid name)
  then show ?case using assms
    by (auto simp: admit_commit_def Let_def dest: agrees_persisted
        split: prod.splits sum.splits option.splits if_splits)
next
  case (step_renew svc i t session grant expires_at)
  then show ?case using assms
    by (auto simp: renew_commit_def dest: agrees_persisted split: prod.splits sum.splits)
next
  case (step_end svc i clk session event)
  then show ?case using assms
    by (auto simp: end_commit_def dest: agrees_persisted split: prod.splits sum.splits option.splits)
next
  case (step_expire svc i clk)
  then show ?case using assms
    by (auto simp: expire_sessions_def Let_def dest: agrees_persisted split: prod.splits sum.splits)
next
  case (step_usage svc i clk moved now)
  then show ?case using assms by (simp add: agrees_usage)
qed simp_all

lemma run_svc_ok: "(svc_step cr store)\<^sup>*\<^sup>* svc svc' \<Longrightarrow> svc_ok cr svc \<Longrightarrow> svc_ok cr svc'"
  by (induction rule: rtranclp_induct) (auto dest: svc_ok_step)

lemma run_agrees:
  "(svc_step cr store)\<^sup>*\<^sup>* svc svc' \<Longrightarrow> lossless \<Longrightarrow> agrees load svc \<Longrightarrow> agrees load svc'"
  by (induction rule: rtranclp_induct) (auto dest: agrees_step)

end

subsection \<open>Loading\<close>

lemma check_slots_Ok:
  "check_slots n taken ss = Ok u \<Longrightarrow>
     distinct (slots_of ss) \<and> taken \<inter> set (slots_of ss) = {} \<and> u = taken \<union> set (slots_of ss)
     \<and> (\<forall>k \<in> set (slots_of ss). k < n)"
  by (induction n taken ss rule: check_slots.induct) (fastforce split: option.splits if_splits)+

lemma assign_slots_Ok:
  assumes "assign_slots n taken ch ss = Ok (ss', ch')" "set (slots_of ss) \<subseteq> taken"
    "distinct (slots_of ss)" "\<forall>k \<in> set (slots_of ss). k < n"
  shows "map (\<lambda>s. s\<lparr>s_resource_slot := None\<rparr>) ss' = map (\<lambda>s. s\<lparr>s_resource_slot := None\<rparr>) ss
    \<and> distinct (slots_of ss') \<and> (set (slots_of ss') - set (slots_of ss)) \<inter> taken = {}
    \<and> (\<forall>s \<in> set ss'. \<exists>k < n. s_resource_slot s = Some k)
    \<and> (\<not> ch' \<longrightarrow> ss' = ss \<and> \<not> ch)"
  using assms
proof (induction ss arbitrary: ss' ch ch' taken)
  case (Cons s ss)
  show ?case
  proof (cases "s_resource_slot s")
    case (Some k)
    then obtain rest where r: "assign_slots n taken ch ss = Ok (rest, ch')" "ss' = s # rest"
      using Cons.prems(1) by auto
    with Cons.IH [OF r(1)] Cons.prems Some show ?thesis by auto
  next
    case None
    then obtain k rest where r: "find (\<lambda>slot. slot \<notin> taken) [0..<n] = Some k"
      "assign_slots n (insert k taken) True ss = Ok (rest, ch')"
      "ss' = s\<lparr>s_resource_slot := Some k\<rparr> # rest"
      using Cons.prems(1) by auto
    have k: "k < n" "k \<notin> taken" using find_Some_mem [OF r(1)] by auto
    have ih: "map (\<lambda>s. s\<lparr>s_resource_slot := None\<rparr>) rest = map (\<lambda>s. s\<lparr>s_resource_slot := None\<rparr>) ss"
      "distinct (slots_of rest)" "(set (slots_of rest) - set (slots_of ss)) \<inter> insert k taken = {}"
      "\<forall>s \<in> set rest. \<exists>k < n. s_resource_slot s = Some k" "ch'"
      using Cons.IH [OF r(2)] Cons.prems None by auto
    have "k \<notin> set (slots_of ss)" using k(2) Cons.prems(2) None by auto
    then have "k \<notin> set (slots_of rest)" using ih(3) by auto
    with ih k show ?thesis using None r(3) by auto
  qed
qed simp

lemma prepare_unchanged:
  assumes "prepare_resource_slots now st n = Ok (st', False)"
  shows "st' = st"
proof -
  define kept where "kept = filter (\<lambda>s. now < s_expires_at s) (sessions st)"
  obtain u ss where ss: "check_slots n {} kept = Ok u"
    "assign_slots n u (length kept \<noteq> length (sessions st)) kept = Ok (ss, False)" "st' = st\<lparr>sessions := ss\<rparr>"
    using assms by (auto simp: prepare_resource_slots_def Let_def kept_def)
  have "ss = kept \<and> length kept = length (sessions st)"
    using assign_slots_Ok [OF ss(2)] check_slots_Ok [OF ss(1)] by auto
  moreover from this have "kept = sessions st"
    unfolding kept_def by (metis (mono_tags, lifting) filter_id_conv length_filter_less less_irrefl)
  ultimately show ?thesis using ss(3) by simp
qed

lemma prepare_slots_ok:
  assumes "prepare_resource_slots now st n = Ok (st', ch)"
  shows "slots_ok n st'" "grants st' = grants st" "schema_version st' = schema_version st"
proof -
  define kept where "kept = filter (\<lambda>s. now < s_expires_at s) (sessions st)"
  obtain u ss where ss: "check_slots n {} kept = Ok u"
    "assign_slots n u (length kept \<noteq> length (sessions st)) kept = Ok (ss, ch)" "st' = st\<lparr>sessions := ss\<rparr>"
    using assms by (auto simp: prepare_resource_slots_def Let_def kept_def)
  show "slots_ok n st'"
    using assign_slots_Ok [OF ss(2)] check_slots_Ok [OF ss(1)] by (auto simp: slots_ok_def ss(3))
  show "grants st' = grants st" "schema_version st' = schema_version st" by (simp_all add: ss(3))
qed

context access_repository
begin

lemma load_service_ok:
  assumes "load_service load (store i) clk d ttl n = (d', Ok svc)"
  shows "svc_ok cr svc" "lossless \<Longrightarrow> agrees load svc"
proof -
  obtain st0 st ch where st: "load d = Ok st0" "prepare_resource_slots (clk 0) st0 n = Ok (st, ch)"
    "(if ch then store i d st else (d, Ok ())) = (d', Ok ())"
    and svc: "svc = \<lparr>repository = d', svc_state = st,
      crypto_available = MAX_PENDING_CRYPTO_OPERATIONS, crypto_overloads = 0,
      session_ttl = ttl, max_sessions = n, activity = Map.empty, usage_stored_at = clk 1\<rparr>"
    using assms by (auto simp: load_service_def split: sum.splits prod.splits if_splits)
  have valid: "schema_version st = CURRENT_STATE_SCHEMA_VERSION \<and> valid_state cr st"
    and loaded: "lossless \<Longrightarrow> load d' = Ok st"
  proof -
    show "schema_version st = CURRENT_STATE_SCHEMA_VERSION \<and> valid_state cr st"
      using st load_valid [OF st(1)] store_valid [of i d st d'] prepare_unchanged [of "clk 0" st0 n st]
      by (cases ch) auto
    show "lossless \<Longrightarrow> load d' = Ok st"
      using st store_load [of i d st d'] prepare_unchanged [of "clk 0" st0 n st] by (cases ch) auto
  qed
  show "svc_ok cr svc"
    using valid prepare_slots_ok(1) [OF st(2)]
    by (simp add: svc svc_ok_def core_ok_def log_current_def log_ok_def)
  show "lossless \<Longrightarrow> agrees load svc" using loaded by (simp add: svc agrees_def)
qed

end

interpretation file_service: access_repository "load_file cr js calm" "store_file cr js" cr "json_faithful js"
  for cr js
  by unfold_locales

subsection \<open>Requests are runs of atomic steps\<close>

lemma step_svc_verify:
  "svc_verify cr s h svc = (svc', r) \<Longrightarrow> (svc_step cr store)\<^sup>*\<^sup>* svc svc'"
  by (auto simp: svc_verify_def split: if_splits intro: svc_step.intros)

lemma step_svc_hash:
  "svc_hash cr salt s svc = (svc', r) \<Longrightarrow> (svc_step cr store)\<^sup>*\<^sup>* svc svc'"
  by (auto simp: svc_hash_def split: if_splits intro: svc_step.intros)

lemma step_authenticate:
  "authenticate cr now token svc = (svc', r) \<Longrightarrow> (svc_step cr store)\<^sup>*\<^sup>* svc svc'"
  by (auto simp: authenticate_def dest: step_svc_verify split: sum.splits prod.splits option.splits if_splits)

lemma run_create_grant:
  "(svc_step cr store)\<^sup>*\<^sup>* svc (fst (create_grant cr (store i) clk rng salt q svc))"
proof -
  have commit: "(svc_step cr store)\<^sup>*\<^sup>* a b" if "create_grant_commit (store i) g a = (b, r)" for g a b r
    using that step_create [of cr store a i g] by auto
  show ?thesis
    by (auto simp: create_grant_def Let_def dest!: step_svc_hash [where store = store] commit
        split: sum.splits prod.splits if_splits intro: rtranclp_trans)
qed

lemma run_update_grant: "(svc_step cr store)\<^sup>*\<^sup>* svc (fst (update_grant (store i) clk gid c svc))"
  by (auto simp: update_grant_def Let_def intro: step_update split: sum.splits option.splits)

lemma run_create_session:
  "(svc_step cr store)\<^sup>*\<^sup>* svc (fst (create_session cr (store i) clk rng rng' t code name svc))"
proof -
  have admit: "(svc_step cr store)\<^sup>*\<^sup>* a b"
    if "admit_session cr (store i) clk rng rng' g secret n a = (b, r)" for g secret n a b r
  proof -
    have commit: "(svc_step cr store)\<^sup>*\<^sup>* x y"
      if "admit_commit cr (store i) c now tk dtk p dp gid nm x = (y, r)" for c now tk dtk p dp gid nm x y r
      using that step_admit [of cr store x i c now tk dtk p dp gid nm] by auto
    show ?thesis using that
      by (auto simp: admit_session_def Let_def dest!: step_svc_verify [where store = store] commit
          split: sum.splits prod.splits option.splits bool.splits if_splits intro: rtranclp_trans)
  qed
  have noted: "(svc_step cr store)\<^sup>*\<^sup>* a b \<Longrightarrow> (svc_step cr store)\<^sup>*\<^sup>* a (svc_note n j act b)" for a b n j act
    by (erule rtranclp.rtrancl_into_rtrancl) (rule step_note)
  show ?thesis
    by (auto simp: create_session_def dest!: admit split: sum.splits prod.splits option.splits intro: noted)
qed

lemma run_renew_session:
  "(svc_step cr store)\<^sup>*\<^sup>* svc (fst (renew_session cr (store i) clk token svc))"
proof -
  have commit: "(svc_step cr store)\<^sup>*\<^sup>* a b" if "renew_commit (store i) t s g e a = (b, r)" for t s g e a b r
    using that step_renew [of cr store a i t s g e] by auto
  show ?thesis
    by (auto simp: renew_session_def Let_def dest!: step_authenticate [where store = store] commit
        split: sum.splits prod.splits intro: rtranclp_trans)
qed

lemma run_end_session:
  "(svc_step cr store)\<^sup>*\<^sup>* svc (fst (end_session cr (store i) clk token e svc))"
proof -
  have commit: "(svc_step cr store)\<^sup>*\<^sup>* a b" if "end_commit (store i) c s ev a = (b, r)" for c s ev a b r
    using that step_end [of cr store a i c s ev] by auto
  show ?thesis
    by (auto simp: end_session_def dest!: step_authenticate [where store = store] commit
        split: sum.splits prod.splits intro: rtranclp_trans)
qed

lemma run_authenticate_data_plane:
  "(svc_step cr store)\<^sup>*\<^sup>* svc (fst (authenticate_data_plane cr clk token p u svc))"
  by (auto simp: authenticate_data_plane_def Let_def split: sum.splits option.splits intro: step_note)

subsection \<open>Properties\<close>

text \<open>
  C1: from a loaded service, after any interleaving of requests, with any of
  the writes to disk failing anywhere, the state in memory passes validation,
  every session holds a resource slot below the node's limit and no two the
  same one, and the activity log is bounded and has entries only of grants
  that exist.
\<close>

theorem service_invariant:
  assumes "load_service (load_file cr js calm) (store_file cr js io) clk d ttl n = (d', Ok svc)"
    and "(svc_step cr (store_file cr js))\<^sup>*\<^sup>* svc svc'"
  shows "validate cr (svc_state svc') = Ok ()
    \<and> (\<forall>s \<in> set (sessions (svc_state svc')). \<exists>k < max_sessions svc'. s_resource_slot s = Some k)
    \<and> distinct (slots_of (sessions (svc_state svc')))
    \<and> log_ok (activity svc') \<and> (\<forall>i. activity svc' i \<noteq> None \<longrightarrow> has_grant (svc_state svc') i)"
  using file_service.run_svc_ok [OF assms(2) file_service.load_service_ok(1) [OF assms(1)]]
  by (simp add: svc_ok_def core_ok_def log_current_def slots_ok_def validate_iff_valid_state)
    (simp add: valid_state_def)

definition sample_service :: "disk AccessService" where
  "sample_service = \<lparr>repository = \<lparr>state_file = Some [1], temporary_file = None\<rparr>, svc_state = sample_state,
     crypto_available = 32, crypto_overloads = 0, session_ttl = 300, max_sessions = 4,
     activity = Map.empty, usage_stored_at = 500\<rparr>"

lemma sample_load:
  "load_service (load_file sample_crypto sample_json calm) (store_file sample_crypto sample_json calm)
     (\<lambda>_. 500) \<lparr>state_file = Some [1], temporary_file = None\<rparr> 300 4
   = (\<lparr>state_file = Some [1], temporary_file = None\<rparr>, Ok sample_service)"
proof -
  have "load_file sample_crypto sample_json calm \<lparr>state_file = Some [1], temporary_file = None\<rparr> = Ok sample_state"
    using sample_valid(1) [folded validate_iff_valid_state]
    by (simp add: load_file_def calm_def sample_json_def MAX_STATE_FILE_BYTES_def Let_def
        CURRENT_STATE_SCHEMA_VERSION_def LEGACY_STATE_SCHEMA_VERSION_def) (simp add: sample_state_def)
  moreover have "prepare_resource_slots 500 sample_state 4 = Ok (sample_state, False)"
    by (simp add: prepare_resource_slots_def sample_state_def sample_session_def Let_def)
  ultimately show ?thesis
    by (simp add: load_service_def sample_service_def MAX_PENDING_CRYPTO_OPERATIONS_def)
qed

theorem service_invariant_witness:
  "validate sample_crypto (svc_state (fst (revoke_grant (store_file sample_crypto sample_json calm)
      (lit ''Nobody'') sample_service))) = Ok ()"
  using service_invariant [OF sample_load, of
      "fst (revoke_grant (store_file sample_crypto sample_json calm) (lit ''Nobody'') sample_service)"]
    step_revoke [of sample_crypto "store_file sample_crypto sample_json" sample_service calm "lit ''Nobody''"]
  by blast

text \<open>
  C8: what a restart would read is what is in memory, but for running totals.
  After any interleaving of requests with failing writes anywhere, reading
  the state file back succeeds and gives the grants and sessions in memory;
  only how much of an allowance is used may be behind.
\<close>

theorem disk_agrees_with_memory:
  assumes "json_faithful js"
    and "load_service (load_file cr js calm) (store_file cr js io) clk d ttl n = (d', Ok svc)"
    and "(svc_step cr (store_file cr js))\<^sup>*\<^sup>* svc svc'"
  shows "\<exists>st. load_file cr js calm (repository svc') = Ok st
    \<and> schema_version st = schema_version (svc_state svc') \<and> sessions st = sessions (svc_state svc')
    \<and> map (\<lambda>g. g\<lparr>g_usage := None\<rparr>) (grants st) = map (\<lambda>g. g\<lparr>g_usage := None\<rparr>) (grants (svc_state svc'))"
  using file_service.run_agrees [OF assms(3,1) file_service.load_service_ok(2) [OF assms(2,1)]]
  by (auto simp: agrees_def same_but_usage_def)

theorem disk_agrees_with_memory_witness:
  "\<exists>st. load_file sample_crypto sample_json calm (repository (fst (revoke_grant
      (store_file sample_crypto sample_json calm) (lit ''Grant00001'') sample_service))) = Ok st"
  using disk_agrees_with_memory [OF sample_json_faithful sample_load, of
      "fst (revoke_grant (store_file sample_crypto sample_json calm) (lit ''Grant00001'') sample_service)"]
    step_revoke [of sample_crypto "store_file sample_crypto sample_json" sample_service calm "lit ''Grant00001''"]
  by blast


end
