(* ===== verification/Access_Behaviour.thy ===== *)
theory Access_Behaviour
  imports Access_Invariants
begin

text \<open>
  What the requests of the access service do: who is let in and when, what a
  token opens, what clean-up and metering remove, and that a request that
  fails changes nothing.
\<close>

subsection \<open>Enrolment\<close>

definition live_state :: "PersistedState \<Rightarrow> nat \<Rightarrow> PersistedState" where
  "live_state st now = st\<lparr>sessions := filter (\<lambda>s. \<not> s_expires_at s \<le> now) (sessions st)\<rparr>"

lemma take_expired_eq:
  "take_expired_sessions st now = (live_state st now, filter (\<lambda>s. s_expires_at s \<le> now) (sessions st))"
  by (simp add: take_expired_sessions_def live_state_def)

lemma live_state_fields [simp]:
  "grants (live_state st now) = grants st" "schema_version (live_state st now) = schema_version st"
  by (simp_all add: live_state_def)

lemma live_all: "filter (\<lambda>s. s_expires_at s > now) (sessions (live_state st now)) = sessions (live_state st now)"
  by (auto simp: live_state_def not_le)

definition lets_in :: "AccessGrantRecord \<Rightarrow> nat \<Rightarrow> bool" where
  "lets_in g now \<longleftrightarrow> (\<forall>e. g_expires_at g = Some e \<longrightarrow> now < e) \<and> \<not> g_paused g \<and> used_up_until g now = None"

text \<open>The session an enrolment adds.\<close>

definition enrolled :: "crypto \<Rightarrow> nat \<Rightarrow> nat \<Rightarrow> AccessGrantRecord \<Rightarrow> nat \<Rightarrow> SessionTokenParts \<Rightarrow> SessionTokenParts
    \<Rightarrow> rstr \<Rightarrow> SessionRecord" where
  "enrolled cr now ttl g slot parts dparts name = \<lparr>s_id = part_id parts, s_grant_id = g_id g, s_secret_hash = None,
     s_control_secret_hash = Some (hash_token_secret cr (part_secret parts)),
     s_data_plane_secret_hash = Some (hash_token_secret cr (part_secret dparts)),
     s_resource_slot = Some slot, s_client_name = name, s_issued_at = now, s_expires_at = lease_end now ttl g\<rparr>"

lemma enrolled_fields [simp]:
  "s_id (enrolled cr now ttl g k p dp name) = part_id p" "s_grant_id (enrolled cr now ttl g k p dp name) = g_id g"
  "s_resource_slot (enrolled cr now ttl g k p dp name) = Some k"
  "s_client_name (enrolled cr now ttl g k p dp name) = name"
  "s_issued_at (enrolled cr now ttl g k p dp name) = now"
  "s_expires_at (enrolled cr now ttl g k p dp name) = lease_end now ttl g"
  "s_secret_hash (enrolled cr now ttl g k p dp name) = None"
  "s_control_secret_hash (enrolled cr now ttl g k p dp name) = Some (hash_token_secret cr (part_secret p))"
  "s_data_plane_secret_hash (enrolled cr now ttl g k p dp name) = Some (hash_token_secret cr (part_secret dp))"
  by (simp_all add: enrolled_def)

lemma admit_commit_Ok:
  "admit_commit cr store clk now token dtoken parts dparts gid name svc = (svc', Ok created) \<longleftrightarrow>
   (\<exists>g slot as svc''. find (\<lambda>c. g_id c = gid) (grants (svc_state svc)) = Some g \<and> lets_in g now
      \<and> try_map session_allocation (filter (\<lambda>s. s_expires_at s \<le> now) (sessions (svc_state svc))) = Ok as
      \<and> active_for (g_id g) now (live_state (svc_state svc) now) < g_max_connections g
      \<and> length (sessions (live_state (svc_state svc) now)) < max_sessions svc
      \<and> next_resource_slot (live_state (svc_state svc) now) (max_sessions svc) = Some slot
      \<and> \<not> list_ex (\<lambda>s. s_id s = part_id parts) (sessions (live_state (svc_state svc) now))
      \<and> persist store ((live_state (svc_state svc) now)\<lparr>sessions := sessions (live_state (svc_state svc) now)
           @ [enrolled cr now (session_ttl svc) g slot parts dparts name]\<rparr>) svc = (svc'', Ok ())
      \<and> svc' = note_ended clk (filter (\<lambda>s. s_expires_at s \<le> now) (sessions (svc_state svc))) LeaseEnded svc''
      \<and> created = \<lparr>c_token = token, c_data_plane_token = dtoken, c_id = part_id parts,
          c_grant_id = g_id g, c_resource_slot = slot, c_expired_allocations = as, c_client_name = name,
          c_expires_at = lease_end now (session_ttl svc) g, c_access_expires_at = g_expires_at g,
          c_protocols = g_protocols g, c_allowance = allowance_status g now\<rparr>)"
  (is "?lhs \<longleftrightarrow> ?rhs")
proof -
  have lease: "(case g_expires_at g of None \<Rightarrow> sat_add64 now (session_ttl svc)
      | Some e \<Rightarrow> min (sat_add64 now (session_ttl svc)) e) = lease_end now (session_ttl svc) g" for g
    by (simp add: lease_end_def Let_def)
  show ?thesis
    unfolding admit_commit_def take_expired_eq prod.case Let_def live_all lease
      enrolled_def [symmetric] enrolled_fields
    by (auto simp: lets_in_def not_le split: sum.splits option.splits prod.splits if_splits)
qed

lemma active_for_live: "active_for i now (live_state st now) = active_for i now st"
  by (simp add: active_for_def live_state_def) (metis (mono_tags, lifting) not_le)

lemma lease_end_bounds:
  "lease_end now ttl g \<le> now + ttl" "g_expires_at g = Some e \<Longrightarrow> lease_end now ttl g \<le> e"
  by (auto simp: lease_end_def Let_def sat_add64_def split: option.splits)

lemma persist_state: "persist store nxt svc = (svc', Ok ()) \<Longrightarrow> svc_state svc' = nxt \<and> max_sessions svc' = max_sessions svc"
  by (auto simp: persist_def split: prod.splits sum.splits)

subsection \<open>Tokens\<close>

lemma find_session_Ok:
  "find_session st i = Ok (s, g) \<longleftrightarrow> find (\<lambda>s. s_id s = i) (sessions st) = Some s
     \<and> find (\<lambda>g. g_id g = s_grant_id s) (grants st) = Some g"
  by (auto simp: find_session_def)

lemma authenticate_Ok:
  assumes "authenticate cr now token svc = (svc', Ok (s, g))"
  shows "length token = 44" "list_all is_alnum token"
    "find (\<lambda>s. s_id s = take 12 token) (sessions (svc_state svc)) = Some s"
    "find (\<lambda>g. g_id g = s_grant_id s) (grants (svc_state svc)) = Some g"
    "admits s g now" "svc' = svc"
    "s_control_secret_hash s = Some h \<Longrightarrow> s_secret_hash s = None \<and> hash_token_secret cr (drop 12 token) = h"
    "s_control_secret_hash s = None \<Longrightarrow>
       \<exists>h. s_secret_hash s = Some h \<and> verify_secret cr (drop 12 token) h"
  using assms
  by (auto simp: authenticate_def split_session_token_Ok find_session_Ok verify_token_secret_def svc_verify_def
      split: sum.splits prod.splits option.splits if_splits)

lemma verify_data_plane_Ok:
  assumes "verify_data_plane cr now parts protocol username st = Ok v"
  obtains s g slot where "find (\<lambda>s. s_id s = part_id parts) (sessions st) = Some s"
    "find (\<lambda>g. g_id g = s_grant_id s) (grants st) = Some g"
    "s_data_plane_secret_hash s = Some (hash_token_secret cr (part_secret parts))" "admits s g now"
    "allows (g_protocols g) protocol" "\<forall>u. username = Some u \<longrightarrow> u = part_id parts"
    "s_resource_slot s = Some slot" "v = session_view s g slot (s_expires_at s) now"
  using assms
  by (auto simp: verify_data_plane_def find_session_Ok verify_token_secret_def required_resource_slot_def
      split: if_splits)

subsection \<open>Properties\<close>

text \<open>
  C2: an enrolment never exceeds a limit. When a device is let in, its grant
  is neither expired nor paused nor out of data; afterwards the grant has at
  most as many live devices as it allows and the node at most as many as it
  has slots; the new session holds a slot no live session held, ends within
  the session lifetime and no later than the grant; and the live sessions of
  others are untouched, the expired ones reported for disconnection.
\<close>

theorem enrolment_within_limits:
  assumes "admit_commit cr store clk now token dtoken parts dparts gid name svc = (svc', Ok created)"
    and "valid_state cr (svc_state svc)"
  shows "\<exists>g. g \<in> set (grants (svc_state svc)) \<and> g_id g = gid \<and> lets_in g now
    \<and> active_for gid now (svc_state svc') \<le> g_max_connections g
    \<and> length (sessions (svc_state svc')) \<le> max_sessions svc'
    \<and> c_resource_slot created < max_sessions svc'
    \<and> c_resource_slot created \<notin> set (slots_of (filter (\<lambda>s. now < s_expires_at s) (sessions (svc_state svc))))
    \<and> c_expires_at created \<le> now + session_ttl svc
    \<and> (\<forall>e. g_expires_at g = Some e \<longrightarrow> c_expires_at created \<le> e)
    \<and> grants (svc_state svc') = grants (svc_state svc)
    \<and> (\<exists>s. sessions (svc_state svc') = filter (\<lambda>s. now < s_expires_at s) (sessions (svc_state svc)) @ [s]
         \<and> s_id s = c_id created \<and> s_grant_id s = gid \<and> s_expires_at s = c_expires_at created)
    \<and> map alloc_id (c_expired_allocations created)
        = map s_id (filter (\<lambda>s. s_expires_at s \<le> now) (sessions (svc_state svc)))"
proof -
  obtain g slot as svc'' where g: "find (\<lambda>c. g_id c = gid) (grants (svc_state svc)) = Some g" "lets_in g now"
    and as: "try_map session_allocation (filter (\<lambda>s. s_expires_at s \<le> now) (sessions (svc_state svc))) = Ok as"
    and room: "active_for (g_id g) now (live_state (svc_state svc) now) < g_max_connections g"
      "length (sessions (live_state (svc_state svc) now)) < max_sessions svc"
    and slot: "next_resource_slot (live_state (svc_state svc) now) (max_sessions svc) = Some slot"
    and stored: "persist store ((live_state (svc_state svc) now)\<lparr>sessions := sessions (live_state (svc_state svc) now)
           @ [enrolled cr now (session_ttl svc) g slot parts dparts name]\<rparr>) svc = (svc'', Ok ())"
    and svc': "svc' = note_ended clk (filter (\<lambda>s. s_expires_at s \<le> now) (sessions (svc_state svc))) LeaseEnded svc''"
    and created: "created = \<lparr>c_token = token, c_data_plane_token = dtoken, c_id = part_id parts,
          c_grant_id = g_id g, c_resource_slot = slot, c_expired_allocations = as, c_client_name = name,
          c_expires_at = lease_end now (session_ttl svc) g, c_access_expires_at = g_expires_at g,
          c_protocols = g_protocols g, c_allowance = allowance_status g now\<rparr>"
    using assms(1) unfolding admit_commit_Ok by blast
  have g': "g \<in> set (grants (svc_state svc))" "g_id g = gid" using find_Some_mem [OF g(1)] by auto
  have st: "svc_state svc' = (live_state (svc_state svc) now)\<lparr>sessions := sessions (live_state (svc_state svc) now)
      @ [enrolled cr now (session_ttl svc) g slot parts dparts name]\<rparr>" "max_sessions svc' = max_sessions svc"
    using persist_state [OF stored] by (simp_all add: svc')
  have live: "sessions (live_state (svc_state svc) now) = filter (\<lambda>s. now < s_expires_at s) (sessions (svc_state svc))"
    by (simp add: live_state_def not_le)
  have "active_for gid now (svc_state svc') \<le> g_max_connections g"
    using room(1) g'(2) by (simp add: st active_for_def)
  moreover have "slot < max_sessions svc" "slot \<notin> set (slots_of (filter (\<lambda>s. now < s_expires_at s) (sessions (svc_state svc))))"
    using next_resource_slot_Some [OF slot] by (simp_all add: live)
  ultimately show ?thesis
    using g' g(2) room(2) lease_end_bounds(1) [of now "session_ttl svc" g]
      lease_end_bounds(2) [of g _ now "session_ttl svc"] allocations_ids [OF as]
    by (intro exI [of _ g]) (simp add: st created live)
qed

definition sample_parts :: SessionTokenParts where
  "sample_parts = \<lparr>part_id = lit ''Session00009'', part_secret = lit ''abcdefghijklmnopqrstuvwxyz012345''\<rparr>"

lemma sample_eq: "(lit a = lit b) = (a = b)"
  by (simp add: lit_def inj_map_eq_map inj_on_def)

lemma sample_admit:
  "\<exists>svc' created. admit_commit sample_crypto (\<lambda>d st. (d, Ok ())) (\<lambda>_. 600) 600 (lit ''t'') (lit ''u'')
     sample_parts sample_parts (lit ''Grant00001'') (lit ''Laptop'') sample_service = (svc', Ok created)
     \<and> c_resource_slot created = 1 \<and> c_expires_at created = 900"
proof -
  have used: "used_up_until sample_grant 600 = None"
    by (simp add: used_up_until_def allowance_status_def used_def is_used_up_def sample_grant_def)
  have "find (\<lambda>c. g_id c = lit ''Grant00001'') (grants sample_state) = Some sample_grant"
    by (simp add: sample_state_def sample_grant_def)
  then show ?thesis
    using used
    by (simp add: admit_commit_Ok lets_in_def sample_service_def live_state_def active_for_def persist_def
        next_resource_slot_def sample_parts_def lease_end_def sat_add64_def u64_max_def)
      (simp add: sample_defs sample_eq upt_rec)
qed

theorem enrolment_within_limits_witness:
  "\<exists>(svc' :: disk AccessService) (created :: CreatedSession). active_for (lit ''Grant00001'') 600 (svc_state svc') \<le> 2
     \<and> c_resource_slot created \<notin> set (slots_of (filter (\<lambda>s. 600 < s_expires_at s) (sessions (svc_state (sample_service)))))
     \<and> c_expires_at created = 900"
proof -
  obtain svc' created where run: "admit_commit sample_crypto (\<lambda>d st. (d, Ok ())) (\<lambda>_. 600) 600 (lit ''t'') (lit ''u'')
     sample_parts sample_parts (lit ''Grant00001'') (lit ''Laptop'') sample_service = (svc', Ok created)"
    "c_expires_at created = 900"
    using sample_admit by blast
  have "valid_state sample_crypto (svc_state sample_service)"
    using sample_valid(1) by (simp add: sample_service_def)
  from enrolment_within_limits [OF run(1) this] obtain g where "g \<in> set (grants (svc_state sample_service))"
    "active_for (lit ''Grant00001'') 600 (svc_state svc') \<le> g_max_connections g"
    "c_resource_slot created \<notin> set (slots_of (filter (\<lambda>s. 600 < s_expires_at s) (sessions (svc_state (sample_service)))))"
    by blast
  moreover from this have "g_max_connections g = 2"
    by (simp add: sample_service_def sample_state_def sample_grant_def)
  ultimately show ?thesis using run(2) by (intro exI [of _ svc'] exI [of _ created]) simp
qed

text \<open>
  C3: a control token opens only its own session, and only while that session
  is let in. When authentication returns a session, the session's ID is the
  public part of the token, its stored hash is the hash of the token's
  secret part (or accepts it, for a legacy hash), its lease is current, its
  grant is the one it was issued under, and that grant is neither paused nor
  expired nor out of data. Authentication changes nothing.
\<close>

theorem token_opens_its_session:
  assumes "authenticate cr now token svc = (svc', Ok (s, g))"
  shows "s \<in> set (sessions (svc_state svc)) \<and> s_id s = take 12 token
    \<and> (s_control_secret_hash s = Some (hash_token_secret cr (drop 12 token))
       \<or> (\<exists>h. s_secret_hash s = Some h \<and> verify_secret cr (drop 12 token) h))
    \<and> g \<in> set (grants (svc_state svc)) \<and> g_id g = s_grant_id s \<and> now < s_expires_at s \<and> lets_in g now
    \<and> svc' = svc"
proof -
  note facts = authenticate_Ok [OF assms]
  have "s_control_secret_hash s = Some (hash_token_secret cr (drop 12 token))
       \<or> (\<exists>h. s_secret_hash s = Some h \<and> verify_secret cr (drop 12 token) h)"
    using facts(7,8) by (cases "s_control_secret_hash s") auto
  moreover have "now < s_expires_at s \<and> lets_in g now"
    using facts(5) by (auto simp: admits_def lets_in_def split: option.splits)
  ultimately show ?thesis
    using find_Some_mem [OF facts(3)] find_Some_mem [OF facts(4)] facts(6) by blast
qed

definition sample_token :: rstr where
  "sample_token = lit ''Session00001'' @ replicate 32 65"

lemma sample_authenticate:
  "authenticate sample_crypto 600 sample_token sample_service = (sample_service, Ok (sample_session, sample_grant))"
proof -
  have "used_up_until sample_grant 600 = None"
    by (simp add: used_up_until_def allowance_status_def used_def is_used_up_def sample_grant_def)
  moreover have "find_session sample_state (lit ''Session00001'') = Ok (sample_session, sample_grant)"
    by (simp add: find_session_def sample_defs sample_eq)
  moreover have "split_session_token sample_token
      = Ok \<lparr>part_id = lit ''Session00001'', part_secret = replicate 32 65\<rparr>"
    by (simp add: split_session_token_Ok sample_token_def lit_def char_class_defs numeral_eq_Suc)
  ultimately show ?thesis
    by (simp add: authenticate_def sample_service_def admits_def)
      (simp add: sample_session_def sample_grant_def verify_token_secret_def hash_token_secret_def
        sample_crypto_def admits_def)
qed

theorem token_opens_its_session_witness:
  "s_control_secret_hash sample_session = Some (hash_token_secret sample_crypto (drop 12 sample_token))
   \<and> s_id sample_session = take 12 sample_token"
  using token_opens_its_session [OF sample_authenticate] by (simp add: sample_session_def)

text \<open>
  C4: a device signs in to a protocol's server only with the data-plane token
  of its own live session and only over a protocol its grant allows. OpenVPN's
  user name, when given, must be the session's ID.
\<close>

theorem data_plane_sign_in_sound:
  assumes "authenticate_data_plane cr clk token protocol username svc = (svc', Ok v)"
  shows "\<exists>s g. s \<in> set (sessions (svc_state svc)) \<and> s_id s = take 12 token
    \<and> s_data_plane_secret_hash s = Some (hash_token_secret cr (drop 12 token))
    \<and> g \<in> set (grants (svc_state svc)) \<and> g_id g = s_grant_id s \<and> allows (g_protocols g) protocol
    \<and> clk 0 < s_expires_at s \<and> lets_in g (clk 0) \<and> (username = None \<or> username = Some (s_id s))
    \<and> v_id v = s_id s \<and> v_grant_id v = g_id g \<and> svc_state svc' = svc_state svc"
proof -
  obtain parts where parts: "split_session_token token = Ok parts"
    and result: "verify_data_plane cr (clk 0) parts protocol username (svc_state svc) = Ok v"
    and same: "svc_state svc' = svc_state svc"
    using assms by (auto simp: authenticate_data_plane_def Let_def split: sum.splits option.splits)
  from result obtain s g slot where f: "find (\<lambda>s. s_id s = part_id parts) (sessions (svc_state svc)) = Some s"
    "find (\<lambda>g. g_id g = s_grant_id s) (grants (svc_state svc)) = Some g"
    "s_data_plane_secret_hash s = Some (hash_token_secret cr (part_secret parts))" "admits s g (clk 0)"
    "allows (g_protocols g) protocol" "\<forall>u. username = Some u \<longrightarrow> u = part_id parts"
    "v = session_view s g slot (s_expires_at s) (clk 0)"
    by (rule verify_data_plane_Ok)
  have "clk 0 < s_expires_at s \<and> lets_in g (clk 0)"
    using f(4) by (auto simp: admits_def lets_in_def split: option.splits)
  moreover have "part_id parts = take 12 token" "part_secret parts = drop 12 token"
    using parts by (simp_all add: split_session_token_Ok)
  ultimately show ?thesis
    using find_Some_mem [OF f(1)] find_Some_mem [OF f(2)] f(3,5,6) same
    by (intro exI [of _ s] exI [of _ g]) (cases username; simp add: f(7) session_view_def)
qed

theorem data_plane_sign_in_sound_witness:
  "\<exists>s g. s \<in> set (sessions sample_state) \<and> g \<in> set (grants sample_state) \<and> allows (g_protocols g) WireGuard
     \<and> s_id s = lit ''Session00001''"
proof -
  define svc where "svc = sample_service"
  have split: "split_session_token (lit ''Session00001'' @ replicate 32 66)
      = Ok \<lparr>part_id = lit ''Session00001'', part_secret = replicate 32 66\<rparr>"
    by (simp add: split_session_token_Ok lit_def char_class_defs numeral_eq_Suc)
  have "used_up_until sample_grant 600 = None"
    by (simp add: used_up_until_def allowance_status_def used_def is_used_up_def sample_grant_def)
  moreover have "find_session sample_state (lit ''Session00001'') = Ok (sample_session, sample_grant)"
    by (simp add: find_session_def sample_defs sample_eq)
  ultimately have "\<exists>v. verify_data_plane sample_crypto 600 \<lparr>part_id = lit ''Session00001'', part_secret = replicate 32 66\<rparr>
      WireGuard None sample_state = Ok v"
    by (simp add: verify_data_plane_def admits_def)
      (simp add: sample_session_def sample_grant_def allows_def verify_token_secret_def hash_token_secret_def
        sample_crypto_def required_resource_slot_def)
  then obtain v svc' where "authenticate_data_plane sample_crypto (\<lambda>_. 600) (lit ''Session00001'' @ replicate 32 66)
      WireGuard None sample_service = (svc', Ok v)"
    by (auto simp: authenticate_data_plane_def split sample_service_def Let_def)
  from data_plane_sign_in_sound [OF this] show ?thesis
    by (simp add: sample_service_def lit_def) blast
qed

subsection \<open>Failures\<close>

lemma persist_Err_state: "persist store nxt svc = (svc', Err e) \<Longrightarrow> svc_state svc' = svc_state svc"
  by (auto simp: persist_def split: prod.splits sum.splits)

lemma admit_commit_Err:
  "admit_commit cr store clk now token dtoken parts dparts gid name svc = (svc', Err e) \<Longrightarrow>
     svc_state svc' = svc_state svc"
  by (auto simp: admit_commit_def Let_def take_expired_eq dest: persist_Err_state
      split: sum.splits prod.splits option.splits if_splits)

lemma admit_session_Err:
  "admit_session cr store clk rng rng' g secret name svc = (svc', Err e) \<Longrightarrow> svc_state svc' = svc_state svc"
  by (auto simp: admit_session_def Let_def svc_verify_def crypto_overload_def dest: admit_commit_Err
      split: sum.splits prod.splits option.splits if_splits bool.splits)

lemma authenticate_state: "authenticate cr now token svc = (svc', r) \<Longrightarrow> svc_state svc' = svc_state svc"
  by (auto simp: authenticate_def svc_verify_def crypto_overload_def
      split: sum.splits prod.splits option.splits if_splits)

lemma authenticate_slot:
  assumes "slots_ok n (svc_state svc)" "authenticate cr now token svc = (svc', Ok (s, g))"
  shows "\<exists>k. s_resource_slot s = Some k"
  using assms find_Some_mem [OF authenticate_Ok(3) [OF assms(2)]] by (fastforce simp: slots_ok_def)

lemma update_finds_grant:
  assumes "valid_state cr (svc_state svc)" "apply_changes (svc_state svc) i c now = Ok (nxt, ended)"
  shows "find (\<lambda>g. g_id g = i) (grants nxt) \<noteq> None"
proof -
  have "has_grant (svc_state svc) i"
    using assms(2) by (auto simp: apply_changes_Ok [OF assms(1)] has_grant_iff)
  then have "has_grant nxt i" using apply_changes_keeps(2) [OF assms] by simp
  then show ?thesis by (auto simp: has_grant_def list_ex_iff find_None_iff)
qed

lemma update_commit_Err:
  assumes "valid_state cr (svc_state svc)" "update_grant_commit store clk i c now svc = (svc', Err e)"
  shows "svc_state svc' = svc_state svc"
proof (cases "apply_changes (svc_state svc) i c now")
  case (Inr r)
  obtain nxt ended where r: "r = (nxt, ended)" by (cases r)
  obtain a where "find (\<lambda>g. g_id g = i) (grants nxt) = Some a"
    using update_finds_grant [OF assms(1) Inr [unfolded r]] by blast
  then show ?thesis
    using assms(2) by (auto simp: update_grant_commit_def Inr r Let_def dest: persist_Err_state persist_state
        split: sum.splits prod.splits option.splits)
qed (use assms(2) in \<open>auto simp: update_grant_commit_def\<close>)


lemma sample_svc_ok: "svc_ok sample_crypto sample_service"
  by (rule file_service.load_service_ok(1) [OF sample_load])


subsection \<open>Clean-up and metering\<close>

lemma forget_stale_sessions:
  assumes "valid_state cr st" "\<forall>s \<in> set (sessions st). now < s_expires_at s"
  shows "sessions (fst (forget_stale_grants st now)) = sessions st"
proof -
  have "s_grant_id s \<notin> g_id ` set (filter (stale now) (grants st))" if s: "s \<in> set (sessions st)" for s
  proof
    assume "s_grant_id s \<in> g_id ` set (filter (stale now) (grants st))"
    then obtain g e where g: "g \<in> set (grants st)" "g_id g = s_grant_id s" "g_expires_at g = Some e"
      "EXPIRED_GRANT_RETENTION_SECONDS \<le> now - e"
      by (auto simp: stale_def)
    obtain g' where "g' \<in> set (grants st)" "g_id g' = s_grant_id s"
      "\<forall>e. g_expires_at g' = Some e \<longrightarrow> s_expires_at s \<le> e"
      using assms(1) s by (auto simp: valid_state_def within_grant_def)
    moreover have "g' = g"
      using assms(1) g(1,2) calculation(1,2) by (auto simp: valid_state_def intro: distinct_map_inj)
    ultimately have "s_expires_at s \<le> e" using g(3) by simp
    moreover have "now < s_expires_at s" using assms(2) s by blast
    ultimately show False using g(4) by (simp add: EXPIRED_GRANT_RETENTION_SECONDS_def)
  qed
  then show ?thesis by (simp add: forget_stale_grants_def Let_def filter_id_conv)
qed

text \<open>
  C6: cleaning up ends exactly the leases that have run out and reports each
  of them for disconnection; forgetting invites that expired a week ago never
  drops a session that is still live, so no connected device disappears
  unreported. Exactly the grants that expired less than a week ago, or not at
  all, stay.
\<close>

theorem expiry_is_exact:
  assumes "svc_ok cr svc" "expire_sessions store clk svc = (svc', Ok expired)"
  shows "sessions (svc_state svc') = filter (\<lambda>s. clk 0 < s_expires_at s) (sessions (svc_state svc))
    \<and> map alloc_id expired = map s_id (filter (\<lambda>s. s_expires_at s \<le> clk 0) (sessions (svc_state svc)))
    \<and> grants (svc_state svc') = filter (\<lambda>g. \<not> stale (clk 0) g) (grants (svc_state svc))"
proof -
  let ?st = "svc_state svc" and ?now = "clk 0"
  obtain nxt forgot where nxt: "forget_stale_grants (live_state ?st ?now) ?now = (nxt, forgot)" by fastforce
  have valid: "valid_state cr (live_state ?st ?now)"
    using assms(1) unfolding live_state_def by (simp add: svc_ok_def core_ok_def valid_state_filter_sessions)
  have live: "sessions (live_state ?st ?now) = filter (\<lambda>s. ?now < s_expires_at s) (sessions ?st)"
    by (simp add: live_state_def not_le)
  have ss: "sessions nxt = filter (\<lambda>s. ?now < s_expires_at s) (sessions ?st)"
    using forget_stale_sessions [OF valid, of ?now] nxt by (simp add: live)
  have gs: "grants nxt = filter (\<lambda>g. \<not> stale ?now g) (grants ?st)"
    using nxt by (auto simp: forget_stale_grants_def Let_def)
  have none: "grants nxt = grants ?st" if "\<not> forgot"
    using that nxt gs by (auto simp: forget_stale_grants_def Let_def)
      (metis (mono_tags, lifting) filter_id_conv length_filter_less less_irrefl)
  obtain ended where as: "try_map session_allocation (filter (\<lambda>s. s_expires_at s \<le> ?now) (sessions ?st)) = Ok ended"
    using assms(2) by (auto simp: expire_sessions_def take_expired_eq Let_def split: sum.splits)
  note ids = allocations_ids [OF as]
  show ?thesis
  proof (cases "ended = [] \<and> \<not> forgot")
    case True
    then have "svc' = svc" "expired = []"
      using assms(2) nxt as by (auto simp: expire_sessions_def take_expired_eq Let_def)
    moreover have "filter (\<lambda>s. s_expires_at s \<le> ?now) (sessions ?st) = []" using ids True by simp
    ultimately show ?thesis using ids True none gs
      by (auto simp: filter_empty_conv filter_id_conv not_le)
  next
    case False
    then obtain svc'' where "persist store nxt svc = (svc'', Ok ())"
      "svc' = forget_missing_activity (note_ended (clk \<circ> Suc)
         (filter (\<lambda>s. s_expires_at s \<le> ?now) (sessions ?st)) LeaseEnded svc'')" "expired = ended"
      using assms(2) nxt as
      by (auto simp: expire_sessions_def take_expired_eq Let_def split: sum.splits prod.splits if_splits)
    then show ?thesis using ids ss gs persist_state by auto
  qed
qed

theorem expiry_is_exact_witness:
  "sessions (svc_state (fst (expire_sessions (\<lambda>d st. (d, Ok ())) (\<lambda>_. 2000) sample_service))) = []
   \<and> grants (svc_state (fst (expire_sessions (\<lambda>d st. (d, Ok ())) (\<lambda>_. 2000) sample_service))) = [sample_grant]"
proof -
  obtain svc' where run: "expire_sessions (\<lambda>d st. (d, Ok ())) (\<lambda>_. 2000) sample_service
      = (svc', Ok [\<lparr>alloc_id = lit ''Session00001'', alloc_slot = 0\<rparr>])"
    by (simp add: expire_sessions_def take_expired_sessions_def forget_stale_grants_def stale_def Let_def
        persist_def sample_service_def sample_defs session_allocation_def required_resource_slot_def ok_or_def)
  from expiry_is_exact [OF sample_svc_ok run] run show ?thesis
    by (simp add: sample_service_def sample_defs stale_def EXPIRED_GRANT_RETENTION_SECONDS_def)
qed

definition moved_total :: "(rstr \<rightharpoonup> nat) \<Rightarrow> SessionRecord list \<Rightarrow> nat" where
  "moved_total moved ss = sum_list (map (\<lambda>s. case moved (s_id s) of None \<Rightarrow> 0 | Some b \<Rightarrow> b) ss)"

definition count_at :: "(rstr \<rightharpoonup> nat) \<Rightarrow> rstr \<Rightarrow> nat" where
  "count_at m i = (case m i of None \<Rightarrow> 0 | Some b \<Rightarrow> b)"

lemma moved_total_Cons:
  "moved_total moved (own i (s # ss))
     = (if s_grant_id s = i then count_at moved (s_id s) else 0) + moved_total moved (own i ss)"
  by (simp add: moved_total_def own_def count_at_def)

lemma count_at_grant_moved:
  assumes "\<forall>i b. per i = Some b \<longrightarrow> b \<le> u64_max"
  shows "count_at (grant_moved moved per s) i
     = (if s_grant_id s = i then min (count_at per i + count_at moved (s_id s)) u64_max else count_at per i)"
  using assms by (auto simp: count_at_def grant_moved_def sat_add64_def min_def split: option.splits)

lemma fold_grant_moved:
  assumes "\<forall>i b. per i = Some b \<longrightarrow> 0 < b \<and> b \<le> u64_max"
  shows "foldl (grant_moved moved) per ss i
    = (let total = count_at per i + moved_total moved (own i ss)
       in if total = 0 then None else Some (min total u64_max))"
  using assms
proof (induction ss arbitrary: per)
  case Nil
  then show ?case by (auto simp: moved_total_def own_def count_at_def Let_def split: option.splits)
next
  case (Cons s ss)
  have M: "0 < u64_max" by (simp add: u64_max_def)
  have "\<forall>i b. grant_moved moved per s i = Some b \<longrightarrow> 0 < b \<and> b \<le> u64_max"
    using Cons.prems M by (auto simp: grant_moved_def sat_add64_def split: option.splits if_splits)
  note ih = Cons.IH [OF this]
  have v: "count_at (grant_moved moved per s) i
     = (if s_grant_id s = i then min (count_at per i + count_at moved (s_id s)) u64_max else count_at per i)"
    using Cons.prems by (intro count_at_grant_moved) blast
  show ?case
    unfolding foldl_Cons ih moved_total_Cons v using M by (auto simp: Let_def min_def)
qed

lemma moved_per_grant_eq:
  "moved_per_grant moved ss i = (if moved_total moved (own i ss) = 0 then None
     else Some (min (moved_total moved (own i ss)) u64_max))"
  unfolding moved_per_grant_def by (subst fold_grant_moved) (auto simp: Let_def count_at_def)

lemma usage_grants_eq:
  "usage_grants moved now st =
     map (\<lambda>g. add_usage g (min (moved_total moved (own (g_id g) (sessions st))) u64_max) now) (grants st)"
  by (auto simp: usage_grants_def count_usage_def moved_per_grant_eq add_usage_def split: option.splits)


lemma sample_usage:
  "used_up_ids [lit ''Session00001'' \<mapsto> 2097152] 700 sample_state = {lit ''Grant00001''}"
  "usage_grants [lit ''Session00001'' \<mapsto> 2097152] 700 sample_state = [add_usage sample_grant (2097152) 700]"
proof -
  have "moved_total [lit ''Session00001'' \<mapsto> 2097152] (own (lit ''Grant00001'') [sample_session]) = 2097152"
    by (simp add: moved_total_def own_def sample_session_def)
  moreover have "g_id sample_grant = lit ''Grant00001''" by (simp add: sample_grant_def)
  ultimately show gs: "usage_grants [lit ''Session00001'' \<mapsto> 2097152] 700 sample_state = [add_usage sample_grant (2097152) 700]"
    by (simp add: usage_grants_eq sample_state_def u64_max_def)
  have "used_up_until (add_usage sample_grant (2097152) 700) 700 \<noteq> None"
    by (simp add: used_up_until_def add_usage_def allowance_status_def used_def is_used_up_def sample_grant_def
        sat_add64_def u64_max_def)
  then show "used_up_ids [lit ''Session00001'' \<mapsto> 2097152] 700 sample_state = {lit ''Grant00001''}"
    unfolding used_up_ids_def gs by (auto simp: add_usage_def sample_grant_def)
qed


end
