(* ===== verification/Text_Scan.thy ===== *)
theory Text_Scan
  imports Ket_Prelude
begin

text \<open>
  The rest of the \<open>str\<close> API the program calls: splitting at a character,
  reading numbers, and the UTF-8 bytes of a text, with the lemmas that undo
  each of them.
\<close>

subsection \<open>Splitting\<close>

text \<open>\<open>value.split(c)\<close>: the parts between the separators, never none at all.\<close>

primrec split_on :: "uchar \<Rightarrow> rstr \<Rightarrow> rstr list" where
  "split_on c [] = [[]]"
| "split_on c (x # xs) = (if x = c then [] # split_on c xs
     else (case split_on c xs of [] \<Rightarrow> [[x]] | p # ps \<Rightarrow> (x # p) # ps))"

text \<open>\<open>value.split_once(c)\<close>.\<close>

definition split_once :: "uchar \<Rightarrow> rstr \<Rightarrow> (rstr \<times> rstr) option" where
  "split_once c s = (if c \<in> set s then Some (takeWhile (\<lambda>x. x \<noteq> c) s, tl (dropWhile (\<lambda>x. x \<noteq> c) s)) else None)"

fun join_with :: "uchar \<Rightarrow> rstr list \<Rightarrow> rstr" where
  "join_with c [] = []"
| "join_with c [p] = p"
| "join_with c (p # q # ps) = p @ c # join_with c (q # ps)"

lemma split_on_nonempty [simp]: "split_on c s \<noteq> []"
  by (cases s) (auto split: list.splits)

lemma join_with_Cons: "ps \<noteq> [] \<Longrightarrow> join_with c (p # ps) = p @ c # join_with c ps"
  by (cases ps) auto

lemma join_split_on [simp]: "join_with c (split_on c s) = s"
proof (induction s)
  case (Cons x xs)
  obtain p ps where ps: "split_on c xs = p # ps" using split_on_nonempty [of c xs] by (cases "split_on c xs") auto
  then have "join_with c (p # ps) = xs" using Cons.IH by simp
  then show ?case using ps by (cases ps) auto
qed simp

lemma split_on_parts: "p \<in> set (split_on c s) \<Longrightarrow> c \<notin> set p"
proof (induction s arbitrary: p)
  case (Cons x xs)
  then show ?case by (cases "split_on c xs") (auto split: if_splits)
qed simp

lemma split_on_none: "c \<notin> set p \<Longrightarrow> split_on c p = [p]"
  by (induction p) auto

lemma split_on_append: "c \<notin> set p \<Longrightarrow> split_on c (p @ c # s) = p # split_on c s"
  by (induction p) auto

lemma split_once_append [simp]: "c \<notin> set p \<Longrightarrow> split_once c (p @ c # s) = Some (p, s)"
proof -
  assume c: "c \<notin> set p"
  then have "\<And>x. x \<in> set p \<Longrightarrow> x \<noteq> c" by auto
  then have "takeWhile (\<lambda>x. x \<noteq> c) (p @ c # s) = p" "dropWhile (\<lambda>x. x \<noteq> c) (p @ c # s) = c # s"
    by (simp_all add: takeWhile_append2 dropWhile_append2)
  then show ?thesis by (simp add: split_once_def)
qed

lemma split_once_Some: "split_once c s = Some (p, r) \<longleftrightarrow> s = p @ c # r \<and> c \<notin> set p"
proof
  assume *: "split_once c s = Some (p, r)"
  then have p: "p = takeWhile (\<lambda>x. x \<noteq> c) s" "r = tl (dropWhile (\<lambda>x. x \<noteq> c) s)" and mem: "c \<in> set s"
    by (auto simp: split_once_def split: if_splits)
  obtain y ys where d: "dropWhile (\<lambda>x. x \<noteq> c) s = y # ys"
    using mem by (cases "dropWhile (\<lambda>x. x \<noteq> c) s") (auto simp: dropWhile_eq_Nil_conv)
  then have "y = c" using hd_dropWhile [of "\<lambda>x. x \<noteq> c" s] by simp
  then show "s = p @ c # r \<and> c \<notin> set p"
    using p d takeWhile_dropWhile_id [of "\<lambda>x. x \<noteq> c" s] set_takeWhileD [of c "\<lambda>x. x \<noteq> c" s] by auto
qed auto

subsection \<open>Prefixes, suffixes and letter case\<close>

definition ends_with :: "rstr \<Rightarrow> rstr \<Rightarrow> bool" where
  "ends_with s t \<longleftrightarrow> suffix t s"

definition ascii_lower :: "rstr \<Rightarrow> rstr" where
  "ascii_lower s = map (\<lambda>c. if is_upper c then c + 32 else c) s"

definition ascii_upper :: "rstr \<Rightarrow> rstr" where
  "ascii_upper s = map (\<lambda>c. if is_lower c then c - 32 else c) s"

definition strip_suffix :: "rstr \<Rightarrow> rstr \<Rightarrow> rstr option" where
  "strip_suffix s suff = (if ends_with s suff then Some (take (length s - length suff) s) else None)"

definition strip_prefix :: "rstr \<Rightarrow> rstr \<Rightarrow> rstr option" where
  "strip_prefix s pre = (if take (length pre) s = pre then Some (drop (length pre) s) else None)"

lemma strip_suffix_Some: "strip_suffix s suff = Some t \<longleftrightarrow> s = t @ suff"
  by (auto simp: strip_suffix_def ends_with_def suffix_def)

subsection \<open>Numbers\<close>

text \<open>\<open>str::parse\<close> for an unsigned type of the given largest value.\<close>

definition parse_uint :: "nat \<Rightarrow> rstr \<Rightarrow> nat option" where
  "parse_uint limit s = (let t = (case s of [] \<Rightarrow> [] | c # r \<Rightarrow> if c = 43 then r else s)
     in if t = [] \<or> \<not> list_all is_digit t \<or> digits_value t > limit then None else Some (digits_value t))"

lemma parse_uint_digits:
  "s \<noteq> [] \<Longrightarrow> list_all is_digit s \<Longrightarrow> parse_uint limit s = (if digits_value s > limit then None else Some (digits_value s))"
  by (cases s) (auto simp: parse_uint_def Let_def is_digit_def)

lemma digits_value_bound: "list_all is_digit s \<Longrightarrow> digits_value s < 10 ^ length s"
proof (induction s rule: rev_induct)
  case (snoc c s)
  then have "c - 48 \<le> 9" "digits_value s < 10 ^ length s" by (auto simp: is_digit_def)
  then show ?case by simp
qed (simp add: digits_value_def)

lemma digits_value_Nil [simp]: "digits_value [] = 0"
  by (simp add: digits_value_def)

lemma digits_value_pos: "s \<noteq> [] \<Longrightarrow> list_all is_digit s \<Longrightarrow> hd s \<noteq> 48 \<Longrightarrow> 0 < digits_value s"
proof (induction s rule: rev_induct)
  case (snoc c s)
  then show ?case by (cases "s = []") (auto simp: is_digit_def digits_value_def)
qed simp

text \<open>A number without leading zeros has one spelling.\<close>

lemma decimal_of_digits:
  "s \<noteq> [] \<Longrightarrow> list_all is_digit s \<Longrightarrow> (1 < length s \<longrightarrow> hd s \<noteq> 48) \<Longrightarrow> decimal (digits_value s) = s"
proof (induction s rule: rev_induct)
  case (snoc c s)
  have c: "48 \<le> c" "c - 48 < 10" using snoc.prems(2) by (auto simp: is_digit_def)
  show ?case
  proof (cases "s = []")
    case True
    then show ?thesis using c by (simp add: decimal.simps digits_value_def)
  next
    case False
    then have hd: "hd s \<noteq> 48" using snoc.prems(3) by (auto simp: Suc_le_eq)
    then have pos: "0 < digits_value s" using False snoc.prems(2) by (intro digits_value_pos) auto
    have "decimal (digits_value s) = s" using snoc False hd by auto
    then have dec: "decimal (digits_value s) = s" .
    obtain k where k: "c = 48 + k" "k < 10" using c by (metis le_add_diff_inverse)
    show ?thesis
      unfolding digits_value_snoc k(1) by (subst decimal.simps) (use pos k(2) dec in simp)
  qed
qed simp

lemma set_decimal: "c \<in> set (decimal n) \<Longrightarrow> is_digit c"
  using decimal_digits [of n] by (simp add: list_all_iff)

lemma str_len_ascii: "(\<And>c. c \<in> set s \<Longrightarrow> c < 128) \<Longrightarrow> str_len s = length s"
  by (induction s) (auto simp: str_len_def utf8_width_def)

lemma str_len_append [simp]: "str_len (s @ t) = str_len s + str_len t"
  by (simp add: str_len_def)

lemma str_len_digits: "list_all is_digit s \<Longrightarrow> str_len s = length s"
  by (rule str_len_ascii) (auto simp: list_all_iff is_digit_def)

subsection \<open>UTF-8\<close>

definition utf8_encode :: "uchar \<Rightarrow> nat list" where
  "utf8_encode c = (if c < 0x80 then [c]
     else if c < 0x800 then [0xC0 + c div 64, 0x80 + c mod 64]
     else if c < 0x10000 then [0xE0 + c div 4096, 0x80 + c div 64 mod 64, 0x80 + c mod 64]
     else [0xF0 + c div 262144, 0x80 + c div 4096 mod 64, 0x80 + c div 64 mod 64, 0x80 + c mod 64])"

definition str_bytes :: "rstr \<Rightarrow> nat list" where
  "str_bytes s = concat (map utf8_encode s)"

lemma length_utf8_encode [simp]: "length (utf8_encode c) = utf8_width c"
  by (simp add: utf8_encode_def utf8_width_def)

lemma length_str_bytes [simp]: "length (str_bytes s) = str_len s"
  by (induction s) (simp_all add: str_bytes_def str_len_def)

lemma utf8_encode_high: "128 \<le> c \<Longrightarrow> \<exists>b \<in> set (utf8_encode c). 128 \<le> b"
  by (auto simp: utf8_encode_def)

lemma str_bytes_ascii: "(\<And>c. c \<in> set s \<Longrightarrow> c < 128) \<Longrightarrow> str_bytes s = s"
  by (induction s) (auto simp: str_bytes_def utf8_encode_def)

text \<open>A text whose bytes are ASCII is those bytes.\<close>

lemma str_bytes_ascii_inv: "(\<And>b. b \<in> set (str_bytes s) \<Longrightarrow> b < 128) \<Longrightarrow> str_bytes s = s"
proof (rule str_bytes_ascii)
  fix c assume low: "\<And>b. b \<in> set (str_bytes s) \<Longrightarrow> b < 128" and c: "c \<in> set s"
  show "c < 128"
  proof (rule ccontr)
    assume "\<not> c < 128"
    then obtain b where "b \<in> set (utf8_encode c)" "128 \<le> b" using utf8_encode_high [of c] by auto
    then show False using low [of b] c by (auto simp: str_bytes_def)
  qed
qed

end
