(* ===== verification/Release_Version.thy ===== *)
theory Release_Version
  imports Text_Scan
begin

text \<open>
  Release versions and the identity an app sends in its \<open>Ket-Client\<close> header
  (crates/ket-update: \<open>version.rs\<close>, \<open>identity.rs\<close>).
\<close>

subsection \<open>Versions\<close>

datatype UpdateError = InvalidVersion rstr | InvalidClientHeader | InvalidManifest rstr | InvalidPolicy rstr

datatype Version = Version (major: nat) (minor: nat) (patch: nat)

text \<open>\<open>derive(Ord)\<close>: major first, then minor, then patch.\<close>

definition version_key :: "Version \<Rightarrow> nat \<times> nat \<times> nat" where
  "version_key v = (major v, minor v, patch v)"

lemma version_key_inject [simp]: "version_key v = version_key w \<longleftrightarrow> v = w"
  by (cases v; cases w) (simp add: version_key_def)

instantiation Version :: linorder
begin

definition less_eq_Version :: "Version \<Rightarrow> Version \<Rightarrow> bool" where
  "less_eq_Version v w \<longleftrightarrow> version_key v \<le> version_key w"

definition less_Version :: "Version \<Rightarrow> Version \<Rightarrow> bool" where
  "less_Version v w \<longleftrightarrow> version_key v < version_key w"

instance
  by standard (auto simp: less_eq_Version_def less_Version_def less_le_not_le dest: order_antisym)

end

definition version_part :: "rstr \<Rightarrow> rstr \<Rightarrow> UpdateError + nat" where
  "version_part whole part =
    (if part = [] \<or> str_len part > 9 \<or> \<not> list_all is_digit part \<or> (str_len part > 1 \<and> hd part = 48)
       then Err (InvalidVersion (take 32 whole))
     else ok_or (parse_uint u32_max part) (InvalidVersion (take 32 whole)))"

text \<open>The closure \<open>next\<close>: takes the next part off the iterator and reads it.\<close>

fun version_next :: "rstr \<Rightarrow> rstr list \<Rightarrow> UpdateError + (nat \<times> rstr list)" where
  "version_next whole [] = Err (InvalidVersion (take 32 whole))"
| "version_next whole (part # parts) = (case version_part whole part of
     Err e \<Rightarrow> Err e | Ok n \<Rightarrow> Ok (n, parts))"

definition version_from_str :: "rstr \<Rightarrow> UpdateError + Version" where
  "version_from_str s = (case version_next s (split_on 46 s) of Err e \<Rightarrow> Err e | Ok (a, parts) \<Rightarrow>
     (case version_next s parts of Err e \<Rightarrow> Err e | Ok (b, parts) \<Rightarrow>
     (case version_next s parts of Err e \<Rightarrow> Err e | Ok (c, parts) \<Rightarrow>
       if parts \<noteq> [] then Err (InvalidVersion (take 32 s)) else Ok (Version a b c))))"

definition version_display :: "Version \<Rightarrow> rstr" where
  "version_display v = decimal (major v) @ lit ''.'' @ decimal (minor v) @ lit ''.'' @ decimal (patch v)"

subsection \<open>Client identities\<close>

definition LEGACY_CLIENT_VERSION :: Version where
  "LEGACY_CLIENT_VERSION = Version 1 0 1"

definition MAX_HEADER_LENGTH :: nat where "MAX_HEADER_LENGTH = 64"

datatype ClientPlatform = Android | Linux | Macos | Windows

fun platform_as_str :: "ClientPlatform \<Rightarrow> rstr" where
  "platform_as_str Android = lit ''android''"
| "platform_as_str Linux = lit ''linux''"
| "platform_as_str Macos = lit ''macos''"
| "platform_as_str Windows = lit ''windows''"

definition platform_from_str :: "rstr \<Rightarrow> UpdateError + ClientPlatform" where
  "platform_from_str s = (if s = lit ''android'' then Ok Android
     else if s = lit ''linux'' then Ok Linux
     else if s = lit ''macos'' then Ok Macos
     else if s = lit ''windows'' then Ok Windows
     else Err InvalidClientHeader)"

record ClientIdentity =
  client_platform :: "ClientPlatform option"
  client_version :: Version

definition legacy_identity :: ClientIdentity where
  "legacy_identity = \<lparr>client_platform = None, client_version = LEGACY_CLIENT_VERSION\<rparr>"

definition identity_parse :: "rstr \<Rightarrow> UpdateError + ClientIdentity" where
  "identity_parse s = (if str_len s > MAX_HEADER_LENGTH then Err InvalidClientHeader
     else (case split_once 47 s of None \<Rightarrow> Err InvalidClientHeader | Some (platform, version) \<Rightarrow>
       (case platform_from_str platform of Err e \<Rightarrow> Err e | Ok p \<Rightarrow>
       (case version_from_str version of Err _ \<Rightarrow> Err InvalidClientHeader
        | Ok v \<Rightarrow> Ok \<lparr>client_platform = Some p, client_version = v\<rparr>))))"

definition identity_from_header :: "rstr option \<Rightarrow> ClientIdentity" where
  "identity_from_header value = (case value of None \<Rightarrow> legacy_identity
     | Some s \<Rightarrow> (case identity_parse s of Err _ \<Rightarrow> legacy_identity | Ok i \<Rightarrow> i))"

definition header_value :: "ClientIdentity \<Rightarrow> rstr option" where
  "header_value i = map_option (\<lambda>p. platform_as_str p @ lit ''/'' @ version_display (client_version i)) (client_platform i)"

subsection \<open>Spelling of versions\<close>

text \<open>The versions that have a spelling: no part has more than nine digits.\<close>

definition version_fits :: "Version \<Rightarrow> bool" where
  "version_fits v \<longleftrightarrow> major v < 10 ^ 9 \<and> minor v < 10 ^ 9 \<and> patch v < 10 ^ 9"

lemma u32_holds_nine_digits: "(10 :: nat) ^ 9 \<le> u32_max"
  by (simp add: u32_max_def)

lemma version_part_Ok: "version_part w p = Ok n \<longleftrightarrow> p = decimal n \<and> n < 10 ^ 9"
proof
  assume *: "version_part w p = Ok n"
  then have p: "p \<noteq> []" "length p \<le> 9" "list_all is_digit p" "1 < length p \<longrightarrow> hd p \<noteq> 48"
    by (auto simp: version_part_def str_len_digits split: if_splits)
  have "digits_value p < 10 ^ length p" using p(3) by (rule digits_value_bound)
  also have "\<dots> \<le> 10 ^ 9" using p(2) by (intro power_increasing) auto
  finally have lt: "digits_value p < 10 ^ 9" .
  then have "n = digits_value p"
    using * p(1,3) u32_holds_nine_digits by (auto simp: version_part_def parse_uint_digits split: if_splits)
  then show "p = decimal n \<and> n < 10 ^ 9" using p lt by (simp add: decimal_of_digits)
next
  assume *: "p = decimal n \<and> n < 10 ^ 9"
  then have len: "length p \<le> 9" using length_decimal_le [of n 9] by simp
  have "hd p = 48 \<Longrightarrow> length p = 1" using * decimal_no_leading_zero [of n] by (auto simp: decimal.simps)
  then show "version_part w p = Ok n"
    using * len u32_holds_nine_digits decimal_digits [of n]
    by (auto simp: version_part_def str_len_digits parse_uint_digits)
qed

lemma dot_not_in_decimal [simp]: "46 \<notin> set (decimal n)" "47 \<notin> set (decimal n)"
  using set_decimal [of 46 n] set_decimal [of 47 n] by (auto simp: is_digit_def)

lemma version_next_Ok:
  "version_next w ps = Ok (n, qs) \<longleftrightarrow> ps = decimal n # qs \<and> n < 10 ^ 9"
  by (cases ps) (auto simp: version_part_Ok)

lemma lit_dot: "lit ''.'' = [46]" "lit ''/'' = [47]"
  by (simp_all add: lit_def)

lemma split_version_display:
  "split_on 46 (version_display v) = [decimal (major v), decimal (minor v), decimal (patch v)]"
  by (simp add: version_display_def lit_dot split_on_append split_on_none)

lemma version_from_str_Ok: "version_from_str s = Ok v \<longleftrightarrow> s = version_display v \<and> version_fits v"
proof
  assume "version_from_str s = Ok v"
  then obtain a b c where v: "v = Version a b c" "a < 10 ^ 9" "b < 10 ^ 9" "c < 10 ^ 9"
    and parts: "split_on 46 s = [decimal a, decimal b, decimal c]"
    by (auto simp: version_from_str_def version_next_Ok split: if_splits)
  have "s = join_with 46 [decimal a, decimal b, decimal c]" using join_split_on [of 46 s] parts by simp
  then show "s = version_display v \<and> version_fits v"
    using v by (simp add: version_display_def lit_dot version_fits_def)
next
  assume *: "s = version_display v \<and> version_fits v"
  have "version_next s (split_on 46 s) = Ok (major v, [decimal (minor v), decimal (patch v)])"
    "version_next s [decimal (minor v), decimal (patch v)] = Ok (minor v, [decimal (patch v)])"
    "version_next s [decimal (patch v)] = Ok (patch v, [])"
    unfolding version_next_Ok using * by (simp_all add: split_version_display version_fits_def)
  then show "version_from_str s = Ok v" by (simp add: version_from_str_def)
qed

lemma platform_from_str_Ok: "platform_from_str s = Ok p \<longleftrightarrow> s = platform_as_str p"
  by (cases p) (auto simp: platform_from_str_def lit_def)

lemma platform_text: "47 \<notin> set (platform_as_str p)" "str_len (platform_as_str p) \<le> 7"
  by (cases p; simp add: lit_def str_len_def utf8_width_def)+

lemma str_len_version: "version_fits v \<Longrightarrow> str_len (version_display v) \<le> 29"
proof -
  assume v: "version_fits v"
  have "str_len (decimal n) \<le> 9" if "n < 10 ^ 9" for n
    using length_decimal_le [of n 9] that decimal_digits [of n] by (simp add: str_len_digits)
  from this [of "major v"] this [of "minor v"] this [of "patch v"] v show ?thesis
    by (simp add: version_display_def version_fits_def lit_dot) (simp add: str_len_def utf8_width_def)
qed

lemma identity_parse_Ok:
  "identity_parse s = Ok i \<longleftrightarrow> header_value i = Some s \<and> version_fits (client_version i)"
proof
  assume "identity_parse s = Ok i"
  then obtain a b p v where "split_once 47 s = Some (a, b)" "platform_from_str a = Ok p" "version_from_str b = Ok v"
    "i = \<lparr>client_platform = Some p, client_version = v\<rparr>"
    by (auto simp: identity_parse_def split: if_splits)
  then show "header_value i = Some s \<and> version_fits (client_version i)"
    by (simp add: split_once_Some platform_from_str_Ok version_from_str_Ok header_value_def lit_dot)
next
  assume *: "header_value i = Some s \<and> version_fits (client_version i)"
  then obtain p where p: "client_platform i = Some p"
    and s: "s = platform_as_str p @ 47 # version_display (client_version i)"
    by (auto simp: header_value_def lit_dot)
  have "str_len (47 # version_display (client_version i)) \<le> 30"
    using * str_len_version by (simp add: str_len_def utf8_width_def)
  then have "str_len s \<le> 64" using platform_text(2) [of p] s by simp
  moreover have "split_once 47 s = Some (platform_as_str p, version_display (client_version i))"
    using platform_text(1) [of p] s by simp
  moreover have "platform_from_str (platform_as_str p) = Ok p" by (simp add: platform_from_str_Ok)
  moreover have "version_from_str (version_display (client_version i)) = Ok (client_version i)"
    using * by (simp add: version_from_str_Ok)
  ultimately show "identity_parse s = Ok i" using p by (simp add: identity_parse_def MAX_HEADER_LENGTH_def)
qed

lemma from_header_cases:
  "(identity_from_header h = legacy_identity \<and> client_platform (identity_from_header h) = None)
   \<or> (h \<noteq> None \<and> header_value (identity_from_header h) = h)"
proof (cases h)
  case (Some s)
  show ?thesis
  proof (cases "identity_parse s")
    case (Inr i)
    then have "header_value i = Some s" by (simp add: identity_parse_Ok)
    then show ?thesis using Some Inr by (simp add: identity_from_header_def)
  qed (simp add: Some identity_from_header_def legacy_identity_def)
qed (simp add: identity_from_header_def legacy_identity_def)

subsection \<open>Properties\<close>

text \<open>
  A version has exactly one spelling. Reading a text gives a version
  exactly when the text is that version's printed form, and exactly the
  versions whose parts have at most nine digits can be read.
\<close>

theorem version_has_one_spelling:
  "version_from_str s = Ok v \<longleftrightarrow>
     s = version_display v \<and> major v < 10 ^ 9 \<and> minor v < 10 ^ 9 \<and> patch v < 10 ^ 9"
  by (simp add: version_from_str_Ok version_fits_def)

text \<open>
  The \<open>Ket-Client\<close> header an app sends names that app: whatever version an
  app reads its own from and whatever its platform, the server reads back the
  same platform and version, and a header that the server reads as some
  platform is the one an app of that platform and version sends. Everything
  else, a missing header included, counts as v1.0.1 on an unknown platform.
\<close>

theorem client_header_round_trip:
  "(version_fits v \<longrightarrow> identity_from_header (header_value \<lparr>client_platform = Some p, client_version = v\<rparr>)
       = \<lparr>client_platform = Some p, client_version = v\<rparr>)
   \<and> (client_platform (identity_from_header h) \<noteq> None \<longrightarrow> header_value (identity_from_header h) = h)
   \<and> (client_platform (identity_from_header h) = None \<longrightarrow> identity_from_header h = legacy_identity)"
proof (intro conjI impI)
  assume "version_fits v"
  then have "identity_parse (platform_as_str p @ lit ''/'' @ version_display v) = Ok \<lparr>client_platform = Some p, client_version = v\<rparr>"
    unfolding identity_parse_Ok by (simp add: header_value_def)
  then show "identity_from_header (header_value \<lparr>client_platform = Some p, client_version = v\<rparr>)
       = \<lparr>client_platform = Some p, client_version = v\<rparr>"
    by (simp add: identity_from_header_def header_value_def)
next
  assume "client_platform (identity_from_header h) \<noteq> None"
  then show "header_value (identity_from_header h) = h" using from_header_cases [of h] by auto
next
  assume "client_platform (identity_from_header h) = None"
  then show "identity_from_header h = legacy_identity"
    using from_header_cases [of h] by (auto simp: header_value_def)
qed

theorem client_header_round_trip_witness:
  "identity_from_header (Some (lit ''linux/'' @ version_display (Version 1 4 2)))
     = \<lparr>client_platform = Some Linux, client_version = Version 1 4 2\<rparr>"
  using client_header_round_trip [of "Version 1 4 2" Linux None]
  by (simp add: version_fits_def header_value_def) (simp add: lit_def)

end
