(* ===== verification/Release_Dates.thy ===== *)
theory Release_Dates
  imports Text_Scan Allowance
begin

text \<open>
  The publication dates of releases: \<open>parse_date\<close> of crates/ket-update
  \<open>manifest.rs\<close>, and that it is the inverse of the calendar the server prints
  times with (crates/ket-core \<open>allowance.rs\<close>).
\<close>

definition date_number :: "nat list \<Rightarrow> nat \<Rightarrow> nat \<Rightarrow> nat option" where
  "date_number bytes a b = (let part = take (b - a) (drop a bytes)
     in if list_all is_digit part then parse_uint u32_max part else None)"

definition month_days :: "nat \<Rightarrow> nat \<Rightarrow> nat option" where
  "month_days year month = (let leap = year mod 4 = 0 \<and> (year mod 100 \<noteq> 0 \<or> year mod 400 = 0)
     in if month \<in> {1, 3, 5, 7, 8, 10, 12} then Some 31
        else if month \<in> {4, 6, 9, 11} then Some 30
        else if month = 2 then Some (if leap then 29 else 28)
        else None)"

definition parse_date :: "rstr \<Rightarrow> nat option" where
  "parse_date s = (let bytes = str_bytes s in
     if length bytes \<noteq> 10 \<or> bytes ! 4 \<noteq> 45 \<or> bytes ! 7 \<noteq> 45 then None
     else (case date_number bytes 0 4 of None \<Rightarrow> None | Some year \<Rightarrow>
          (case date_number bytes 5 7 of None \<Rightarrow> None | Some month \<Rightarrow>
          (case date_number bytes 8 10 of None \<Rightarrow> None | Some day \<Rightarrow>
          (case month_days year month of None \<Rightarrow> None | Some mdays \<Rightarrow>
     if year < 1970 \<or> day = 0 \<or> day > mdays then None
     else let y = int year - (if month \<le> 2 then 1 else 0);
              era = y div 400;
              year_of_era = y - era * 400;
              mo = int month;
              day_of_year = (153 * (if mo > 2 then mo - 3 else mo + 9) + 2) div 5 + int day - 1;
              day_of_era = year_of_era * 365 + year_of_era div 4 - year_of_era div 100 + day_of_year;
              days = era * 146097 + day_of_era - 719468
          in if days < 0 then None else Some (nat days))))))"

subsection \<open>Dates and day numbers\<close>

text \<open>
  The year counted from March that a calendar month lies in, and the month's
  position in it.
\<close>

definition march_year :: "nat \<Rightarrow> nat \<Rightarrow> nat" where
  "march_year y m = (if m \<le> 2 then y - 1 else y)"

definition march_month :: "nat \<Rightarrow> nat" where
  "march_month m = (if m > 2 then m - 3 else m + 9)"

lemma month_index_eq: "month_day m \<le> doy \<Longrightarrow> doy < month_day (Suc m) \<Longrightarrow> month_index doy = m"
  using month_day_le_iff [of m doy] month_day_le_iff [of "Suc m" doy] by auto

lemma month_days_cases:
  assumes "month_days y m = Some md"
  shows "1 \<le> m \<and> m \<le> 12"
  using assms by (auto simp: month_days_def Let_def split: if_splits)

definition leap :: "nat \<Rightarrow> bool" where
  "leap y \<longleftrightarrow> y mod 4 = 0 \<and> (y mod 100 \<noteq> 0 \<or> y mod 400 = 0)"

lemma leap_march:
  assumes "0 < y"
  shows "year_len ((y - 1) mod 400) = (if leap y then 366 else 365)"
proof -
  have lt: "(y - 1) mod 400 < 400" by simp
  from lt show ?thesis
  proof (rule year_split)
    fix c q r assume z: "c < 4" "q < 25" "r < 4" "(y - 1) mod 400 = 100 * c + 4 * q + r"
    define h where "h = (y - 1) div 400"
    have "y - 1 = h * 400 + (100 * c + 4 * q + r)" unfolding h_def z(4) [symmetric] by simp
    then have y: "y = 400 * h + 100 * c + 4 * q + r + 1" using assms by linarith
    have m4: "y mod 4 = (r + 1) mod 4"
    proof -
      have "y = (r + 1) + 4 * (100 * h + 25 * c + q)" using y by simp
      then show ?thesis by (metis mod_mult_self2)
    qed
    have m100: "y mod 100 = (4 * q + r + 1) mod 100"
    proof -
      have "y = (4 * q + r + 1) + 100 * (4 * h + c)" using y by simp
      then show ?thesis by (metis mod_mult_self2)
    qed
    have m400: "y mod 400 = (100 * c + 4 * q + r + 1) mod 400"
    proof -
      have "y = (100 * c + 4 * q + r + 1) + 400 * h" using y by simp
      then show ?thesis by (metis mod_mult_self2)
    qed
    have "y mod 4 = 0 \<longleftrightarrow> r = 3" using m4 z(3) by (cases "r = 3") auto
    moreover have "r = 3 \<Longrightarrow> y mod 100 = 0 \<longleftrightarrow> q = 24" using m100 z(2) by (cases "q = 24") auto
    moreover have "r = 3 \<Longrightarrow> q = 24 \<Longrightarrow> y mod 400 = 0 \<longleftrightarrow> c = 3" using m400 z(1) by (cases "c = 3") auto
    ultimately have "leap y \<longleftrightarrow> r = 3 \<and> (q < 24 \<or> c = 3)" using z(2) unfolding leap_def by auto
    then show ?thesis unfolding z(4) by (simp add: year_len_split [OF z(1-3)])
  qed
qed

lemma month_days_total:
  assumes "1 \<le> m" "m \<le> 12"
  shows "\<exists>md. month_days y m = Some md"
proof -
  have "m = 1 \<or> m = 2 \<or> m = 3 \<or> m = 4 \<or> m = 5 \<or> m = 6 \<or> m = 7 \<or> m = 8 \<or> m = 9 \<or> m = 10 \<or> m = 11 \<or> m = 12"
    using assms by presburger
  then show ?thesis by (auto simp: month_days_def)
qed

lemma month_days_march:
  assumes "month_days y m = Some md" "0 < y"
  shows "month_day (march_month m) + md
    = (if march_month m < 11 then month_day (Suc (march_month m)) else year_len (march_year y m mod 400))"
proof (cases "m = 2")
  case True
  then have "md = (if leap y then 29 else 28)" using assms(1) by (simp add: month_days_def leap_def)
  then show ?thesis
    using True leap_march [OF assms(2)] by (simp add: march_month_def march_year_def month_day_def)
next
  case False
  have "1 \<le> m \<and> m \<le> 12" using month_days_cases [OF assms(1)] .
  then have "m = 1 \<or> m = 2 \<or> m = 3 \<or> m = 4 \<or> m = 5 \<or> m = 6 \<or> m = 7 \<or> m = 8 \<or> m = 9 \<or> m = 10 \<or> m = 11 \<or> m = 12"
    by presburger
  then show ?thesis using assms(1) False by (auto simp: month_days_def march_month_def month_day_def)
qed

lemma march_month_le: "1 \<le> m \<Longrightarrow> m \<le> 12 \<Longrightarrow> march_month m \<le> 11"
  by (auto simp: march_month_def)

lemma date_in_month:
  assumes "month_days y m = Some md" "0 < y" "1 \<le> d" "d \<le> md"
  defines "doy \<equiv> month_day (march_month m) + (d - 1)"
  shows "month_index doy = march_month m" "doy < year_len (march_year y m mod 400)"
proof -
  have m: "1 \<le> m \<and> m \<le> 12" using month_days_cases [OF assms(1)] .
  have lt: "doy < month_day (march_month m) + md" using assms(3,4) by (simp add: doy_def)
  have len: "year_len (march_year y m mod 400) = 365 \<or> year_len (march_year y m mod 400) = 366"
    by (rule year_len_cases) simp
  have mono: "month_day (Suc i) \<le> 337" if "i < 11" for i
    using that month_day_le_iff [of "Suc i" 337] by (simp add: month_index_def)
  show "month_index doy = march_month m"
  proof (rule month_index_eq)
    show "month_day (march_month m) \<le> doy" by (simp add: doy_def)
    show "doy < month_day (Suc (march_month m))"
    proof (cases "march_month m < 11")
      case False
      then have "march_month m = 11" using march_month_le m by fastforce
      then show ?thesis using lt month_days_march [OF assms(1,2)] len by (auto simp: month_day_def)
    qed (use lt month_days_march [OF assms(1,2)] in simp)
  qed
  show "doy < year_len (march_year y m mod 400)"
  proof (cases "march_month m < 11")
    case True
    then show ?thesis using lt month_days_march [OF assms(1,2)] mono [of "march_month m"] len by auto
  qed (use lt month_days_march [OF assms(1,2)] in simp)
qed

text \<open>Days counted from March of year 0, as a function of the date.\<close>

definition date_day :: "nat \<Rightarrow> nat \<Rightarrow> nat \<Rightarrow> nat" where
  "date_day y m d = shifted_day (march_year y m div 400) (march_year y m mod 400) (month_day (march_month m) + (d - 1))"

lemma date_day_of_march:
  assumes "1 \<le> m" "m \<le> 12" "0 < y" "1 \<le> d"
  shows "days_from_civil y m d = date_day y m d - 719468"
proof -
  define i where "i = march_month m"
  have i: "i \<le> 11" using march_month_le assms(1,2) by (simp add: i_def)
  have parts: "march_year y m mod 400 + march_year y m div 400 * 400 + (if i < 10 then 0 else 1) = y"
    "(if i < 10 then i + 3 else i - 9) = m" "Suc (d - 1) = d"
    using assms by (auto simp: i_def march_month_def march_year_def mod_div_mult_eq)
  show ?thesis
    using days_from_shifted [of "march_year y m mod 400" i "march_year y m div 400" "d - 1"] i
    unfolding parts by (simp add: date_day_def i_def)
qed

text \<open>1970-01-01 is day 719468, so dates from 1970 on are exactly those from that day on.\<close>

lemma date_day_epoch:
  assumes "month_days y m = Some md" "0 < y" "1 \<le> d" "d \<le> md"
  shows "719468 \<le> date_day y m d \<longleftrightarrow> 1970 \<le> y"
proof -
  define Y where "Y = march_year y m"
  define doy where "doy = month_day (march_month m) + (d - 1)"
  have dd: "date_day y m d = Y div 400 * 146097 + year_day (Y mod 400) + doy"
    by (simp add: date_day_def shifted_day_def Y_def doy_def)
  have idx: "month_index doy = march_month m" and doy: "doy < year_len (Y mod 400)"
    using date_in_month [OF assms] by (simp_all add: doy_def Y_def)
  have jan: "306 \<le> doy \<longleftrightarrow> m \<le> 2"
  proof -
    have "306 \<le> doy \<longleftrightarrow> 10 \<le> march_month m" using month_day_le_iff [of 10 doy] idx by (simp add: month_day_def)
    then show ?thesis using month_days_cases [OF assms(1)] by (auto simp: march_month_def)
  qed
  have next_year: "year_day (Y mod 400) + doy < 146097"
    using year_end_le [of "Y mod 400"] doy by simp
  consider "Y < 1600" | "1600 \<le> Y" "Y < 1969" | "Y = 1969" | "1969 < Y" "Y < 2000" | "2000 \<le> Y" by linarith
  then show ?thesis
  proof cases
    case 1
    then have "Y div 400 \<le> 3" by (simp add: less_mult_imp_div_less div_le_dividend flip: less_Suc_eq_le)
    then have "date_day y m d < 719468" using dd next_year by linarith
    moreover have "y < 1970" using 1 by (auto simp: Y_def march_year_def split: if_splits)
    ultimately show ?thesis by simp
  next
    case 2
    then have q: "Y div 400 = 4" "Y mod 400 = Y - 1600" by (auto simp: div_nat_eqI mod_nat_eqI)
    have "year_day (Y mod 400) + year_len (Y mod 400) \<le> year_day 369"
      using q(2) 2 year_day_next [of "Y mod 400"] year_day_mono [of "Suc (Y mod 400)" 369] by auto
    then have "date_day y m d < 719468" using dd q doy by (simp add: year_day_def)
    moreover have "y < 1970" using 2 by (auto simp: Y_def march_year_def split: if_splits)
    ultimately show ?thesis by simp
  next
    case 3
    then have "719468 \<le> date_day y m d \<longleftrightarrow> 306 \<le> doy" using dd by (simp add: year_day_def)
    moreover have "1970 \<le> y \<longleftrightarrow> m \<le> 2" using 3 by (auto simp: Y_def march_year_def split: if_splits)
    ultimately show ?thesis using jan by simp
  next
    case 4
    then have q: "Y div 400 = 4" "Y mod 400 = Y - 1600" by (auto simp: div_nat_eqI mod_nat_eqI)
    have "year_day 370 \<le> year_day (Y mod 400)" using q(2) 4 by (intro year_day_mono) auto
    then have "719468 \<le> date_day y m d" using dd q by (simp add: year_day_def)
    moreover have "1970 \<le> y" using 4 by (auto simp: Y_def march_year_def split: if_splits)
    ultimately show ?thesis by simp
  next
    case 5
    then have "5 \<le> Y div 400" by (simp add: less_eq_div_iff_mult_less_eq)
    then have "719468 \<le> date_day y m d" using dd by linarith
    moreover have "1970 \<le> y" using 5 by (auto simp: Y_def march_year_def split: if_splits)
    ultimately show ?thesis by simp
  qed
qed

lemma civil_of_date:
  assumes "month_days y m = Some md" "1970 \<le> y" "1 \<le> d" "d \<le> md"
  shows "civil_from_days (days_from_civil y m d) = (y, m, d)"
proof -
  define Y where "Y = march_year y m"
  define doy where "doy = month_day (march_month m) + (d - 1)"
  have m: "1 \<le> m" "m \<le> 12" using month_days_cases [OF assms(1)] by auto
  have pos: "0 < y" using assms(2) by simp
  have idx: "month_index doy = march_month m" and doy: "doy < year_len (Y mod 400)"
    using date_in_month [OF assms(1) pos assms(3,4)] by (simp_all add: doy_def Y_def)
  have "days_from_civil y m d + 719468 = shifted_day (Y div 400) (Y mod 400) doy"
    using date_day_of_march [OF m pos assms(3)] date_day_epoch [OF assms(1) pos assms(3,4)] assms(2)
    by (simp add: date_day_def Y_def doy_def)
  from civil_from_shifted [OF _ doy this] show ?thesis
    unfolding idx using m assms(3) pos
    by (auto simp: doy_def Y_def march_month_def march_year_def mod_div_mult_eq)
qed

subsection \<open>Reading dates\<close>

text \<open>The signed arithmetic of \<open>parse_date\<close> computes the same day number.\<close>

definition signed_days :: "nat \<Rightarrow> nat \<Rightarrow> nat \<Rightarrow> int" where
  "signed_days year month day = (let y = int year - (if month \<le> 2 then 1 else 0);
              era = y div 400;
              year_of_era = y - era * 400;
              mo = int month;
              day_of_year = (153 * (if mo > 2 then mo - 3 else mo + 9) + 2) div 5 + int day - 1;
              day_of_era = year_of_era * 365 + year_of_era div 4 - year_of_era div 100 + day_of_year
          in era * 146097 + day_of_era - 719468)"

lemma year_day_int: "int (year_day y) = int y * 365 + int y div 4 - int y div 100"
proof -
  have "y div 100 \<le> y div 4" by (simp add: div_le_mono2)
  then show ?thesis by (simp add: year_day_def of_nat_diff zdiv_int)
qed

lemma signed_days_eq:
  assumes "0 < y" "1 \<le> d"
  shows "signed_days y m d = int (date_day y m d) - 719468"
proof -
  define Y where "Y = march_year y m"
  have Y: "int y - (if m \<le> 2 then 1 else 0) = int Y" using assms(1) by (simp add: Y_def march_year_def)
  have era: "int Y div 400 = int (Y div 400)" by (simp add: zdiv_int)
  have yoe: "int Y - int (Y div 400) * 400 = int (Y mod 400)"
    using div_mult_mod_eq [of Y 400] by linarith
  have mo: "(153 * (if int m > 2 then int m - 3 else int m + 9) + 2) div 5 = int (month_day (march_month m))"
    by (auto simp: month_day_def march_month_def zdiv_int)
  show ?thesis
    unfolding signed_days_def Let_def Y era yoe mo date_day_def shifted_day_def Y_def [symmetric]
    using assms(2) year_day_int [of "Y mod 400"] by (simp add: of_nat_diff)
qed

lemma parse_date_alt:
  "parse_date s = (let bytes = str_bytes s in
     if length bytes \<noteq> 10 \<or> bytes ! 4 \<noteq> 45 \<or> bytes ! 7 \<noteq> 45 then None
     else (case date_number bytes 0 4 of None \<Rightarrow> None | Some year \<Rightarrow>
          (case date_number bytes 5 7 of None \<Rightarrow> None | Some month \<Rightarrow>
          (case date_number bytes 8 10 of None \<Rightarrow> None | Some day \<Rightarrow>
          (case month_days year month of None \<Rightarrow> None | Some mdays \<Rightarrow>
     if year < 1970 \<or> day = 0 \<or> day > mdays then None
     else if signed_days year month day < 0 then None else Some (nat (signed_days year month day)))))))"
  unfolding parse_date_def signed_days_def Let_def by (rule refl)

lemma signed_days_date:
  assumes "month_days y m = Some md" "1970 \<le> y" "1 \<le> d" "d \<le> md"
  shows "0 \<le> signed_days y m d" "nat (signed_days y m d) = days_from_civil y m d"
proof -
  have pos: "0 < y" using assms(2) by simp
  have m: "1 \<le> m" "m \<le> 12" using month_days_cases [OF assms(1)] by auto
  have "719468 \<le> date_day y m d" using date_day_epoch [OF assms(1) pos assms(3,4)] assms(2) by simp
  then show "0 \<le> signed_days y m d" "nat (signed_days y m d) = days_from_civil y m d"
    using signed_days_eq [OF pos assms(3), of m] date_day_of_march [OF m pos assms(3)] by simp_all
qed

lemma digits_value_zero: "list_all is_digit s \<Longrightarrow> digits_value (48 # s) = digits_value s"
  by (simp add: digits_value_def)

lemma zero_padded_digits:
  "s \<noteq> [] \<Longrightarrow> list_all is_digit s \<Longrightarrow> zero_padded (length s) (digits_value s) = s"
proof (induction s)
  case (Cons c s)
  show ?case
  proof (cases "s \<noteq> [] \<and> c = 48")
    case True
    then have ih: "zero_padded (length s) (digits_value s) = s" using Cons by simp
    have v: "digits_value (c # s) = digits_value s" using True Cons.prems(2) by (simp add: digits_value_zero)
    have "length (decimal (digits_value s)) \<le> length s"
      using ih unfolding zero_padded_def by (metis length_append le_add2)
    then have "zero_padded (length (c # s)) (digits_value (c # s)) = 48 # zero_padded (length s) (digits_value s)"
      unfolding v by (simp add: zero_padded_def Suc_diff_le)
    then show ?thesis using ih True by simp
  next
    case False
    then have "decimal (digits_value (c # s)) = c # s" using Cons.prems by (intro decimal_of_digits) auto
    then show ?thesis by (simp add: zero_padded_def)
  qed
qed simp

lemma zero_padded_length: "n < 10 ^ w \<Longrightarrow> 0 < w \<Longrightarrow> length (zero_padded w n) = w"
  using length_decimal_le [of n w] by (simp add: zero_padded_def)

lemma list_all_zero_padded: "list_all is_digit (zero_padded w n)"
  using decimal_digits [of n] by (auto simp: zero_padded_def list_all_iff is_digit_def)

lemma digits_value_zero_padded [simp]: "digits_value (zero_padded w n) = n"
proof -
  have "digits_value (replicate k 48 @ decimal n) = n" for k
    by (induction k) (simp_all add: digits_value_zero list_all_iff is_digit_def set_decimal
        flip: is_digit_def, simp add: digits_value_def)
  then show ?thesis by (simp add: zero_padded_def)
qed

definition date_text :: "nat \<Rightarrow> nat \<Rightarrow> nat \<Rightarrow> rstr" where
  "date_text y m d = zero_padded 4 y @ 45 # zero_padded 2 m @ 45 # zero_padded 2 d"

lemma date_bytes_split:
  assumes "length bs = 10"
  shows "bs = take 4 bs @ bs ! 4 # take 2 (drop 5 bs) @ bs ! 7 # drop 8 bs"
proof -
  obtain a b c d e f g h i j where "bs = [a, b, c, d, e, f, g, h, i, j]"
    using assms by (auto simp: numeral_eq_Suc length_Suc_conv)
  then show ?thesis by (simp add: numeral_eq_Suc)
qed

lemma date_number_Some:
  assumes "length (take (b - a) (drop a bs)) = w" "0 < w" "date_number bs a b = Some n"
  shows "take (b - a) (drop a bs) = zero_padded w n"
proof -
  define part where "part = take (b - a) (drop a bs)"
  have p: "part \<noteq> []" "list_all is_digit part" "n = digits_value part"
    using assms parse_uint_digits [of part u32_max]
    by (auto simp: date_number_def part_def Let_def split: if_splits)
  then show ?thesis using zero_padded_digits [of part] assms(1) by (simp add: part_def)
qed

lemma parse_date_Some:
  assumes "parse_date s = Some n"
  obtains y m d md where "s = date_text y m d" "1970 \<le> y" "y \<le> 9999" "month_days y m = Some md" "1 \<le> d" "d \<le> md"
    "n = days_from_civil y m d"
proof -
  define bs where "bs = str_bytes s"
  obtain y m d md where len: "length bs = 10" and dash: "bs ! 4 = 45" "bs ! 7 = 45"
    and nums: "date_number bs 0 4 = Some y" "date_number bs 5 7 = Some m" "date_number bs 8 10 = Some d"
    and md: "month_days y m = Some md" and ok: "1970 \<le> y" "1 \<le> d" "d \<le> md"
    and n: "n = nat (signed_days y m d)"
    using assms unfolding parse_date_alt Let_def bs_def [symmetric]
    by (auto split: if_splits option.splits)
  have parts: "take 4 bs = zero_padded 4 y" "take 2 (drop 5 bs) = zero_padded 2 m" "drop 8 bs = zero_padded 2 d"
    using date_number_Some [OF _ _ nums(1), of 4] date_number_Some [OF _ _ nums(2), of 2]
      date_number_Some [OF _ _ nums(3), of 2] len by simp_all
  have bs_text: "bs = date_text y m d"
    using date_bytes_split [OF len] unfolding parts dash date_text_def .
  have "b < 128" if "b \<in> set bs" for b
    using that list_all_zero_padded [of 4 y] list_all_zero_padded [of 2 m] list_all_zero_padded [of 2 d]
    unfolding bs_text date_text_def by (auto simp: list_all_iff is_digit_def)
  then have "s = date_text y m d" using str_bytes_ascii_inv [of s] bs_text by (simp add: bs_def)
  moreover have "y \<le> 9999"
  proof -
    have "length (zero_padded 4 y) = 4" unfolding parts(1) [symmetric] using len by simp
    then show ?thesis using digits_value_bound [OF list_all_zero_padded, of 4 y] by simp
  qed
  ultimately show thesis
    using that [of y m d md] md ok n signed_days_date [OF md ok(1-3)] by simp
qed

lemma month_days_le: "month_days y m = Some md \<Longrightarrow> md \<le> 31"
  by (auto simp: month_days_def Let_def split: if_splits)

lemma date_number_text:
  "list_all is_digit q \<Longrightarrow> q \<noteq> [] \<Longrightarrow> length q \<le> 4 \<Longrightarrow> a = length p \<Longrightarrow> b = length p + length q
   \<Longrightarrow> date_number (p @ q @ r) a b = Some (digits_value q)"
proof -
  assume q: "list_all is_digit q" "q \<noteq> []" "length q \<le> 4" and ab: "a = length p" "b = length p + length q"
  have "digits_value q < 10 ^ length q" using q(1) by (rule digits_value_bound)
  also have "\<dots> \<le> 10 ^ 4" using q(3) by (intro power_increasing) auto
  finally have "digits_value q \<le> u32_max" by (simp add: u32_max_def)
  then show ?thesis using q ab by (simp add: date_number_def Let_def parse_uint_digits)
qed

lemma parse_date_text:
  assumes "month_days y m = Some md" "1970 \<le> y" "y \<le> 9999" "1 \<le> d" "d \<le> md"
  shows "parse_date (date_text y m d) = Some (days_from_civil y m d)"
proof -
  define a b c where a_def: "a = zero_padded 4 y" and b_def: "b = zero_padded 2 m" and c_def: "c = zero_padded 2 d"
  have len: "length a = 4" "length b = 2" "length c = 2"
    unfolding a_def b_def c_def using assms month_days_cases [OF assms(1)] month_days_le [OF assms(1)]
    by (simp_all add: zero_padded_length)
  have dig: "list_all is_digit a" "list_all is_digit b" "list_all is_digit c"
    "digits_value a = y" "digits_value b = m" "digits_value c = d"
    unfolding a_def b_def c_def by (simp_all add: list_all_zero_padded)
  have ne: "a \<noteq> []" "b \<noteq> []" "c \<noteq> []" using len by auto
  have txt_eq: "date_text y m d = a @ 45 # b @ 45 # c" by (simp add: date_text_def a_def b_def c_def)
  have "x < 128" if "x \<in> set (date_text y m d)" for x
    using that dig(1-3) unfolding txt_eq by (auto simp: list_all_iff is_digit_def)
  then have bytes: "str_bytes (date_text y m d) = a @ 45 # b @ 45 # c" using str_bytes_ascii [of "date_text y m d"] unfolding txt_eq by blast
  have "date_number ([] @ a @ 45 # b @ 45 # c) 0 4 = Some (digits_value a)"
    by (rule date_number_text) (simp_all add: dig(1) ne len)
  moreover have "date_number ((a @ [45]) @ b @ 45 # c) 5 7 = Some (digits_value b)"
    by (rule date_number_text) (simp_all add: dig(2) ne len)
  moreover have "date_number ((a @ 45 # b @ [45]) @ c @ []) 8 10 = Some (digits_value c)"
    by (rule date_number_text) (simp_all add: dig(3) ne len)
  moreover have "(a @ 45 # b @ 45 # c) ! 4 = 45" "(a @ 45 # b @ 45 # c) ! 7 = 45"
    using len by (simp_all add: nth_append)
  ultimately show ?thesis
    unfolding parse_date_alt bytes Let_def
    using len assms signed_days_date [OF assms(1,2,4,5)] by (simp add: dig(4-6))
qed

lemma civil_valid:
  assumes "civil_from_days n = (y, m, k)"
  obtains md where "month_days y m = Some md" "k \<le> md" "1 \<le> k" "1970 \<le> y" "days_from_civil y m k = n"
proof -
  obtain e yy doy where z: "yy < 400" "doy < year_len yy" "n + 719468 = shifted_day e yy doy"
    by (rule shifted_day_cases)
  define i where "i = month_index doy"
  have i: "i \<le> 11"
    unfolding i_def using year_len_cases [OF z(1)] z(2) by (intro month_index_le) auto
  have civ: "y = yy + e * 400 + (if i < 10 then 0 else 1)" "m = (if i < 10 then i + 3 else i - 9)"
    "k = doy - month_day i + 1"
    using assms civil_from_shifted [OF z] by (auto simp: i_def)
  have m: "1 \<le> m" "m \<le> 12" using civ(2) i by auto
  have Y: "march_year y m = yy + e * 400" "march_month m = i"
    using civ(1,2) i by (auto simp: march_year_def march_month_def)
  then have Ym: "march_year y m mod 400 = yy" "march_year y m div 400 = e" using z(1) by simp_all
  have le: "month_day i \<le> doy" "doy < month_next_doy yy doy" using month_bounds [OF z(1,2)] by (simp_all add: i_def)
  have pos: "0 < y"
  proof (rule ccontr)
    assume "\<not> 0 < y"
    then have "e = 0" "yy = 0" using civ(1) by auto
    then show False using z(2,3) by (simp add: shifted_day_def year_day_def year_len_def)
  qed
  obtain md where md: "month_days y m = Some md"
    using month_days_total [OF m] by blast
  have "month_day i + md = month_next_doy yy doy"
    using month_days_march [OF md pos] unfolding Ym Y(2) by (simp add: month_next_doy_def i_def)
  then have k: "k \<le> md" "1 \<le> k" using le civ(3) by auto
  have "date_day y m k = n + 719468"
    unfolding date_day_def Ym Y(2) z(3) using civ(3) le(1) by simp
  then have "1970 \<le> y" using date_day_epoch [OF md pos k(2,1)] by simp
  then show thesis using that [OF md k] days_of_civil [OF assms] by simp
qed

lemma utc_date: "civil_from_days n = (y, m, d) \<Longrightarrow> y \<le> 9999 \<Longrightarrow> take 10 (utc_minute (n * SECONDS_PER_DAY)) = date_text y m d"
proof -
  assume c: "civil_from_days n = (y, m, d)" and y: "y \<le> 9999"
  obtain md where md: "month_days y m = Some md" "d \<le> md" using c by (rule civil_valid)
  have len: "length (zero_padded 4 y) = 4" "length (zero_padded 2 m) = 2" "length (zero_padded 2 d) = 2"
    using y md month_days_cases [OF md(1)] month_days_le [OF md(1)] by (simp_all add: zero_padded_length)
  have "n * SECONDS_PER_DAY div SECONDS_PER_DAY = n" by (simp add: SECONDS_PER_DAY_def)
  then show ?thesis
    unfolding utc_minute_def Let_def using c len by (simp add: date_text_def lit_def)
qed

subsection \<open>Properties\<close>

text \<open>
  The manifest reads dates by the calendar the server prints them with. A
  text is read as day \<open>n\<close> exactly when it is the date the server prints for
  day \<open>n\<close>, for every day up to the end of year 9999; no other text is
  accepted.
\<close>

theorem parse_date_inverts_calendar:
  "parse_date s = Some n \<longleftrightarrow>
     fst (civil_from_days n) \<le> 9999 \<and> s = take 10 (utc_minute (n * SECONDS_PER_DAY))"
proof
  assume "parse_date s = Some n"
  then obtain y m d md where *: "s = date_text y m d" "1970 \<le> y" "y \<le> 9999" "month_days y m = Some md" "1 \<le> d" "d \<le> md"
    "n = days_from_civil y m d" by (rule parse_date_Some)
  then have "civil_from_days n = (y, m, d)" using civil_of_date by simp
  then show "fst (civil_from_days n) \<le> 9999 \<and> s = take 10 (utc_minute (n * SECONDS_PER_DAY))"
    using * utc_date by simp
next
  assume *: "fst (civil_from_days n) \<le> 9999 \<and> s = take 10 (utc_minute (n * SECONDS_PER_DAY))"
  obtain y m d where c: "civil_from_days n = (y, m, d)" by (cases "civil_from_days n")
  then obtain md where "month_days y m = Some md" "d \<le> md" "1 \<le> d" "1970 \<le> y" "days_from_civil y m d = n"
    by (rule civil_valid)
  then show "parse_date s = Some n" using * c parse_date_text [of y m md d] utc_date [OF c] by simp
qed

end
