(* ===== verification/Net.thy ===== *)
theory Net
  imports Text_Scan
begin

text \<open>
  Addresses as the standard library has them, and what the crate \<open>url\<close> says of
  a text it accepts. Parsing a URL is third-party code: the operations that do
  it take it as an argument.
\<close>

unbundle bit_operations_syntax

type_synonym ipv4 = "32 word"
type_synonym ipv6 = "128 word"

datatype IpAddr = V4 ipv4 | V6 ipv6

datatype url_host = Domain rstr | Ipv4 ipv4 | Ipv6 ipv6

record parsed_url =
  url_text :: rstr
  url_scheme :: rstr
  url_host_str :: "rstr option"
  url_host :: "url_host option"
  url_port_or_known_default :: "16 word option"
  url_username :: rstr
  url_password :: "rstr option"
  url_path :: rstr
  url_query :: "rstr option"
  url_fragment :: "rstr option"

text \<open>\<open>Ipv4Addr::from([a, b, c, d])\<close> and the segments of an \<open>Ipv6Addr\<close>.\<close>

definition ipv4_of :: "nat \<Rightarrow> nat \<Rightarrow> nat \<Rightarrow> nat \<Rightarrow> ipv4" where
  "ipv4_of a b c d = of_nat (((a * 256 + b) * 256 + c) * 256 + d)"

definition ipv4_octet :: "nat \<Rightarrow> ipv4 \<Rightarrow> nat" where
  "ipv4_octet i a = unat a div 256 ^ (3 - i) mod 256"

definition ipv6_segment :: "nat \<Rightarrow> ipv6 \<Rightarrow> nat" where
  "ipv6_segment i a = unat a div 65536 ^ (7 - i) mod 65536"

definition ipv4_is_loopback :: "ipv4 \<Rightarrow> bool" where
  "ipv4_is_loopback a \<longleftrightarrow> ipv4_octet 0 a = 127"

definition ipv6_is_loopback :: "ipv6 \<Rightarrow> bool" where
  "ipv6_is_loopback a \<longleftrightarrow> a = 1"

definition ipv4_is_unspecified :: "ipv4 \<Rightarrow> bool" where
  "ipv4_is_unspecified a \<longleftrightarrow> a = 0"

definition ipv6_is_unspecified :: "ipv6 \<Rightarrow> bool" where
  "ipv6_is_unspecified a \<longleftrightarrow> a = 0"

definition ipv4_is_multicast :: "ipv4 \<Rightarrow> bool" where
  "ipv4_is_multicast a \<longleftrightarrow> 224 \<le> ipv4_octet 0 a \<and> ipv4_octet 0 a \<le> 239"

definition ipv6_is_multicast :: "ipv6 \<Rightarrow> bool" where
  "ipv6_is_multicast a \<longleftrightarrow> ipv6_segment 0 a div 256 = 255"

definition ip_is_loopback :: "IpAddr \<Rightarrow> bool" where
  "ip_is_loopback a = (case a of V4 a \<Rightarrow> ipv4_is_loopback a | V6 a \<Rightarrow> ipv6_is_loopback a)"

definition ip_is_unspecified :: "IpAddr \<Rightarrow> bool" where
  "ip_is_unspecified a = (case a of V4 a \<Rightarrow> ipv4_is_unspecified a | V6 a \<Rightarrow> ipv6_is_unspecified a)"

definition ip_is_multicast :: "IpAddr \<Rightarrow> bool" where
  "ip_is_multicast a = (case a of V4 a \<Rightarrow> ipv4_is_multicast a | V6 a \<Rightarrow> ipv6_is_multicast a)"

text \<open>\<open>Ipv4Addr::is_broadcast\<close> and \<open>Ipv6Addr::to_ipv4_mapped\<close> (\<open>::ffff:a.b.c.d\<close>).\<close>

definition ipv4_is_broadcast :: "ipv4 \<Rightarrow> bool" where
  "ipv4_is_broadcast a \<longleftrightarrow> a = - 1"

definition to_ipv4_mapped :: "ipv6 \<Rightarrow> ipv4 option" where
  "to_ipv4_mapped a = (if unat a div 2 ^ 32 = 0xffff then Some (ucast a) else None)"

text \<open>Addresses are ordered as the standard library derives it: IPv4 first, then by value.\<close>

instantiation IpAddr :: linorder
begin

definition less_eq_IpAddr :: "IpAddr \<Rightarrow> IpAddr \<Rightarrow> bool" where
  "less_eq_IpAddr a b = (case (a, b) of
     (V4 x, V4 y) \<Rightarrow> x \<le> y | (V4 _, V6 _) \<Rightarrow> True | (V6 _, V4 _) \<Rightarrow> False | (V6 x, V6 y) \<Rightarrow> x \<le> y)"

definition less_IpAddr :: "IpAddr \<Rightarrow> IpAddr \<Rightarrow> bool" where
  "less_IpAddr a b \<longleftrightarrow> a \<le> b \<and> \<not> b \<le> a"

instance
  by standard (auto simp: less_eq_IpAddr_def less_IpAddr_def split: IpAddr.splits)

end

text \<open>Networks: two addresses agree above the lowest \<open>k\<close> bits.\<close>

lemma and_top_mask: "w AND push_bit k (- 1) = push_bit k (drop_bit k (w :: 'a::len word))"
  by (rule bit_eqI) (auto simp: bit_simps)

lemma push_drop_eq:
  "push_bit k (drop_bit k (v :: 'a::len word)) = push_bit k (drop_bit k w) \<longleftrightarrow> drop_bit k v = drop_bit k w"
proof
  assume "push_bit k (drop_bit k v) = push_bit k (drop_bit k w)"
  then have "drop_bit k (push_bit k (drop_bit k v)) = drop_bit k (push_bit k (drop_bit k w))" by simp
  moreover have "drop_bit k (push_bit k (drop_bit k x)) = drop_bit k x" for x :: "'a word"
    by (rule bit_eqI) (auto simp: bit_simps dest: bit_imp_le_length)
  ultimately show "drop_bit k v = drop_bit k w" by simp
qed simp

lemma drop_bit_div: "drop_bit k (v :: 'a::len word) = drop_bit k w \<longleftrightarrow> unat v div 2 ^ k = unat w div 2 ^ k"
proof -
  have "drop_bit k v = drop_bit k w \<longleftrightarrow> unat (drop_bit k v) = unat (drop_bit k w)" by (rule word_unat_eq_iff)
  then show ?thesis unfolding unat_drop_bit_eq by (simp add: drop_bit_eq_div)
qed

end
