(* ===== verification/Update_Policy.thy ===== *)
theory Update_Policy
  imports Release_Version Release_Dates Net
begin

text \<open>
  The release manifest that rates each release, and the policy by which a
  server tells a connecting app whether it may, should or must update
  (crates/ket-update: \<open>category.rs\<close>, \<open>manifest.rs\<close>, \<open>policy.rs\<close>; the records of
  crates/ket-core \<open>update.rs\<close>; crates/ket-server \<open>updates.rs\<close>).
\<close>

subsection \<open>Ratings\<close>

datatype UpdateCategory = CatOptional | CatRecommended | CatSecurity | CatCritical

datatype ClientUpdateStatus = Current | Optional | Recommended | Security | Required

text \<open>\<open>derive(Ord)\<close> orders an enum by the position of its variants.\<close>

fun category_rank :: "UpdateCategory \<Rightarrow> nat" where
  "category_rank CatOptional = 0"
| "category_rank CatRecommended = 1"
| "category_rank CatSecurity = 2"
| "category_rank CatCritical = 3"

fun status_rank :: "ClientUpdateStatus \<Rightarrow> nat" where
  "status_rank Current = 0"
| "status_rank Optional = 1"
| "status_rank Recommended = 2"
| "status_rank Security = 3"
| "status_rank Required = 4"

lemma category_rank_inject [simp]: "category_rank a = category_rank b \<longleftrightarrow> a = b"
  by (cases a; cases b) auto

lemma status_rank_inject [simp]: "status_rank a = status_rank b \<longleftrightarrow> a = b"
  by (cases a; cases b) auto

instantiation UpdateCategory :: linorder
begin

definition less_eq_UpdateCategory :: "UpdateCategory \<Rightarrow> UpdateCategory \<Rightarrow> bool" where
  "less_eq_UpdateCategory a b \<longleftrightarrow> category_rank a \<le> category_rank b"

definition less_UpdateCategory :: "UpdateCategory \<Rightarrow> UpdateCategory \<Rightarrow> bool" where
  "less_UpdateCategory a b \<longleftrightarrow> category_rank a < category_rank b"

instance
  by standard (auto simp: less_eq_UpdateCategory_def less_UpdateCategory_def less_le_not_le dest: order_antisym)

end

instantiation ClientUpdateStatus :: linorder
begin

definition less_eq_ClientUpdateStatus :: "ClientUpdateStatus \<Rightarrow> ClientUpdateStatus \<Rightarrow> bool" where
  "less_eq_ClientUpdateStatus a b \<longleftrightarrow> status_rank a \<le> status_rank b"

definition less_ClientUpdateStatus :: "ClientUpdateStatus \<Rightarrow> ClientUpdateStatus \<Rightarrow> bool" where
  "less_ClientUpdateStatus a b \<longleftrightarrow> status_rank a < status_rank b"

instance
  by standard (auto simp: less_eq_ClientUpdateStatus_def less_ClientUpdateStatus_def less_le_not_le dest: order_antisym)

end

text \<open>\<open>Iterator::max\<close>.\<close>

fun iter_max :: "'a::linorder list \<Rightarrow> 'a option" where
  "iter_max [] = None"
| "iter_max (x # xs) = Some (foldl max x xs)"

subsection \<open>The manifest\<close>

definition MANIFEST_SCHEMA :: nat where "MANIFEST_SCHEMA = 1"
definition MAX_SUMMARY_CHARS :: nat where "MAX_SUMMARY_CHARS = 200"

record Release =
  rel_version :: Version
  rel_published :: rstr
  rel_client :: "UpdateCategory option"
  rel_server :: "UpdateCategory option"
  rel_apps :: "ClientPlatform \<rightharpoonup> UpdateCategory"
  rel_summary :: rstr
  rel_published_epoch_seconds :: nat

text \<open>The values of the map \<open>apps\<close>, in the order of its keys.\<close>

definition apps_values :: "(ClientPlatform \<rightharpoonup> UpdateCategory) \<Rightarrow> UpdateCategory list" where
  "apps_values apps = List.map_filter apps [Android, Linux, Macos, Windows]"

definition client_rating :: "Release \<Rightarrow> ClientPlatform option \<Rightarrow> UpdateCategory option" where
  "client_rating r platform = (case platform of
     Some p \<Rightarrow> if apps_values (rel_apps r) \<noteq> [] then rel_apps r p else rel_client r
   | None \<Rightarrow> rel_client r)"

record ReleaseManifest =
  man_schema :: nat
  security_grace_days :: nat
  releases :: "Release list"

definition security_grace_seconds :: "ReleaseManifest \<Rightarrow> nat" where
  "security_grace_seconds m = security_grace_days m * SECONDS_PER_DAY"

definition server_update_category :: "ReleaseManifest \<Rightarrow> Version \<Rightarrow> Version \<Rightarrow> UpdateCategory option" where
  "server_update_category m installed target = iter_max (List.map_filter id (concat
     (map (\<lambda>r. [rel_server r, rel_client r])
       (filter (\<lambda>r. rel_version r > installed \<and> rel_version r \<le> target) (releases m)))))"

definition app_update_category ::
    "ReleaseManifest \<Rightarrow> Version \<Rightarrow> Version \<Rightarrow> ClientPlatform \<Rightarrow> UpdateCategory option" where
  "app_update_category m installed target platform = iter_max (List.map_filter
     (\<lambda>r. client_rating r (Some platform))
     (filter (\<lambda>r. rel_version r > installed \<and> rel_version r \<le> target) (releases m)))"

text \<open>The loop of \<open>validate\<close>; \<open>prev\<close> is the release before, if there is one.\<close>

fun validate_releases :: "Version option \<Rightarrow> Release list \<Rightarrow> UpdateError + Release list" where
  "validate_releases prev [] = Ok []"
| "validate_releases prev (r # rs) = (
     if (case prev of None \<Rightarrow> False | Some v \<Rightarrow> v \<ge> rel_version r)
       then Err (InvalidManifest (version_display (rel_version r) @ lit '' is not newer than the release before it''))
     else (case parse_date (rel_published r) of
         None \<Rightarrow> Err (InvalidManifest (version_display (rel_version r) @ lit '' has an invalid published date''))
       | Some days \<Rightarrow>
     if trim (rel_summary r) = [] \<or> rel_summary r \<noteq> trim (rel_summary r)
        \<or> length (rel_summary r) > MAX_SUMMARY_CHARS \<or> list_ex is_control (rel_summary r)
       then Err (InvalidManifest (version_display (rel_version r) @ lit '' has an invalid summary''))
     else if apps_values (rel_apps r) \<noteq> [] \<and> rel_client r \<noteq> iter_max (apps_values (rel_apps r))
       then Err (InvalidManifest (version_display (rel_version r)
         @ lit '' needs a client rating equal to its most urgent app rating''))
     else (case validate_releases (Some (rel_version r)) rs of Err e \<Rightarrow> Err e
       | Ok rs \<Rightarrow> Ok (r\<lparr>rel_published_epoch_seconds := days * SECONDS_PER_DAY\<rparr> # rs))))"

definition manifest_validate :: "ReleaseManifest \<Rightarrow> UpdateError + ReleaseManifest" where
  "manifest_validate m = (
     if man_schema m \<noteq> MANIFEST_SCHEMA then Err (InvalidManifest (lit ''unsupported schema '' @ decimal (man_schema m)))
     else if \<not> (1 \<le> security_grace_days m \<and> security_grace_days m \<le> 365)
       then Err (InvalidManifest (lit ''security_grace_days must be 1-365''))
     else if releases m = [] then Err (InvalidManifest (lit ''there are no releases''))
     else (case validate_releases None (releases m) of Err e \<Rightarrow> Err e | Ok rs \<Rightarrow> Ok (m\<lparr>releases := rs\<rparr>)))"

text \<open>\<open>from_json\<close> stands for \<open>serde_json::from_str\<close>.\<close>

definition manifest_parse :: "(rstr \<Rightarrow> rstr + ReleaseManifest) \<Rightarrow> rstr \<Rightarrow> UpdateError + ReleaseManifest" where
  "manifest_parse from_json json = (case from_json json of Err e \<Rightarrow> Err (InvalidManifest e)
     | Ok m \<Rightarrow> manifest_validate m)"

subsection \<open>The policy\<close>

datatype Enforcement = Enforce | Warn

definition enforcement_from_str :: "rstr \<Rightarrow> UpdateError + Enforcement" where
  "enforcement_from_str s = (if s = lit ''enforce'' then Ok Enforce
     else if s = lit ''warn'' then Ok Warn
     else Err (InvalidPolicy (lit ''enforcement must be enforce or warn'')))"

record ClientPolicy =
  pol_server_version :: Version
  pol_minimum :: "Version option"
  pol_enforcement :: Enforcement
  pol_download_url :: rstr

definition policy_new :: "Version \<Rightarrow> Version option \<Rightarrow> Enforcement \<Rightarrow> rstr \<Rightarrow> UpdateError + ClientPolicy" where
  "policy_new server_version minimum enforcement download_url =
    (if (case minimum of None \<Rightarrow> False | Some m \<Rightarrow> m > server_version)
       then Err (InvalidPolicy (lit ''the minimum app version cannot be newer than this server (''
              @ version_display server_version @ lit '')''))
     else Ok \<lparr>pol_server_version = server_version, pol_minimum = minimum, pol_enforcement = enforcement,
              pol_download_url = download_url\<rparr>)"

record ClientUpdate =
  upd_status :: ClientUpdateStatus
  upd_latest_version :: rstr
  upd_required_after :: "nat option"
  upd_summary :: "rstr option"
  upd_download_url :: rstr

record UpdateAdvice =
  adv_server_version :: rstr
  adv_client :: ClientUpdate

text \<open>How one release rates, with the deadline it sets when it is a pending security release.\<close>

definition rate_release :: "nat \<Rightarrow> nat \<Rightarrow> ClientPlatform option \<Rightarrow> Release
    \<Rightarrow> (ClientUpdateStatus \<times> nat option) option" where
  "rate_release grace now platform r = (case client_rating r platform of
     None \<Rightarrow> None
   | Some CatOptional \<Rightarrow> Some (Optional, None)
   | Some CatRecommended \<Rightarrow> Some (Recommended, None)
   | Some CatCritical \<Rightarrow> Some (Required, None)
   | Some CatSecurity \<Rightarrow> (let deadline = sat_add64 (rel_published_epoch_seconds r) grace
        in if now \<ge> deadline then Some (Required, None) else Some (Security, Some deadline)))"

definition weigh_release :: "nat \<Rightarrow> nat \<Rightarrow> ClientPlatform option
    \<Rightarrow> ClientUpdateStatus \<times> rstr option \<times> nat option \<Rightarrow> Release
    \<Rightarrow> ClientUpdateStatus \<times> rstr option \<times> nat option" where
  "weigh_release grace now platform = (\<lambda>(status, summary, required_after) r.
     (case rate_release grace now platform r of
        None \<Rightarrow> (status, summary, required_after)
      | Some (rated, due) \<Rightarrow>
        (let required_after = (case due of None \<Rightarrow> required_after
             | Some d \<Rightarrow> Some (case required_after of None \<Rightarrow> d | Some e \<Rightarrow> min e d))
         in if rated \<ge> status then (rated, Some (rel_summary r), required_after)
            else (status, summary, required_after))))"

definition evaluate :: "ClientPolicy \<Rightarrow> ReleaseManifest \<Rightarrow> ClientIdentity \<Rightarrow> nat \<Rightarrow> ClientUpdate" where
  "evaluate p m client now = (
    let (status, summary, required_after) =
      (case (case pol_minimum p of None \<Rightarrow> None | Some v \<Rightarrow> if client_version client < v then Some v else None) of
         Some minimum \<Rightarrow> (Required, Some (lit ''This server requires Ket '' @ version_display minimum @ lit '' or newer.''), None)
       | None \<Rightarrow> foldl (weigh_release (security_grace_seconds m) now (client_platform client)) (Current, None, None)
           (filter (\<lambda>r. rel_version r > client_version client \<and> rel_version r \<le> pol_server_version p) (releases m)));
        (status, required_after) = (if status = Required \<and> pol_enforcement p = Warn then (Security, None)
           else (status, required_after));
        required_after = (if status \<noteq> Security then None else required_after)
    in \<lparr>upd_status = status, upd_latest_version = version_display (pol_server_version p),
        upd_required_after = required_after, upd_summary = summary, upd_download_url = pol_download_url p\<rparr>)"

definition policy_advice :: "ClientPolicy \<Rightarrow> ReleaseManifest \<Rightarrow> ClientIdentity \<Rightarrow> nat \<Rightarrow> UpdateAdvice" where
  "policy_advice p m client now =
     \<lparr>adv_server_version = version_display (pol_server_version p), adv_client = evaluate p m client now\<rparr>"

subsection \<open>The server's settings\<close>

record ClientUpdates =
  cu_policy :: ClientPolicy
  cu_manifest :: ReleaseManifest

definition MAX_DOWNLOAD_URL_CHARS :: nat where "MAX_DOWNLOAD_URL_CHARS = 2048"

definition DEFAULT_DOWNLOAD_URL :: rstr where
  "DEFAULT_DOWNLOAD_URL = lit ''https://github.com/Emp5r0R/Ket/releases/latest''"

definition validate_download_url :: "(rstr \<Rightarrow> parsed_url option) \<Rightarrow> rstr \<Rightarrow> rstr + rstr" where
  "validate_download_url url_parse s = (
     if str_len s > MAX_DOWNLOAD_URL_CHARS then Err (lit ''KET_CLIENT_DOWNLOAD_URL is too long'')
     else (case url_parse s of None \<Rightarrow> Err (lit ''KET_CLIENT_DOWNLOAD_URL must be an absolute URL'')
     | Some u \<Rightarrow>
       if url_scheme u \<noteq> lit ''https'' \<or> url_host_str u = None \<or> url_username u \<noteq> []
          \<or> url_password u \<noteq> None \<or> url_fragment u \<noteq> None
         then Err (lit ''KET_CLIENT_DOWNLOAD_URL must be an https:// URL without credentials or a fragment'')
       else Ok (url_text u)))"

definition optional_setting :: "(string \<Rightarrow> rstr option) \<Rightarrow> string \<Rightarrow> rstr option" where
  "optional_setting env name = (case env name of None \<Rightarrow> None
     | Some v \<Rightarrow> if trim v = [] then None else Some (trim v))"

text \<open>
  \<open>server_version\<close> is the version compiled into the build and \<open>embedded\<close> the
  manifest compiled into it.
\<close>

definition updates_from_env :: "(rstr \<Rightarrow> parsed_url option) \<Rightarrow> (string \<Rightarrow> rstr option) \<Rightarrow> Version
    \<Rightarrow> ReleaseManifest \<Rightarrow> rstr + ClientUpdates" where
  "updates_from_env url_parse env server_version embedded = (
     case (case optional_setting env ''KET_CLIENT_MINIMUM_VERSION'' of None \<Rightarrow> Ok None
        | Some v \<Rightarrow> (case version_from_str v of Err _ \<Rightarrow> Err (lit ''KET_CLIENT_MINIMUM_VERSION must be a MAJOR.MINOR.PATCH version'')
            | Ok v \<Rightarrow> Ok (Some v))) of
       Err e \<Rightarrow> Err e
     | Ok minimum \<Rightarrow>
     (case (case optional_setting env ''KET_CLIENT_UPDATE_ENFORCEMENT'' of None \<Rightarrow> Ok Enforce
        | Some v \<Rightarrow> (case enforcement_from_str v of Err _ \<Rightarrow> Err (lit ''KET_CLIENT_UPDATE_ENFORCEMENT must be enforce or warn'')
            | Ok e \<Rightarrow> Ok e)) of
       Err e \<Rightarrow> Err e
     | Ok enforcement \<Rightarrow>
     (case (case optional_setting env ''KET_CLIENT_DOWNLOAD_URL'' of None \<Rightarrow> Ok DEFAULT_DOWNLOAD_URL
        | Some v \<Rightarrow> validate_download_url url_parse v) of
       Err e \<Rightarrow> Err e
     | Ok download_url \<Rightarrow>
     (case policy_new server_version minimum enforcement download_url of
       Err _ \<Rightarrow> Err (lit ''KET_CLIENT_MINIMUM_VERSION cannot be newer than this server'')
     | Ok policy \<Rightarrow> Ok \<lparr>cu_policy = policy, cu_manifest = embedded\<rparr>))))"

text \<open>The header is what \<open>HeaderMap::get\<close> and \<open>to_str\<close> make of the request.\<close>

definition updates_advice :: "ClientUpdates \<Rightarrow> rstr option \<Rightarrow> nat \<Rightarrow> UpdateAdvice" where
  "updates_advice u header now = policy_advice (cu_policy u) (cu_manifest u) (identity_from_header header) now"

definition is_required :: "UpdateAdvice \<Rightarrow> bool" where
  "is_required a \<longleftrightarrow> upd_status (adv_client a) = Required"

subsection \<open>What the loop over releases computes\<close>

definition newer :: "ClientPolicy \<Rightarrow> ReleaseManifest \<Rightarrow> ClientIdentity \<Rightarrow> Release list" where
  "newer p m client = filter (\<lambda>r. rel_version r > client_version client \<and> rel_version r \<le> pol_server_version p) (releases m)"

definition below_minimum :: "ClientPolicy \<Rightarrow> ClientIdentity \<Rightarrow> bool" where
  "below_minimum p client \<longleftrightarrow> (\<exists>v. pol_minimum p = Some v \<and> client_version client < v)"

definition update_deadline :: "ReleaseManifest \<Rightarrow> Release \<Rightarrow> nat" where
  "update_deadline m r = sat_add64 (rel_published_epoch_seconds r) (security_grace_seconds m)"

lemma status_extremes [simp]: "a \<le> Required" "Current \<le> (a :: ClientUpdateStatus)"
  by (cases a; simp add: less_eq_ClientUpdateStatus_def)+

lemma weigh_status:
  "fst (weigh_release g now pl (st, su, ra) r)
     = (case rate_release g now pl r of None \<Rightarrow> st | Some (rated, _) \<Rightarrow> max st rated)"
  by (auto simp: weigh_release_def Let_def max_def split: option.splits)

lemma weigh_all_Required:
  "fst (foldl (weigh_release g now pl) acc rs) = Required \<longleftrightarrow>
     fst acc = Required \<or> (\<exists>r \<in> set rs. \<exists>d. rate_release g now pl r = Some (Required, d))"
proof (induction rs arbitrary: acc)
  case (Cons r rs)
  obtain st su ra where acc: "acc = (st, su, ra)" by (cases acc) auto
  have "max st x = Required \<longleftrightarrow> st = Required \<or> x = Required" for x :: ClientUpdateStatus
    by (auto simp: max_def dest: order_antisym)
  then show ?case
    using weigh_status [of g now pl st su ra r] by (auto simp: acc Cons.IH split: option.splits)
qed simp

lemma rate_release_Required:
  "(\<exists>d. rate_release g now pl r = Some (Required, d)) \<longleftrightarrow> client_rating r pl = Some CatCritical
     \<or> (client_rating r pl = Some CatSecurity \<and> sat_add64 (rel_published_epoch_seconds r) g \<le> now)"
  by (auto simp: rate_release_def Let_def split: option.splits UpdateCategory.splits)

text \<open>The deadlines of the pending security releases.\<close>

definition pending :: "nat \<Rightarrow> nat \<Rightarrow> ClientPlatform option \<Rightarrow> Release list \<Rightarrow> nat set" where
  "pending g now pl rs = {d. \<exists>r \<in> set rs. rate_release g now pl r = Some (Security, Some d)}"

lemma rate_release_due: "rate_release g now pl r = Some (x, Some d) \<Longrightarrow> x = Security"
  by (auto simp: rate_release_def Let_def split: option.splits UpdateCategory.splits if_splits)

lemma rate_release_Security:
  "rate_release g now pl r = Some (Security, Some d) \<longleftrightarrow> client_rating r pl = Some CatSecurity
     \<and> d = sat_add64 (rel_published_epoch_seconds r) g \<and> now < d"
proof (cases "client_rating r pl")
  case (Some c)
  then show ?thesis by (cases c) (auto simp: rate_release_def Let_def)
qed (simp add: rate_release_def)

lemma weigh_due:
  "snd (snd (weigh_release g now pl (st, su, ra) r)) = (case rate_release g now pl r of
      Some (_, Some d) \<Rightarrow> Some (case ra of None \<Rightarrow> d | Some e \<Rightarrow> min e d) | _ \<Rightarrow> ra)"
  by (auto simp: weigh_release_def Let_def split: option.splits)

definition least_of :: "nat set \<Rightarrow> nat \<Rightarrow> bool" where
  "least_of S d \<longleftrightarrow> d \<in> S \<and> (\<forall>e \<in> S. d \<le> e)"

lemma least_of_min: "least_of (insert (min c e) S) d \<longleftrightarrow> least_of (insert c (insert e S)) d"
  by (auto simp: least_of_def min_def)

lemma weigh_all_due:
  "snd (snd (foldl (weigh_release g now pl) acc rs)) = Some d \<longleftrightarrow>
     least_of ((case snd (snd acc) of None \<Rightarrow> {} | Some e \<Rightarrow> {e}) \<union> pending g now pl rs) d"
proof (induction rs arbitrary: acc)
  case Nil
  then show ?case by (auto simp: pending_def least_of_def split: option.splits)
next
  case (Cons r rs)
  obtain st su ra where acc: "acc = (st, su, ra)" by (cases acc) auto
  have split: "pending g now pl (r # rs) = (case rate_release g now pl r of Some (_, Some d) \<Rightarrow> {d} | _ \<Rightarrow> {}) \<union> pending g now pl rs"
    by (auto simp: pending_def dest: rate_release_due split: option.splits)
  consider (none) "\<nexists>x d. rate_release g now pl r = Some (x, Some d)" | (due) x e where "rate_release g now pl r = Some (x, Some e)"
    by blast
  then show ?case
  proof cases
    case none
    then have w: "snd (snd (weigh_release g now pl (st, su, ra) r)) = ra"
      unfolding weigh_due by (auto split: option.splits)
    have "pending g now pl (r # rs) = pending g now pl rs" unfolding split using none by (auto split: option.splits)
    then show ?thesis by (simp add: acc Cons.IH w)
  next
    case due
    then have w: "snd (snd (weigh_release g now pl (st, su, ra) r)) = Some (case ra of None \<Rightarrow> e | Some c \<Rightarrow> min c e)"
      unfolding weigh_due by simp
    have "pending g now pl (r # rs) = insert e (pending g now pl rs)" unfolding split using due by simp
    moreover have "least_of ((case ra of None \<Rightarrow> {e} | Some c \<Rightarrow> {min c e}) \<union> P) d
        = least_of ((case ra of None \<Rightarrow> {} | Some c \<Rightarrow> {c}) \<union> insert e P) d" for P
      by (cases ra) (simp_all add: least_of_min insert_commute)
    ultimately show ?thesis
      unfolding acc foldl_Cons Cons.IH w by (cases ra) simp_all
  qed
qed

lemma evaluate_minimum:
  "(case pol_minimum p of None \<Rightarrow> None | Some v \<Rightarrow> if client_version client < v then Some v else None) = None
     \<longleftrightarrow> \<not> below_minimum p client"
  by (auto simp: below_minimum_def split: option.splits)

lemma evaluate_below_minimum:
  assumes "below_minimum p client"
  shows "upd_status (evaluate p m client now) = (if pol_enforcement p = Warn then Security else Required)"
    "upd_required_after (evaluate p m client now) = None"
  using assms by (auto simp: evaluate_def below_minimum_def)

lemma evaluate_not_below:
  fixes m :: ReleaseManifest and now :: nat
  assumes "\<not> below_minimum p client"
  defines "w \<equiv> foldl (weigh_release (security_grace_seconds m) now (client_platform client)) (Current, None, None) (newer p m client)"
  shows "upd_status (evaluate p m client now)
     = (if fst w = Required \<and> pol_enforcement p = Warn then Security else fst w)"
   "upd_required_after (evaluate p m client now) = (if fst w = Security then snd (snd w) else None)"
proof -
  have none: "(case pol_minimum p of None \<Rightarrow> None | Some v \<Rightarrow> if client_version client < v then Some v else None) = None"
    using assms(1) evaluate_minimum by blast
  show "upd_status (evaluate p m client now) = (if fst w = Required \<and> pol_enforcement p = Warn then Security else fst w)"
    unfolding evaluate_def none newer_def [symmetric] option.case w_def [symmetric]
    by (auto simp: Let_def split: prod.splits)
  show "upd_required_after (evaluate p m client now) = (if fst w = Security then snd (snd w) else None)"
    unfolding evaluate_def none newer_def [symmetric] option.case w_def [symmetric]
    by (auto simp: Let_def split: prod.splits)
qed

definition must_update :: "ClientPolicy \<Rightarrow> ReleaseManifest \<Rightarrow> ClientIdentity \<Rightarrow> nat \<Rightarrow> bool" where
  "must_update p m client now \<longleftrightarrow> below_minimum p client
     \<or> (\<exists>r \<in> set (newer p m client). client_rating r (client_platform client) = Some CatCritical
          \<or> (client_rating r (client_platform client) = Some CatSecurity \<and> update_deadline m r \<le> now))"

lemma weigh_newer_Required:
  "fst (foldl (weigh_release (security_grace_seconds m) now (client_platform client)) (Current, None, None) (newer p m client)) = Required
     \<longleftrightarrow> (\<exists>r \<in> set (newer p m client). client_rating r (client_platform client) = Some CatCritical
          \<or> (client_rating r (client_platform client) = Some CatSecurity \<and> update_deadline m r \<le> now))"
  unfolding weigh_all_Required rate_release_Required update_deadline_def by simp

lemma evaluate_Required:
  "upd_status (evaluate p m client now) = Required \<longleftrightarrow> pol_enforcement p = Enforce \<and> must_update p m client now"
proof (cases "below_minimum p client")
  case True
  then show ?thesis
    by (cases "pol_enforcement p") (simp_all add: evaluate_below_minimum must_update_def)
next
  case False
  then show ?thesis
    using weigh_newer_Required [of m now client p]
    by (cases "pol_enforcement p") (auto simp: evaluate_not_below must_update_def)
qed

subsection \<open>Properties\<close>

text \<open>
  C15: an app is refused exactly when it must update. The server calls an
  update required if and only if it enforces updates and the app is below the
  operator's minimum, or some release after the app's version and up to the
  server's is critical for the app's platform, or is a security release for it
  whose grace period is over.
\<close>

theorem required_exactly_when:
  "is_required (policy_advice p m client now) \<longleftrightarrow> pol_enforcement p = Enforce
     \<and> ((\<exists>v. pol_minimum p = Some v \<and> client_version client < v)
        \<or> (\<exists>r \<in> set (releases m). client_version client < rel_version r \<and> rel_version r \<le> pol_server_version p
             \<and> (client_rating r (client_platform client) = Some CatCritical
                \<or> client_rating r (client_platform client) = Some CatSecurity
                  \<and> sat_add64 (rel_published_epoch_seconds r) (security_grace_days m * SECONDS_PER_DAY) \<le> now)))"
  unfolding is_required_def policy_advice_def
  by (auto simp: evaluate_Required must_update_def below_minimum_def newer_def update_deadline_def
      security_grace_seconds_def)

text \<open>
  A deadline the server announces is the one it keeps. If an enforcing
  server tells an app at time \<open>now\<close> that the update becomes required at \<open>d\<close>,
  then at every later time \<open>t\<close> it refuses the app if and only if \<open>d \<le> t\<close>.
\<close>

theorem announced_deadline_is_kept:
  assumes "pol_enforcement p = Enforce"
    and "upd_required_after (evaluate p m client now) = Some d"
    and "now \<le> t"
  shows "upd_status (evaluate p m client t) = Required \<longleftrightarrow> d \<le> t"
proof -
  define g where "g = security_grace_seconds m"
  define pl where "pl = client_platform client"
  define rs where "rs = newer p m client"
  have above: "\<not> below_minimum p client"
    using assms(2) evaluate_below_minimum(2) [of p client m now] by auto
  define w where "w = foldl (weigh_release g now pl) (Current, None, None) rs"
  have "fst w = Security" "snd (snd w) = Some d"
    using assms(2) evaluate_not_below(2) [OF above, of m now] by (auto simp: w_def g_def pl_def rs_def split: if_splits)
  then have due: "d \<in> pending g now pl rs" "\<forall>e \<in> pending g now pl rs. d \<le> e"
    and "fst w \<noteq> Required"
    using weigh_all_due [of g now pl "(Current, None, None)" rs d] by (simp_all add: w_def least_of_def)
  then have calm: "\<not> must_update p m client now"
    using above weigh_newer_Required [of m now client p] by (auto simp: must_update_def w_def g_def pl_def rs_def)
  have sec: "e \<in> pending g now pl rs \<longleftrightarrow> (\<exists>r \<in> set rs. client_rating r pl = Some CatSecurity \<and> e = update_deadline m r \<and> now < e)" for e
    unfolding pending_def rate_release_Security update_deadline_def g_def by blast
  have "must_update p m client t \<longleftrightarrow> (\<exists>r \<in> set rs. client_rating r pl = Some CatSecurity \<and> update_deadline m r \<le> t)"
    using above calm by (auto simp: must_update_def rs_def pl_def)
  also have "\<dots> \<longleftrightarrow> d \<le> t"
  proof
    assume "\<exists>r \<in> set rs. client_rating r pl = Some CatSecurity \<and> update_deadline m r \<le> t"
    then obtain r where r: "r \<in> set rs" "client_rating r pl = Some CatSecurity" "update_deadline m r \<le> t" by blast
    then have "now < update_deadline m r" using calm by (fastforce simp: must_update_def rs_def pl_def)
    then have "update_deadline m r \<in> pending g now pl rs" using r sec by blast
    then show "d \<le> t" using due(2) r(3) by fastforce
  next
    assume "d \<le> t"
    then show "\<exists>r \<in> set rs. client_rating r pl = Some CatSecurity \<and> update_deadline m r \<le> t"
      using due(1) unfolding sec [of d] by auto
  qed
  finally show ?thesis using assms(1) by (simp add: evaluate_Required)
qed

definition sample_release :: Release where
  "sample_release = \<lparr>rel_version = Version 1 1 0, rel_published = lit ''2026-01-01'', rel_client = Some CatSecurity,
     rel_server = None, rel_apps = Map.empty, rel_summary = lit ''Fixes a leak.'',
     rel_published_epoch_seconds = 1000\<rparr>"

definition sample_manifest :: ReleaseManifest where
  "sample_manifest = \<lparr>man_schema = 1, security_grace_days = 1, releases = [sample_release]\<rparr>"

definition sample_policy :: ClientPolicy where
  "sample_policy = \<lparr>pol_server_version = Version 1 1 0, pol_minimum = None, pol_enforcement = Enforce,
     pol_download_url = DEFAULT_DOWNLOAD_URL\<rparr>"

lemma sample_evaluate: "upd_required_after (evaluate sample_policy sample_manifest legacy_identity 2000) = Some 87400"
  by (simp add: evaluate_def sample_policy_def sample_manifest_def sample_release_def legacy_identity_def
      LEGACY_CLIENT_VERSION_def less_Version_def less_eq_Version_def version_key_def weigh_release_def
      rate_release_def client_rating_def security_grace_seconds_def SECONDS_PER_DAY_def sat_add64_def
      u64_max_def less_eq_ClientUpdateStatus_def)

theorem announced_deadline_is_kept_witness:
  "upd_status (evaluate sample_policy sample_manifest legacy_identity 87399) \<noteq> Required
   \<and> upd_status (evaluate sample_policy sample_manifest legacy_identity 87400) = Required"
proof -
  have "pol_enforcement sample_policy = Enforce" by (simp add: sample_policy_def)
  note kept = announced_deadline_is_kept [OF this sample_evaluate]
  show ?thesis using kept [of 87399] kept [of 87400] by simp
qed

lemma iter_max_Some: "iter_max xs = Some c \<longleftrightarrow> c \<in> set xs \<and> (\<forall>x \<in> set xs. x \<le> c)"
proof (cases xs)
  case (Cons y ys)
  have "foldl max y ys = c \<longleftrightarrow> c \<in> insert y (set ys) \<and> (\<forall>x \<in> insert y (set ys). x \<le> c)"
  proof (induction ys arbitrary: y)
    case (Cons z zs)
    show ?case unfolding foldl_Cons Cons.IH by (auto simp: max_def)
  qed auto
  then show ?thesis using Cons by simp
qed simp

lemma iter_max_None: "iter_max xs = None \<longleftrightarrow> xs = []"
  by (cases xs) auto

lemma validate_releases_Ok:
  assumes "validate_releases prev rs = Ok rs'"
  shows "\<forall>r \<in> set rs'. (apps_values (rel_apps r) \<noteq> [] \<longrightarrow> rel_client r = iter_max (apps_values (rel_apps r)))
      \<and> (\<exists>d. parse_date (rel_published r) = Some d \<and> rel_published_epoch_seconds r = d * SECONDS_PER_DAY)"
    and "sorted_wrt (<) (map rel_version rs')"
    and "\<forall>v. prev = Some v \<longrightarrow> (\<forall>r \<in> set rs'. v < rel_version r)"
  using assms
proof (induction prev rs arbitrary: rs' rule: validate_releases.induct)
  case (2 prev r rs)
  {
    case 1
    then show ?case using "2.IH"(1) by (fastforce split: if_splits option.splits sum.splits)
  next
    case 2
    then show ?case using "2.IH"(2,3) by (fastforce split: if_splits option.splits sum.splits)
  next
    case 3
    then show ?case using "2.IH"(3) by (fastforce split: if_splits option.splits sum.splits)
  }
qed auto

lemma apps_values_mem: "rel_apps r p = Some c \<Longrightarrow> c \<in> set (apps_values (rel_apps r))"
  by (cases p) (auto simp: apps_values_def map_filter_def)

text \<open>
  In a manifest that passed validation the releases are in order, each
  carries the day it was published, and no app is ever told an update is more
  urgent than the server is told the same move is: whatever the versions and
  the platform, the rating for the app is at most the rating for the server.
\<close>

theorem validated_manifest_consistent:
  assumes "manifest_validate m = Ok m'"
  shows "sorted_wrt (<) (map rel_version (releases m'))
   \<and> (\<forall>r \<in> set (releases m'). \<exists>d. parse_date (rel_published r) = Some d
        \<and> rel_published_epoch_seconds r = d * SECONDS_PER_DAY)
   \<and> (\<forall>installed target p c. app_update_category m' installed target p = Some c \<longrightarrow>
        (\<exists>c'. server_update_category m' installed target = Some c' \<and> c \<le> c'))"
proof (intro conjI allI impI)
  obtain rs' where rs': "validate_releases None (releases m) = Ok rs'" "releases m' = rs'"
    using assms by (auto simp: manifest_validate_def)
  note ok = validate_releases_Ok [OF rs'(1)]
  show "sorted_wrt (<) (map rel_version (releases m'))" using ok(2) rs'(2) by simp
  show "\<forall>r \<in> set (releases m'). \<exists>d. parse_date (rel_published r) = Some d
        \<and> rel_published_epoch_seconds r = d * SECONDS_PER_DAY" using ok(1) rs'(2) by blast
  fix installed target p c
  assume "app_update_category m' installed target p = Some c"
  then obtain r where r: "r \<in> set rs'" "installed < rel_version r" "rel_version r \<le> target" "client_rating r (Some p) = Some c"
    using rs'(2) by (auto simp: app_update_category_def iter_max_Some map_filter_def)
  obtain cl where cl: "rel_client r = Some cl" "c \<le> cl"
  proof (cases "apps_values (rel_apps r) = []")
    case True
    then have "rel_client r = Some c" using r(4) by (simp add: client_rating_def)
    then show thesis using that by simp
  next
    case False
    then have "c \<in> set (apps_values (rel_apps r))" using r(4) by (auto simp: client_rating_def intro: apps_values_mem)
    moreover have "rel_client r = iter_max (apps_values (rel_apps r))" using ok(1) r(1) False by blast
    moreover obtain cl where "iter_max (apps_values (rel_apps r)) = Some cl"
      using False iter_max_None [of "apps_values (rel_apps r)"] by auto
    ultimately show thesis using that [of cl] by (simp add: iter_max_Some)
  qed
  define all where "all = List.map_filter id (concat (map (\<lambda>r. [rel_server r, rel_client r])
       (filter (\<lambda>r. rel_version r > installed \<and> rel_version r \<le> target) (releases m'))))"
  have mem: "cl \<in> set all"
    using r(1-3) cl(1) rs'(2) by (force simp: all_def map_filter_def)
  then obtain c' where "iter_max all = Some c'" using iter_max_None [of all] by (cases "iter_max all") auto
  then show "\<exists>c'. server_update_category m' installed target = Some c' \<and> c \<le> c'"
    using mem cl(2) by (auto simp: server_update_category_def all_def iter_max_Some intro: order_trans)
qed

text \<open>
  Whatever settings the operator gives, a server that starts with them
  accepts every app at least as new as itself and advises it nothing: its
  header, read back, gives the status current.
\<close>

theorem server_accepts_its_own_version:
  assumes "updates_from_env url_parse env server_version embedded = Ok u"
    and "server_version \<le> v" and "version_fits v"
  shows "upd_status (adv_client (updates_advice u (header_value \<lparr>client_platform = Some p, client_version = v\<rparr>) now)) = Current"
proof -
  define c where "c = \<lparr>client_platform = Some p, client_version = v\<rparr>"
  have id: "identity_from_header (header_value c) = c"
    using identity_parse_Ok [of "platform_as_str p @ lit ''/'' @ version_display v" c] assms(3)
    by (simp add: identity_from_header_def header_value_def c_def)
  have pol: "pol_server_version (cu_policy u) = server_version"
    "\<forall>w. pol_minimum (cu_policy u) = Some w \<longrightarrow> w \<le> server_version"
    using assms(1) by (auto simp: updates_from_env_def policy_new_def not_less split: if_splits sum.splits option.splits)
  have above: "\<not> below_minimum (cu_policy u) c" using pol(2) assms(2) by (auto simp: below_minimum_def c_def)
  have "newer (cu_policy u) (cu_manifest u) c = []"
    using pol(1) assms(2) by (auto simp: newer_def c_def filter_empty_conv)
  then have "upd_status (evaluate (cu_policy u) (cu_manifest u) c now) = Current"
    using evaluate_not_below(1) [OF above] by simp
  then show ?thesis using id by (simp add: updates_advice_def policy_advice_def c_def)
qed

theorem server_accepts_its_own_version_witness:
  "upd_status (adv_client (updates_advice \<lparr>cu_policy = sample_policy, cu_manifest = sample_manifest\<rparr>
     (header_value \<lparr>client_platform = Some Linux, client_version = Version 1 1 0\<rparr>) 0)) = Current"
proof (rule server_accepts_its_own_version [of "\<lambda>_. None" "\<lambda>_. None" "Version 1 1 0"])
  show "updates_from_env (\<lambda>_. None) (\<lambda>_. None) (Version 1 1 0) sample_manifest
      = Ok \<lparr>cu_policy = sample_policy, cu_manifest = sample_manifest\<rparr>"
    by (simp add: updates_from_env_def optional_setting_def policy_new_def sample_policy_def)
qed (simp_all add: version_fits_def)

theorem validated_manifest_consistent_witness:
  "\<exists>m'. manifest_validate sample_manifest = Ok m' \<and> sorted_wrt (<) (map rel_version (releases m'))"
proof -
  have "month_days 2026 1 = Some 31" by (simp add: month_days_def)
  moreover have "lit ''2026-01-01'' = date_text 2026 1 1"
    by (simp add: date_text_def zero_padded_def decimal.simps lit_def)
  ultimately have "parse_date (lit ''2026-01-01'') = Some (days_from_civil 2026 1 1)"
    using parse_date_text [of 2026 1 31 1] by simp
  moreover have "trim (lit ''Fixes a leak.'') = lit ''Fixes a leak.''"
    unfolding trim_id_iff by (simp add: lit_def is_whitespace_def)
  ultimately obtain m' where m': "manifest_validate sample_manifest = Ok m'"
    by (simp add: manifest_validate_def sample_manifest_def sample_release_def MANIFEST_SCHEMA_def
        apps_values_def map_filter_def MAX_SUMMARY_CHARS_def) (simp add: lit_def is_control_def)
  then show ?thesis using validated_manifest_consistent [OF m'] by blast
qed

end
