(* ===== verification/Cbor.thy ===== *)
theory Cbor
  imports Text_Scan Secret
begin

text \<open>
  The deterministic CBOR of invites (crates/invite-capsule \<open>cbor.rs\<close>): one
  reader and one writer per item, and that they are inverse to each other, so
  every value has exactly one accepted encoding. A decoder is the input it has
  not read yet. Lengths are those of a 64-bit target, where every \<open>u64\<close> is a
  \<open>usize\<close>.
\<close>

unbundle bit_operations_syntax

datatype CapsuleError = Invalid | TooLarge | UnsupportedVersion | WrongApplication | UnsupportedCapability
  | InvalidSignature | Expired | UnsupportedLocator | UnsafeLocator | InvalidNodeKey | NodeIdentityMismatch
  | InvalidChecksum

fun error_code :: "CapsuleError \<Rightarrow> rstr" where
  "error_code Invalid = lit ''invalid_invite''"
| "error_code TooLarge = lit ''invite_too_large''"
| "error_code UnsupportedVersion = lit ''unsupported_invite_version''"
| "error_code WrongApplication = lit ''wrong_application''"
| "error_code UnsupportedCapability = lit ''unsupported_capability''"
| "error_code InvalidSignature = lit ''invalid_invite_signature''"
| "error_code Expired = lit ''invite_expired''"
| "error_code UnsupportedLocator = lit ''unsupported_locator''"
| "error_code UnsafeLocator = lit ''unsafe_locator''"
| "error_code InvalidNodeKey = lit ''invalid_node_key''"
| "error_code NodeIdentityMismatch = lit ''node_identity_mismatch''"
| "error_code InvalidChecksum = lit ''invalid_invite_checksum''"

type_synonym decoder = "u8 list"

definition MAJOR_UINT :: u8 where "MAJOR_UINT = 0"
definition MAJOR_BYTES :: u8 where "MAJOR_BYTES = 2"
definition MAJOR_TEXT :: u8 where "MAJOR_TEXT = 3"
definition MAJOR_ARRAY :: u8 where "MAJOR_ARRAY = 4"
definition CBOR_NULL :: u8 where "CBOR_NULL = 0xf6"

subsection \<open>Numbers as bytes and UTF-8 text\<close>

text \<open>\<open>from_be_bytes\<close> and \<open>to_be_bytes\<close>.\<close>

definition from_be_bytes :: "u8 list \<Rightarrow> nat" where
  "from_be_bytes bs = foldl (\<lambda>n b. n * 256 + unat b) 0 bs"

primrec to_be_bytes :: "nat \<Rightarrow> nat \<Rightarrow> u8 list" where
  "to_be_bytes 0 v = []"
| "to_be_bytes (Suc k) v = to_be_bytes k (v div 256) @ [of_nat (v mod 256)]"

text \<open>The bytes of a \<open>str\<close>, and \<open>std::str::from_utf8\<close>: the scalar value a
  well-formed sequence stands for, if the input begins with one.\<close>

definition str_as_bytes :: "rstr \<Rightarrow> u8 list" where
  "str_as_bytes s = map of_nat (str_bytes s)"

definition is_scalar :: "uchar \<Rightarrow> bool" where
  "is_scalar c \<longleftrightarrow> c < 0x110000 \<and> \<not> (0xD800 \<le> c \<and> c < 0xE000)"

definition utf8_candidate :: "nat list \<Rightarrow> uchar" where
  "utf8_candidate bs = (let b = (\<lambda>i. if i < length bs then bs ! i else 0) in
     if b 0 < 0x80 then b 0
     else if b 0 < 0xE0 then (b 0 - 0xC0) * 64 + (b 1 - 0x80)
     else if b 0 < 0xF0 then (b 0 - 0xE0) * 4096 + (b 1 - 0x80) * 64 + (b 2 - 0x80)
     else (b 0 - 0xF0) * 262144 + (b 1 - 0x80) * 4096 + (b 2 - 0x80) * 64 + (b 3 - 0x80))"

function from_utf8 :: "nat list \<Rightarrow> rstr option" where
  "from_utf8 bs = (if bs = [] then Some []
     else let c = utf8_candidate bs; w = utf8_width c in
       if is_scalar c \<and> take w bs = utf8_encode c
         then (case from_utf8 (drop w bs) of None \<Rightarrow> None | Some s \<Rightarrow> Some (c # s))
       else None)"
  by pat_completeness auto

termination
  by (relation "measure length") auto

declare from_utf8.simps [simp del]

definition str_from_bytes :: "u8 list \<Rightarrow> rstr option" where
  "str_from_bytes bs = from_utf8 (map unat bs)"

subsection \<open>Reading\<close>

definition dec_byte :: "decoder \<Rightarrow> CapsuleError + (u8 \<times> decoder)" where
  "dec_byte d = (case d of [] \<Rightarrow> Err Invalid | b # r \<Rightarrow> Ok (b, r))"

definition dec_take :: "nat \<Rightarrow> nat \<Rightarrow> decoder \<Rightarrow> CapsuleError + (u8 list \<times> decoder)" where
  "dec_take n limit d = (if n > limit then Err TooLarge
     else if n \<le> length d then Ok (take n d, drop n d) else Err Invalid)"

definition dec_fixed :: "nat \<Rightarrow> decoder \<Rightarrow> CapsuleError + (u8 list \<times> decoder)" where
  "dec_fixed n d = dec_take n n d"

definition dec_minimum :: "nat \<Rightarrow> nat \<times> decoder \<Rightarrow> CapsuleError + (nat \<times> decoder)" where
  "dec_minimum least = (\<lambda>(v, r). if v \<ge> least then Ok (v, r) else Err Invalid)"

definition dec_argument :: "u8 \<Rightarrow> decoder \<Rightarrow> CapsuleError + (nat \<times> decoder)" where
  "dec_argument additional d =
    (if additional \<le> 23 then Ok (unat additional, d)
     else if additional = 24 then (case dec_byte d of Err e \<Rightarrow> Err e | Ok (b, r) \<Rightarrow> dec_minimum 24 (unat b, r))
     else if additional = 25 then (case dec_fixed 2 d of Err e \<Rightarrow> Err e
        | Ok (bs, r) \<Rightarrow> dec_minimum 0x100 (from_be_bytes bs, r))
     else if additional = 26 then (case dec_fixed 4 d of Err e \<Rightarrow> Err e
        | Ok (bs, r) \<Rightarrow> dec_minimum 0x10000 (from_be_bytes bs, r))
     else if additional = 27 then (case dec_fixed 8 d of Err e \<Rightarrow> Err e
        | Ok (bs, r) \<Rightarrow> dec_minimum 0x100000000 (from_be_bytes bs, r))
     else Err Invalid)"

definition dec_length :: "u8 \<Rightarrow> decoder \<Rightarrow> CapsuleError + (nat \<times> decoder)" where
  "dec_length major d = (case dec_byte d of Err e \<Rightarrow> Err e | Ok (b, r) \<Rightarrow>
     if drop_bit 5 b \<noteq> major then Err Invalid else dec_argument (b AND 0x1f) r)"

definition dec_uint :: "decoder \<Rightarrow> CapsuleError + (nat \<times> decoder)" where
  "dec_uint d = (case dec_byte d of Err e \<Rightarrow> Err e | Ok (b, r) \<Rightarrow>
     if drop_bit 5 b \<noteq> MAJOR_UINT then Err Invalid else dec_argument (b AND 0x1f) r)"

definition dec_optional_uint :: "decoder \<Rightarrow> CapsuleError + (nat option \<times> decoder)" where
  "dec_optional_uint d = (if d \<noteq> [] \<and> hd d = CBOR_NULL then Ok (None, tl d)
     else (case dec_uint d of Err e \<Rightarrow> Err e | Ok (v, r) \<Rightarrow> Ok (Some v, r)))"

definition dec_bytes :: "nat \<Rightarrow> decoder \<Rightarrow> CapsuleError + (u8 list \<times> decoder)" where
  "dec_bytes limit d = (case dec_length MAJOR_BYTES d of Err e \<Rightarrow> Err e | Ok (n, r) \<Rightarrow> dec_take n limit r)"

definition dec_text :: "nat \<Rightarrow> decoder \<Rightarrow> CapsuleError + (rstr \<times> decoder)" where
  "dec_text limit d = (case dec_length MAJOR_TEXT d of Err e \<Rightarrow> Err e | Ok (n, r) \<Rightarrow>
     (case dec_take n limit r of Err e \<Rightarrow> Err e | Ok (bs, r) \<Rightarrow>
     (case str_from_bytes bs of None \<Rightarrow> Err Invalid | Some s \<Rightarrow> Ok (s, r))))"

definition dec_array_len :: "decoder \<Rightarrow> CapsuleError + (nat \<times> decoder)" where
  "dec_array_len d = dec_length MAJOR_ARRAY d"

definition dec_array :: "nat \<Rightarrow> decoder \<Rightarrow> CapsuleError + decoder" where
  "dec_array expected d = (case dec_array_len d of Err e \<Rightarrow> Err e
     | Ok (n, r) \<Rightarrow> if n = expected then Ok r else Err Invalid)"

definition dec_finish :: "decoder \<Rightarrow> CapsuleError + unit" where
  "dec_finish d = (if d = [] then Ok () else Err Invalid)"

subsection \<open>Writing\<close>

definition encode_head :: "u8 \<Rightarrow> nat \<Rightarrow> u8 list" where
  "encode_head major v = (let prefix = push_bit 5 major in
     if v \<le> 23 then [prefix OR of_nat v]
     else if v \<le> 0xff then [prefix OR 24, of_nat v]
     else if v \<le> 0xffff then (prefix OR 25) # to_be_bytes 2 v
     else if v \<le> 0xffffffff then (prefix OR 26) # to_be_bytes 4 v
     else (prefix OR 27) # to_be_bytes 8 v)"

definition encode_array :: "nat \<Rightarrow> u8 list" where
  "encode_array n = encode_head MAJOR_ARRAY n"

definition encode_uint :: "nat \<Rightarrow> u8 list" where
  "encode_uint v = encode_head MAJOR_UINT v"

definition encode_optional_uint :: "nat option \<Rightarrow> u8 list" where
  "encode_optional_uint v = (case v of Some v \<Rightarrow> encode_uint v | None \<Rightarrow> [CBOR_NULL])"

definition encode_bytes :: "u8 list \<Rightarrow> u8 list" where
  "encode_bytes bs = encode_head MAJOR_BYTES (length bs) @ bs"

definition encode_text :: "rstr \<Rightarrow> u8 list" where
  "encode_text s = encode_head MAJOR_TEXT (str_len s) @ str_as_bytes s"

subsection \<open>Bytes of numbers\<close>

lemma from_be_bytes_Nil [simp]: "from_be_bytes [] = 0"
  by (simp add: from_be_bytes_def)

lemma from_be_bytes_snoc [simp]: "from_be_bytes (bs @ [b]) = from_be_bytes bs * 256 + unat b"
  by (simp add: from_be_bytes_def)

lemma length_to_be_bytes [simp]: "length (to_be_bytes k v) = k"
  by (induction k arbitrary: v) simp_all

lemma unat_u8_bound: "unat (b :: u8) < 256"
  using unsigned_less [of b, where ?'a = nat] by simp

lemma unat_of_nat_u8 [simp]: "n < 256 \<Longrightarrow> unat (of_nat n :: u8) = n"
  by (simp add: unat_of_nat take_bit_nat_eq_self)

lemma from_be_bound: "from_be_bytes bs < 256 ^ length bs"
proof (induction bs rule: rev_induct)
  case (snoc b bs)
  then show ?case using unat_u8_bound [of b] by simp
qed simp

lemma from_to_be_bytes: "v < 256 ^ k \<Longrightarrow> from_be_bytes (to_be_bytes k v) = v"
proof (induction k arbitrary: v)
  case (Suc k)
  then have "v div 256 < 256 ^ k" by (simp add: less_mult_imp_div_less mult.commute)
  then have "from_be_bytes (to_be_bytes k (v div 256)) = v div 256" by (rule Suc.IH)
  then show ?case by simp
qed simp

lemma to_from_be_bytes: "to_be_bytes (length bs) (from_be_bytes bs) = bs"
proof (induction bs rule: rev_induct)
  case (snoc b bs)
  have "(from_be_bytes bs * 256 + unat b) div 256 = from_be_bytes bs"
    "(from_be_bytes bs * 256 + unat b) mod 256 = unat b"
    using unat_u8_bound [of b] by simp_all
  then show ?case using snoc by simp
qed simp

subsection \<open>Heads\<close>

lemma drop_bit_small: "unat w < 2 ^ n \<Longrightarrow> drop_bit n (w :: 'a::len word) = 0"
proof -
  assume "unat w < 2 ^ n"
  then have "unat (drop_bit n w) = 0" unfolding unat_drop_bit_eq by (simp add: drop_bit_eq_div)
  then show ?thesis by (rule unat_eq_zero [THEN iffD1])
qed

lemma low_five: "(0x1f :: u8) = mask 5"
  by (simp add: mask_eq_exp_minus_1)

lemma head_additional:
  assumes "unat a < 32" shows "(push_bit 5 m OR a) AND 0x1f = (a :: u8)"
proof -
  have "drop_bit 5 a = 0" using drop_bit_small [of a 5] assms by simp
  then have "take_bit 5 a = a" by (simp add: take_bit_eq_self_iff_drop_bit_eq_0)
  then have "take_bit 5 (push_bit 5 m OR a) = a" by (simp add: take_bit_or take_bit_push_bit)
  then show ?thesis unfolding low_five take_bit_eq_mask .
qed

lemma head_major:
  assumes "unat a < 32" "unat m < 8" shows "drop_bit 5 (push_bit 5 m OR a) = (m :: u8)"
proof (rule bit_word_eqI)
  fix n assume n: "n < LENGTH(8)"
  have a: "drop_bit 5 a = 0" and m: "drop_bit 3 m = 0"
    using drop_bit_small [of a 5] drop_bit_small [of m 3] assms by simp_all
  have "\<not> bit (drop_bit 5 a) n" "\<not> bit (drop_bit 3 m) (n - 3)" unfolding a m by simp_all
  then have high: "\<not> bit a (5 + n)" "\<not> bit m (3 + (n - 3))" by (simp_all add: bit_drop_bit_eq)
  have "n < 3" if "bit m n"
  proof (rule ccontr)
    assume "\<not> n < 3"
    then have "3 + (n - 3) = n" by simp
    then show False using high(2) that by simp
  qed
  then show "bit (drop_bit 5 (push_bit 5 m OR a)) n = bit m n"
    using n high(1) by (auto simp: bit_simps)
qed

lemma head_split: "push_bit 5 (drop_bit 5 b) OR (b AND 0x1f) = (b :: u8)"
proof -
  show ?thesis unfolding low_five by (intro bit_word_eqI) (auto simp: bit_simps)
qed

lemma additional_bound: "unat (b AND 0x1f :: u8) < 32"
proof -
  have "unat (b AND 0x1f) = take_bit 5 (unat b)" unfolding low_five take_bit_eq_mask [symmetric] by (rule unsigned_take_bit_eq)
  then show ?thesis by (simp add: take_bit_eq_mod)
qed

text \<open>The short form of a value: the low bits of its head and the bytes after it.\<close>

definition additional_of :: "nat \<Rightarrow> nat" where
  "additional_of v = (if v \<le> 23 then v else if v \<le> 0xff then 24 else if v \<le> 0xffff then 25
     else if v \<le> 0xffffffff then 26 else 27)"

definition argument_bytes :: "nat \<Rightarrow> u8 list" where
  "argument_bytes v = (if v \<le> 23 then [] else if v \<le> 0xff then to_be_bytes 1 v else if v \<le> 0xffff then to_be_bytes 2 v
     else if v \<le> 0xffffffff then to_be_bytes 4 v else to_be_bytes 8 v)"

lemma encode_head_eq: "encode_head m v = (push_bit 5 m OR of_nat (additional_of v)) # argument_bytes v"
  by (simp add: encode_head_def additional_of_def argument_bytes_def Let_def)

lemma additional_of_bound: "additional_of v < 28"
  by (simp add: additional_of_def)

lemma dec_fixed_Ok: "dec_fixed n d = Ok (bs, r) \<longleftrightarrow> d = bs @ r \<and> length bs = n"
  by (auto simp: dec_fixed_def dec_take_def)

lemma dec_byte_Ok: "dec_byte d = Ok (b, r) \<longleftrightarrow> d = b # r"
  by (cases d) (auto simp: dec_byte_def)

lemma dec_minimum_Ok: "dec_minimum least p = Ok (v, r) \<longleftrightarrow> p = (v, r) \<and> least \<le> v"
  by (cases p) (auto simp: dec_minimum_def)

lemma dec_argument_nat:
  "dec_argument a d =
    (if unat a \<le> 23 then Ok (unat a, d)
     else if unat a = 24 then (case dec_byte d of Err e \<Rightarrow> Err e | Ok (b, r) \<Rightarrow> dec_minimum 24 (unat b, r))
     else if unat a = 25 then (case dec_fixed 2 d of Err e \<Rightarrow> Err e
        | Ok (bs, r) \<Rightarrow> dec_minimum 0x100 (from_be_bytes bs, r))
     else if unat a = 26 then (case dec_fixed 4 d of Err e \<Rightarrow> Err e
        | Ok (bs, r) \<Rightarrow> dec_minimum 0x10000 (from_be_bytes bs, r))
     else if unat a = 27 then (case dec_fixed 8 d of Err e \<Rightarrow> Err e
        | Ok (bs, r) \<Rightarrow> dec_minimum 0x100000000 (from_be_bytes bs, r))
     else Err Invalid)"
proof -
  have "a \<le> 23 \<longleftrightarrow> unat a \<le> 23" by (simp add: word_le_nat_alt)
  moreover have "a = 24 \<longleftrightarrow> unat a = 24" "a = 25 \<longleftrightarrow> unat a = 25" "a = 26 \<longleftrightarrow> unat a = 26" "a = 27 \<longleftrightarrow> unat a = 27"
    by (simp_all add: word_unat_eq_iff)
  ultimately show ?thesis unfolding dec_argument_def by simp
qed

lemma dec_wide:
  "(case dec_fixed k d of Err e \<Rightarrow> Err e | Ok (bs, r) \<Rightarrow> dec_minimum least (from_be_bytes bs, r)) = Ok (v, r)
     \<longleftrightarrow> d = to_be_bytes k v @ r \<and> least \<le> v \<and> v < 256 ^ k"
proof
  assume "(case dec_fixed k d of Err e \<Rightarrow> Err e | Ok (bs, r) \<Rightarrow> dec_minimum least (from_be_bytes bs, r)) = Ok (v, r)"
  then obtain bs where "d = bs @ r" "length bs = k" "v = from_be_bytes bs" "least \<le> v"
    by (auto simp: dec_fixed_Ok dec_minimum_Ok)
  then show "d = to_be_bytes k v @ r \<and> least \<le> v \<and> v < 256 ^ k"
    using to_from_be_bytes [of bs] from_be_bound [of bs] by simp
next
  assume *: "d = to_be_bytes k v @ r \<and> least \<le> v \<and> v < 256 ^ k"
  then have "dec_fixed k d = Ok (to_be_bytes k v, r)" by (simp add: dec_fixed_Ok)
  then show "(case dec_fixed k d of Err e \<Rightarrow> Err e | Ok (bs, r) \<Rightarrow> dec_minimum least (from_be_bytes bs, r)) = Ok (v, r)"
    using * by (simp add: dec_minimum_Ok from_to_be_bytes)
qed

lemma dec_one:
  "(case dec_byte d of Err e \<Rightarrow> Err e | Ok (b, r) \<Rightarrow> dec_minimum least (unat b, r)) = Ok (v, r)
     \<longleftrightarrow> d = to_be_bytes 1 v @ r \<and> least \<le> v \<and> v < 256"
proof
  assume "(case dec_byte d of Err e \<Rightarrow> Err e | Ok (b, r) \<Rightarrow> dec_minimum least (unat b, r)) = Ok (v, r)"
  then show "d = to_be_bytes 1 v @ r \<and> least \<le> v \<and> v < 256"
    using unat_u8_bound by (auto simp: dec_byte_Ok dec_minimum_Ok)
next
  assume *: "d = to_be_bytes 1 v @ r \<and> least \<le> v \<and> v < 256"
  then have "dec_byte d = Ok (of_nat v, r)" by (simp add: dec_byte_Ok)
  then show "(case dec_byte d of Err e \<Rightarrow> Err e | Ok (b, r) \<Rightarrow> dec_minimum least (unat b, r)) = Ok (v, r)"
    using * by (simp add: dec_minimum_Ok)
qed

text \<open>Exactly the short form of a value is read as that value.\<close>

lemma additional_of_eq:
  "n \<le> 23 \<Longrightarrow> n = additional_of v \<longleftrightarrow> v = n"
  "24 = additional_of v \<longleftrightarrow> 24 \<le> v \<and> v < 256 ^ 1"
  "25 = additional_of v \<longleftrightarrow> 0x100 \<le> v \<and> v < 256 ^ 2"
  "26 = additional_of v \<longleftrightarrow> 0x10000 \<le> v \<and> v < 256 ^ 4"
  "27 = additional_of v \<longleftrightarrow> 0x100000000 \<le> v"
  by (auto simp: additional_of_def)

lemma argument_bytes_eq:
  "v \<le> 23 \<Longrightarrow> argument_bytes v = []"
  "24 \<le> v \<Longrightarrow> v < 256 ^ 1 \<Longrightarrow> argument_bytes v = to_be_bytes 1 v"
  "0x100 \<le> v \<Longrightarrow> v < 256 ^ 2 \<Longrightarrow> argument_bytes v = to_be_bytes 2 v"
  "0x10000 \<le> v \<Longrightarrow> v < 256 ^ 4 \<Longrightarrow> argument_bytes v = to_be_bytes 4 v"
  "0x100000000 \<le> v \<Longrightarrow> argument_bytes v = to_be_bytes 8 v"
  unfolding argument_bytes_def by auto

lemma dec_argument_Ok:
  "dec_argument a d = Ok (v, r) \<longleftrightarrow> unat a = additional_of v \<and> d = argument_bytes v @ r \<and> v < 2 ^ 64"
proof -
  have b: "(256 :: nat) ^ 1 \<le> 2 ^ 64" "(256 :: nat) ^ 2 \<le> 2 ^ 64" "(256 :: nat) ^ 4 \<le> 2 ^ 64" "(256 :: nat) ^ 8 = 2 ^ 64"
    by simp_all
  consider "unat a \<le> 23" | "unat a = 24" | "unat a = 25" | "unat a = 26" | "unat a = 27" | "27 < unat a" by linarith
  then show ?thesis
  proof cases
    case 1
    then have "dec_argument a d = Ok (unat a, d)" unfolding dec_argument_nat by simp
    moreover have "unat a = additional_of v \<longleftrightarrow> v = unat a" using additional_of_eq(1) [OF 1] .
    ultimately show ?thesis using 1 argument_bytes_eq(1) [of v] by auto
  next
    case 2
    then have "dec_argument a d = Ok (v, r) \<longleftrightarrow> d = to_be_bytes 1 v @ r \<and> 24 \<le> v \<and> v < 256 ^ 1"
      unfolding dec_argument_nat using dec_one [where d = d and least = 24 and v = v and r = r] by simp
    then show ?thesis unfolding 2 additional_of_eq using b(1) argument_bytes_eq(2) [of v] by fastforce
  next
    case 3
    then have "dec_argument a d = Ok (v, r) \<longleftrightarrow> d = to_be_bytes 2 v @ r \<and> 0x100 \<le> v \<and> v < 256 ^ 2"
      unfolding dec_argument_nat using dec_wide [where k = 2 and d = d and least = "0x100" and v = v and r = r] by simp
    then show ?thesis unfolding 3 additional_of_eq using b(2) argument_bytes_eq(3) [of v] by fastforce
  next
    case 4
    then have "dec_argument a d = Ok (v, r) \<longleftrightarrow> d = to_be_bytes 4 v @ r \<and> 0x10000 \<le> v \<and> v < 256 ^ 4"
      unfolding dec_argument_nat using dec_wide [where k = 4 and d = d and least = "0x10000" and v = v and r = r] by simp
    then show ?thesis unfolding 4 additional_of_eq using b(3) argument_bytes_eq(4) [of v] by fastforce
  next
    case 5
    then have "dec_argument a d = Ok (v, r) \<longleftrightarrow> d = to_be_bytes 8 v @ r \<and> 0x100000000 \<le> v \<and> v < 256 ^ 8"
      unfolding dec_argument_nat using dec_wide [where k = 8 and d = d and least = "0x100000000" and v = v and r = r] by simp
    then show ?thesis unfolding 5 additional_of_eq b(4) using argument_bytes_eq(5) [of v] by auto
  next
    case 6
    then show ?thesis unfolding dec_argument_nat using additional_of_bound [of v] by auto
  qed
qed

lemma dec_length_Ok:
  assumes "unat m < 8"
  shows "dec_length m d = Ok (v, r) \<longleftrightarrow> d = encode_head m v @ r \<and> v < 2 ^ 64"
proof
  assume "dec_length m d = Ok (v, r)"
  then obtain b rest where d: "d = b # rest" "drop_bit 5 b = m" "unat (b AND 0x1f) = additional_of v"
    "rest = argument_bytes v @ r" "v < 2 ^ 64"
    by (auto simp: dec_length_def dec_byte_Ok dec_argument_Ok split: if_splits)
  then have "b AND 0x1f = of_nat (additional_of v)" by (simp flip: d(3))
  then have "push_bit 5 m OR of_nat (additional_of v) = b" using head_split [of b] d(2) by simp
  then show "d = encode_head m v @ r \<and> v < 2 ^ 64" using d by (simp add: encode_head_eq)
next
  assume *: "d = encode_head m v @ r \<and> v < 2 ^ 64"
  have small: "unat (of_nat (additional_of v) :: u8) = additional_of v" "additional_of v < 32"
    using additional_of_bound [of v] by simp_all
  define h where "h = push_bit 5 m OR (of_nat (additional_of v) :: u8)"
  have h: "drop_bit 5 h = m" "h AND 0x1f = of_nat (additional_of v)"
    unfolding h_def using small assms by (intro head_major head_additional; simp)+
  have "dec_argument (h AND 0x1f) (argument_bytes v @ r) = Ok (v, r)"
    using * small by (simp add: dec_argument_Ok h(2))
  then show "dec_length m d = Ok (v, r)"
    using * h(1) by (simp add: dec_length_def dec_byte_def encode_head_eq h_def [symmetric])
qed

lemma dec_uint_Ok: "dec_uint d = Ok (v, r) \<longleftrightarrow> d = encode_uint v @ r \<and> v < 2 ^ 64"
  using dec_length_Ok [of MAJOR_UINT d v r] by (simp add: dec_uint_def dec_length_def encode_uint_def MAJOR_UINT_def)

lemma dec_array_len_Ok: "dec_array_len d = Ok (v, r) \<longleftrightarrow> d = encode_array v @ r \<and> v < 2 ^ 64"
  using dec_length_Ok [of MAJOR_ARRAY d v r] by (simp add: dec_array_len_def encode_array_def MAJOR_ARRAY_def)

lemma dec_array_Ok: "dec_array n d = Ok r \<longleftrightarrow> d = encode_array n @ r \<and> n < 2 ^ 64"
  by (auto simp: dec_array_def dec_array_len_Ok split: sum.splits)

lemma dec_take_Ok: "dec_take n limit d = Ok (bs, r) \<longleftrightarrow> d = bs @ r \<and> length bs = n \<and> n \<le> limit"
  by (auto simp: dec_take_def)

lemma dec_bytes_Ok:
  "dec_bytes limit d = Ok (bs, r) \<longleftrightarrow> d = encode_bytes bs @ r \<and> length bs \<le> limit \<and> length bs < 2 ^ 64"
  by (auto simp: dec_bytes_def dec_length_Ok dec_take_Ok encode_bytes_def MAJOR_BYTES_def)

lemma encode_uint_hd: "encode_uint v \<noteq> [] \<and> hd (encode_uint v) \<noteq> CBOR_NULL"
proof -
  have "drop_bit 5 (hd (encode_uint v)) = 0"
    using head_major [of "of_nat (additional_of v)" 0] additional_of_bound [of v]
    by (simp add: encode_uint_def encode_head_eq MAJOR_UINT_def)
  moreover have "drop_bit 5 CBOR_NULL \<noteq> 0" by (simp add: CBOR_NULL_def)
  ultimately have "hd (encode_uint v) \<noteq> CBOR_NULL" by metis
  then show ?thesis by (simp add: encode_uint_def encode_head_eq)
qed

lemma dec_optional_uint_Ok:
  "dec_optional_uint d = Ok (v, r) \<longleftrightarrow> d = encode_optional_uint v @ r \<and> (\<forall>n. v = Some n \<longrightarrow> n < 2 ^ 64)"
proof (cases v)
  case None
  then show ?thesis by (cases d) (auto simp: dec_optional_uint_def encode_optional_uint_def dec_uint_Ok)
next
  case (Some n)
  then show ?thesis
    using encode_uint_hd [of n]
    by (auto simp: dec_optional_uint_def encode_optional_uint_def dec_uint_Ok)
qed

subsection \<open>UTF-8\<close>

lemma sixty_four: "(c :: nat) div 64 * 64 + c mod 64 = c" "c div 4096 * 4096 + c div 64 mod 64 * 64 + c mod 64 = c"
  "c div 262144 * 262144 + c div 4096 mod 64 * 4096 + c div 64 mod 64 * 64 + c mod 64 = c"
proof -
  have a: "(c div 64) div 64 = c div 4096" "(c div 4096) div 64 = c div 262144"
    by (simp_all flip: div_mult2_eq)
  have b: "c div 64 * 64 + c mod 64 = c" "c div 4096 * 64 + c div 64 mod 64 = c div 64"
    "c div 262144 * 64 + c div 4096 mod 64 = c div 4096"
    using div_mult_mod_eq [of c 64] div_mult_mod_eq [of "c div 64" 64] div_mult_mod_eq [of "c div 4096" 64]
    unfolding a by simp_all
  show "c div 64 * 64 + c mod 64 = c" using b(1) .
  show "c div 4096 * 4096 + c div 64 mod 64 * 64 + c mod 64 = c" using b(1,2) by linarith
  show "c div 262144 * 262144 + c div 4096 mod 64 * 4096 + c div 64 mod 64 * 64 + c mod 64 = c"
    using b by linarith
qed

lemma utf8_lead_bounds:
  "c < 0x800 \<Longrightarrow> c div 64 < 32" "c < 0x10000 \<Longrightarrow> c div 4096 < 16" "c < 0x110000 \<Longrightarrow> c div 262144 < 5" for c :: nat
  by (simp_all add: less_mult_imp_div_less)

lemma candidate_encode: "is_scalar c \<Longrightarrow> utf8_candidate (utf8_encode c @ r) = c"
proof -
  assume "is_scalar c"
  then have c: "c < 0x110000" by (simp add: is_scalar_def)
  consider "c < 0x80" | "0x80 \<le> c" "c < 0x800" | "0x800 \<le> c" "c < 0x10000" | "0x10000 \<le> c" by linarith
  then show ?thesis
  proof cases
    case 1
    then show ?thesis by (simp add: utf8_candidate_def utf8_encode_def Let_def)
  next
    case 2
    then show ?thesis
      using utf8_lead_bounds(1) [of c] sixty_four(1) [of c] by (simp add: utf8_candidate_def utf8_encode_def Let_def)
  next
    case 3
    then show ?thesis
      using utf8_lead_bounds(2) [of c] sixty_four(2) [of c]
      by (simp add: utf8_candidate_def utf8_encode_def Let_def numeral_2_eq_2)
  next
    case 4
    then show ?thesis
      using utf8_lead_bounds(3) [OF c] sixty_four(3) [of c]
      by (simp add: utf8_candidate_def utf8_encode_def Let_def numeral_2_eq_2 numeral_3_eq_3)
  qed
qed

lemma from_utf8_Some: "from_utf8 bs = Some s \<longleftrightarrow> bs = str_bytes s \<and> list_all is_scalar s"
proof
  show "from_utf8 bs = Some s \<Longrightarrow> bs = str_bytes s \<and> list_all is_scalar s"
  proof (induction bs arbitrary: s rule: from_utf8.induct)
    case (1 bs)
    show ?case
    proof (cases "bs = []")
      case True
      then show ?thesis using "1.prems" by (simp add: from_utf8.simps str_bytes_def)
    next
      case False
      define c where "c = utf8_candidate bs"
      obtain t where c: "is_scalar c" "take (utf8_width c) bs = utf8_encode c"
        and t: "from_utf8 (drop (utf8_width c) bs) = Some t" "s = c # t"
        using "1.prems" False unfolding from_utf8.simps [of bs] Let_def c_def [symmetric]
        by (auto split: if_splits option.splits)
      then have "drop (utf8_width c) bs = str_bytes t \<and> list_all is_scalar t"
        using "1.IH" [OF False c_def refl] by simp
      then show ?thesis using c t(2) append_take_drop_id [of "utf8_width c" bs] by (simp add: str_bytes_def)
    qed
  qed
next
  assume *: "bs = str_bytes s \<and> list_all is_scalar s"
  have "list_all is_scalar s \<Longrightarrow> from_utf8 (str_bytes s) = Some s"
  proof (induction s)
    case (Cons c s)
    have ne: "utf8_encode c \<noteq> []" by (simp add: utf8_encode_def)
    show ?case
      using Cons ne candidate_encode [of c "str_bytes s"]
      by (subst from_utf8.simps) (simp add: str_bytes_def Let_def flip: length_utf8_encode)
  qed (simp add: from_utf8.simps str_bytes_def)
  then show "from_utf8 bs = Some s" using * by simp
qed

lemma utf8_encode_bound: "is_scalar c \<Longrightarrow> b \<in> set (utf8_encode c) \<Longrightarrow> b < 256"
proof -
  assume c: "is_scalar c" and b: "b \<in> set (utf8_encode c)"
  then have "c < 0x110000" by (simp add: is_scalar_def)
  moreover have "x mod 64 < 128" for x :: nat using mod_less_divisor [of 64 x] by linarith
  ultimately show ?thesis
    using b utf8_lead_bounds [of c] by (auto simp: utf8_encode_def split: if_splits)
qed

lemma str_from_bytes_Some: "str_from_bytes bs = Some s \<longleftrightarrow> bs = str_as_bytes s \<and> list_all is_scalar s"
proof -
  have "map unat bs = str_bytes s \<longleftrightarrow> bs = str_as_bytes s" if s: "list_all is_scalar s"
  proof
    assume "map unat bs = str_bytes s"
    then have "map of_nat (map unat bs) = (map of_nat (str_bytes s) :: u8 list)" by (simp only:)
    then show "bs = str_as_bytes s" by (simp add: str_as_bytes_def o_def)
  next
    assume bs: "bs = str_as_bytes s"
    have "b < 256" if "b \<in> set (str_bytes s)" for b
      using s that utf8_encode_bound by (auto simp: str_bytes_def list_all_iff)
    then show "map unat bs = str_bytes s" unfolding bs str_as_bytes_def by (simp add: map_idI)
  qed
  then show ?thesis by (auto simp: str_from_bytes_def from_utf8_Some)
qed

lemma length_str_as_bytes [simp]: "length (str_as_bytes s) = str_len s"
  by (simp add: str_as_bytes_def)

lemma dec_text_Ok:
  "dec_text limit d = Ok (s, r) \<longleftrightarrow>
     d = encode_text s @ r \<and> str_len s \<le> limit \<and> str_len s < 2 ^ 64 \<and> list_all is_scalar s"
proof
  assume "dec_text limit d = Ok (s, r)"
  then show "d = encode_text s @ r \<and> str_len s \<le> limit \<and> str_len s < 2 ^ 64 \<and> list_all is_scalar s"
    by (auto simp: dec_text_def dec_length_Ok dec_take_Ok encode_text_def MAJOR_TEXT_def str_from_bytes_Some)
next
  assume *: "d = encode_text s @ r \<and> str_len s \<le> limit \<and> str_len s < 2 ^ 64 \<and> list_all is_scalar s"
  then have "dec_length MAJOR_TEXT d = Ok (str_len s, str_as_bytes s @ r)"
    by (subst dec_length_Ok) (simp_all add: encode_text_def MAJOR_TEXT_def)
  moreover have "dec_take (str_len s) limit (str_as_bytes s @ r) = Ok (str_as_bytes s, r)"
    using * by (simp add: dec_take_Ok)
  moreover have "str_from_bytes (str_as_bytes s) = Some s" using * by (simp add: str_from_bytes_Some)
  ultimately show "dec_text limit d = Ok (s, r)" by (simp add: dec_text_def)
qed

lemmas decodes [result_simps] = dec_uint_Ok dec_optional_uint_Ok dec_bytes_Ok dec_text_Ok dec_array_len_Ok dec_array_Ok

subsection \<open>Properties\<close>

text \<open>
  C19: the reader accepts exactly what the writer writes. An item is read as a
  value if and only if the input starts with that value's encoding (and the
  value fits the reader's limit), so no value has a second encoding: longer
  forms of numbers and lengths, indefinite lengths and malformed UTF-8 are all
  refused.
\<close>

theorem cbor_is_canonical:
  "(dec_uint d = Ok (v, r) \<longleftrightarrow> d = encode_uint v @ r \<and> v < 2 ^ 64)
   \<and> (dec_optional_uint d = Ok (o', r) \<longleftrightarrow>
        d = encode_optional_uint o' @ r \<and> (case o' of None \<Rightarrow> True | Some n \<Rightarrow> n < 2 ^ 64))
   \<and> (dec_array_len d = Ok (v, r) \<longleftrightarrow> d = encode_array v @ r \<and> v < 2 ^ 64)
   \<and> (dec_bytes limit d = Ok (bs, r) \<longleftrightarrow> d = encode_bytes bs @ r \<and> length bs \<le> limit \<and> length bs < 2 ^ 64)
   \<and> (dec_text limit d = Ok (s, r) \<longleftrightarrow>
        d = encode_text s @ r \<and> str_len s \<le> limit \<and> str_len s < 2 ^ 64 \<and> list_all is_scalar s)"
  by (simp add: decodes split: option.splits)

end
