(* ===== verification/Node_Key.thy ===== *)
theory Node_Key
  imports Cbor
begin

text \<open>
  Node identity keys (crates/invite-capsule \<open>node_key.rs\<close>) and the bytes a node
  signs (\<open>signature.rs\<close>). Ed25519, the hash functions and the base-32 and
  base-64 codecs are third-party packages: they are the fields of the record
  \<open>primitives\<close>, which every operation that needs them takes as an argument.
\<close>

subsection \<open>Third-party parameters\<close>

record primitives =
  key_from_bytes :: "u8 list \<Rightarrow> bool"
  key_is_weak :: "u8 list \<Rightarrow> bool"
  verify_strict :: "u8 list \<Rightarrow> u8 list \<Rightarrow> u8 list \<Rightarrow> bool"
  verifying_key :: "u8 list \<Rightarrow> u8 list"
  sign_message :: "u8 list \<Rightarrow> u8 list \<Rightarrow> u8 list"
  sha256 :: "u8 list \<Rightarrow> u8 list"
  sha3_256 :: "u8 list \<Rightarrow> u8 list"
  base64url_encode :: "u8 list \<Rightarrow> rstr"
  base64url_decode :: "rstr \<Rightarrow> u8 list option"
  base32_encode :: "u8 list \<Rightarrow> rstr"
  base32_decode :: "rstr \<Rightarrow> u8 list option"

text \<open>What the program relies on: signatures made with a key verify under its
  public key, which is an acceptable one; encodings decode to what was
  encoded, in the alphabet of their codec and at its size (four characters for three
  bytes); digests have their length.\<close>

definition is_base64url_char :: "uchar \<Rightarrow> bool" where
  "is_base64url_char c \<longleftrightarrow> is_alnum c \<or> c = 45 \<or> c = 95"

definition primitives_ok :: "primitives \<Rightarrow> bool" where
  "primitives_ok p \<longleftrightarrow>
     (\<forall>seed. length (verifying_key p seed) = 32 \<and> key_from_bytes p (verifying_key p seed)
        \<and> verifying_key p seed \<noteq> replicate 32 0)
   \<and> (\<forall>seed m. length (sign_message p seed m) = 64 \<and> verify_strict p (verifying_key p seed) m (sign_message p seed m))
   \<and> (\<forall>bs. base64url_decode p (base64url_encode p bs) = Some bs \<and> list_all is_base64url_char (base64url_encode p bs)
        \<and> (bs \<noteq> [] \<longrightarrow> base64url_encode p bs \<noteq> []) \<and> 3 * length (base64url_encode p bs) \<le> 4 * length bs + 2)
   \<and> (\<forall>bs. length (sha256 p bs) = 32)"

subsection \<open>Keys\<close>

text \<open>A node's public key: 32 bytes that \<open>node_key_from_bytes\<close> accepted.\<close>

type_synonym NodePublicKey = "u8 list"

definition node_key_from_bytes :: "primitives \<Rightarrow> u8 list \<Rightarrow> CapsuleError + NodePublicKey" where
  "node_key_from_bytes p bytes = (if bytes = replicate 32 0 then Err InvalidNodeKey
     else if \<not> key_from_bytes p bytes then Err InvalidNodeKey else Ok bytes)"

definition node_key_verify :: "primitives \<Rightarrow> NodePublicKey \<Rightarrow> u8 list \<Rightarrow> u8 list \<Rightarrow> bool" where
  "node_key_verify p key message signature \<longleftrightarrow> key_from_bytes p key \<and> verify_strict p key message signature"

text \<open>Exactly \<open>n\<close> bytes of canonical unpadded Base64URL.\<close>

definition decode_exact :: "primitives \<Rightarrow> nat \<Rightarrow> rstr \<Rightarrow> u8 list option" where
  "decode_exact p n s = (case base64url_decode p s of None \<Rightarrow> None
     | Some decoded \<Rightarrow> if base64url_encode p decoded \<noteq> s then None
         else if length decoded = n then Some decoded else None)"

definition node_key_from_base64url :: "primitives \<Rightarrow> rstr \<Rightarrow> CapsuleError + NodePublicKey" where
  "node_key_from_base64url p s = (case decode_exact p 32 s of None \<Rightarrow> Err InvalidNodeKey
     | Some bytes \<Rightarrow> node_key_from_bytes p bytes)"

definition node_key_to_base64url :: "primitives \<Rightarrow> NodePublicKey \<Rightarrow> rstr" where
  "node_key_to_base64url p key = base64url_encode p key"

definition signing_key_public :: "primitives \<Rightarrow> u8 list \<Rightarrow> NodePublicKey" where
  "signing_key_public p seed = verifying_key p seed"

definition signing_key_sign :: "primitives \<Rightarrow> u8 list \<Rightarrow> u8 list \<Rightarrow> u8 list" where
  "signing_key_sign p seed message = sign_message p seed message"

definition signing_key_from_base64url :: "primitives \<Rightarrow> rstr \<Rightarrow> CapsuleError + u8 list" where
  "signing_key_from_base64url p s = ok_or (decode_exact p 32 s) InvalidNodeKey"

definition hex_digit :: "nat \<Rightarrow> uchar" where
  "hex_digit n = (if n < 10 then 48 + n else 55 + n)"

definition hex_byte :: "u8 \<Rightarrow> rstr" where
  "hex_byte b = [hex_digit (unat b div 16), hex_digit (unat b mod 16)]"

fun fingerprint_groups :: "u8 list \<Rightarrow> rstr list" where
  "fingerprint_groups (a # b # r) = (hex_byte a @ hex_byte b) # fingerprint_groups r"
| "fingerprint_groups _ = []"

definition key_fingerprint :: "primitives \<Rightarrow> u8 list \<Rightarrow> u8 list \<Rightarrow> rstr" where
  "key_fingerprint p domain key = join_with 58 (fingerprint_groups (take 16 (sha256 p (domain @ key))))"

subsection \<open>What a node signs\<close>

definition signature_input :: "u8 list \<Rightarrow> rstr \<Rightarrow> u8 list \<Rightarrow> u8 list" where
  "signature_input domain application_id payload =
     (let n = (if str_len application_id < 65536 then str_len application_id else 65535)
      in domain @ to_be_bytes 2 n @ str_as_bytes application_id @ payload)"

subsection \<open>Properties\<close>

lemma decode_exact_Some:
  "decode_exact p n s = Some bs \<Longrightarrow> base64url_encode p bs = s \<and> length bs = n"
  by (auto simp: decode_exact_def split: option.splits if_splits)

lemma decode_exact_encode:
  "primitives_ok p \<Longrightarrow> decode_exact p (length bs) (base64url_encode p bs) = Some bs"
  by (simp add: decode_exact_def primitives_ok_def)

text \<open>
  What a node signs determines what it was signed for. Under one signature
  domain, two applications (whose IDs are shorter than 64 KiB) or two payloads
  never give the same bytes, so a signature for one is never one for another.
\<close>

theorem signature_input_injective:
  assumes "str_len a < 65536" "str_len b < 65536" "list_all is_scalar a" "list_all is_scalar b"
    and "signature_input domain a x = signature_input domain b y"
  shows "a = b \<and> x = y"
proof -
  define h where "h = to_be_bytes 2"
  have h: "from_be_bytes (h n) = n" if "n < 65536" for n
    unfolding h_def by (rule from_to_be_bytes) (use that in simp)
  have len: "length (h n) = 2" for n by (simp add: h_def)
  have "h (str_len a) @ str_as_bytes a @ x = h (str_len b) @ str_as_bytes b @ y"
    using assms(5) unfolding signature_input_def Let_def if_P [OF assms(1)] if_P [OF assms(2)] h_def by simp
  then have "h (str_len a) = h (str_len b)" and rest: "str_as_bytes a @ x = str_as_bytes b @ y"
    using len by simp_all
  then have "str_len a = str_len b" using h [OF assms(1)] h [OF assms(2)] by metis
  then have eq: "str_as_bytes a = str_as_bytes b" "x = y" using rest by simp_all
  have "str_from_bytes (str_as_bytes a) = Some a" "str_from_bytes (str_as_bytes b) = Some b"
    using assms(3,4) by (simp_all add: str_from_bytes_Some)
  then have "Some a = Some b" unfolding eq(1) by (rule trans [OF sym])
  then show ?thesis using eq(2) by blast
qed

theorem signature_input_injective_witness:
  "signature_input [1] (lit ''org.a'') [] \<noteq> signature_input [1] (lit ''org.b'') []"
proof
  assume "signature_input [1] (lit ''org.a'') [] = signature_input [1] (lit ''org.b'') []"
  from signature_input_injective [OF _ _ _ _ this] show False
    by (simp add: lit_def str_len_def utf8_width_def is_scalar_def)
qed

end
