(* ===== verification/Locator.thy ===== *)
theory Locator
  imports Node_Key Net
begin

text \<open>
  Where a client reaches a node (crates/invite-capsule \<open>locator/\<close>): the kinds
  of locator, the host policy, their encoding inside an invite, and how one is
  derived from a node's public URL.
\<close>

type_synonym u16 = "16 word"

definition MAX_LOCATORS :: nat where "MAX_LOCATORS = 4"
definition LOCATOR_FIELDS :: nat where "LOCATOR_FIELDS = 3"
definition TAG_HTTPS :: nat where "TAG_HTTPS = 1"
definition TAG_LOOPBACK_DEVELOPMENT :: nat where "TAG_LOOPBACK_DEVELOPMENT = 2"
definition TAG_ONION_V3 :: nat where "TAG_ONION_V3 = 3"
definition TAG_I2P_B32 :: nat where "TAG_I2P_B32 = 4"
definition MAX_HOST_BYTES :: nat where "MAX_HOST_BYTES = 253"
definition MAX_PUBLIC_URL_BYTES :: nat where "MAX_PUBLIC_URL_BYTES = 512"

lemmas tag_defs = TAG_HTTPS_def TAG_LOOPBACK_DEVELOPMENT_def TAG_ONION_V3_def TAG_I2P_B32_def

datatype LoopbackHost = LocalhostName | Loopback4 | Loopback6 | AndroidEmulator

fun loopback_as_str :: "LoopbackHost \<Rightarrow> rstr" where
  "loopback_as_str LocalhostName = lit ''localhost''"
| "loopback_as_str Loopback4 = lit ''127.0.0.1''"
| "loopback_as_str Loopback6 = lit ''::1''"
| "loopback_as_str AndroidEmulator = lit ''10.0.2.2''"

fun loopback_tag :: "LoopbackHost \<Rightarrow> nat" where
  "loopback_tag LocalhostName = 1"
| "loopback_tag Loopback4 = 2"
| "loopback_tag Loopback6 = 3"
| "loopback_tag AndroidEmulator = 4"

definition loopback_from_tag :: "nat \<Rightarrow> CapsuleError + LoopbackHost" where
  "loopback_from_tag tag = (if tag = 1 then Ok LocalhostName else if tag = 2 then Ok Loopback4
     else if tag = 3 then Ok Loopback6 else if tag = 4 then Ok AndroidEmulator else Err UnsafeLocator)"

text \<open>The two byte arrays are 32 bytes long (\<open>locator_typed\<close>).\<close>

datatype Locator = Https rstr u16 | LoopbackDevelopment LoopbackHost u16 | OnionV3 "u8 list" u16 | I2pB32 "u8 list" u16

fun locator_typed :: "Locator \<Rightarrow> bool" where
  "locator_typed (OnionV3 key port) = (length key = 32)"
| "locator_typed (I2pB32 hash port) = (length hash = 32)"
| "locator_typed _ = True"

subsection \<open>Host policy\<close>

definition NON_PUBLIC_SUFFIXES :: "rstr list" where
  "NON_PUBLIC_SUFFIXES = map lit [''local'', ''localhost'', ''internal'', ''onion'', ''i2p'', ''home.arpa'', ''test'',
     ''example'', ''invalid'']"

definition valid_label :: "rstr \<Rightarrow> bool" where
  "valid_label label \<longleftrightarrow> 1 \<le> str_len label \<and> str_len label \<le> 63 \<and> hd label \<noteq> 45 \<and> last label \<noteq> 45
     \<and> list_all (\<lambda>c. is_lower c \<or> is_digit c \<or> c = 45) label"

definition valid_public_dns_name :: "rstr \<Rightarrow> bool" where
  "valid_public_dns_name host \<longleftrightarrow> \<not> (host = [] \<or> str_len host > MAX_HOST_BYTES)
     \<and> (let labels = split_on 46 host in
          length labels \<ge> 2 \<and> list_all valid_label labels \<and> list_ex is_lower (last labels))
     \<and> \<not> list_ex (\<lambda>suff. host = suff \<or> ends_with host (lit ''.'' @ suff)) NON_PUBLIC_SUFFIXES"

subsection \<open>Onion and I2P addresses\<close>

definition valid_onion_key :: "primitives \<Rightarrow> u8 list \<Rightarrow> bool" where
  "valid_onion_key p key \<longleftrightarrow> key_from_bytes p key \<and> \<not> key_is_weak p key"

definition onion_checksum :: "primitives \<Rightarrow> u8 list \<Rightarrow> u8 list" where
  "onion_checksum p key = take 2 (sha3_256 p (str_as_bytes (lit ''.onion checksum'') @ key @ [3]))"

definition onion_host :: "primitives \<Rightarrow> u8 list \<Rightarrow> rstr" where
  "onion_host p key = ascii_lower (base32_encode p (key @ onion_checksum p key @ [3])) @ lit ''.onion''"

definition i2p_host :: "primitives \<Rightarrow> u8 list \<Rightarrow> rstr" where
  "i2p_host p hash = ascii_lower (base32_encode p hash) @ lit ''.b32.i2p''"

definition decode_base32 :: "primitives \<Rightarrow> nat \<Rightarrow> rstr \<Rightarrow> CapsuleError + u8 list" where
  "decode_base32 p n s = (
     if str_len s \<noteq> (n * 8 + 4) div 5 \<or> \<not> list_all (\<lambda>c. is_lower c \<or> (50 \<le> c \<and> c \<le> 55)) s then Err UnsafeLocator
     else (case base32_decode p (ascii_upper s) of None \<Rightarrow> Err UnsafeLocator
     | Some bytes \<Rightarrow> if ascii_lower (base32_encode p bytes) \<noteq> s then Err UnsafeLocator
         else if length bytes = n then Ok bytes else Err UnsafeLocator))"

definition parse_onion_host :: "primitives \<Rightarrow> rstr \<Rightarrow> CapsuleError + u8 list" where
  "parse_onion_host p host = (case strip_suffix host (lit ''.onion'') of None \<Rightarrow> Err UnsafeLocator | Some label \<Rightarrow>
     (case decode_base32 p 35 label of Err e \<Rightarrow> Err e | Ok bytes \<Rightarrow>
       let key = take 32 bytes in
       if bytes ! 34 \<noteq> 3 \<or> take 2 (drop 32 bytes) \<noteq> onion_checksum p key then Err UnsafeLocator
       else if valid_onion_key p key then Ok key else Err UnsafeLocator))"

definition parse_i2p_host :: "primitives \<Rightarrow> rstr \<Rightarrow> CapsuleError + u8 list" where
  "parse_i2p_host p host = (case strip_suffix host (lit ''.b32.i2p'') of None \<Rightarrow> Err UnsafeLocator | Some label \<Rightarrow>
     (case decode_base32 p 32 label of Err e \<Rightarrow> Err e
      | Ok hash \<Rightarrow> if hash = replicate 32 0 then Err UnsafeLocator else Ok hash))"

subsection \<open>Locators\<close>

fun locator_tag :: "Locator \<Rightarrow> nat" where
  "locator_tag (Https _ _) = TAG_HTTPS"
| "locator_tag (LoopbackDevelopment _ _) = TAG_LOOPBACK_DEVELOPMENT"
| "locator_tag (OnionV3 _ _) = TAG_ONION_V3"
| "locator_tag (I2pB32 _ _) = TAG_I2P_B32"

fun locator_scheme :: "Locator \<Rightarrow> rstr \<Rightarrow> rstr \<Rightarrow> rstr" where
  "locator_scheme (Https _ _) tls plain = tls"
| "locator_scheme _ tls plain = plain"

definition authority :: "rstr \<Rightarrow> u16 \<Rightarrow> u16 \<Rightarrow> rstr" where
  "authority host port default_port = (let host = (if 58 \<in> set host then lit ''['' @ host @ lit '']'' else host)
     in if port = default_port then host else host @ lit '':'' @ decimal (unat port))"

fun display_host :: "primitives \<Rightarrow> Locator \<Rightarrow> rstr" where
  "display_host p (Https host port) = authority host port 443"
| "display_host p (LoopbackDevelopment host port) = authority (loopback_as_str host) port 80"
| "display_host p (OnionV3 key port) = authority (onion_host p key) port 80"
| "display_host p (I2pB32 hash port) = authority (i2p_host p hash) port 80"

definition locator_origin :: "primitives \<Rightarrow> Locator \<Rightarrow> rstr" where
  "locator_origin p l = locator_scheme l (lit ''https'') (lit ''http'') @ lit ''://'' @ display_host p l"

definition locator_base_url :: "primitives \<Rightarrow> Locator \<Rightarrow> rstr" where
  "locator_base_url p l = locator_origin p l @ lit ''/''"

definition websocket_origin :: "primitives \<Rightarrow> Locator \<Rightarrow> rstr" where
  "websocket_origin p l = locator_scheme l (lit ''wss'') (lit ''ws'') @ lit ''://'' @ display_host p l"

fun is_development :: "Locator \<Rightarrow> bool" where
  "is_development (LoopbackDevelopment _ _) = True"
| "is_development _ = False"

fun locator_valid :: "primitives \<Rightarrow> Locator \<Rightarrow> bool" where
  "locator_valid p (Https host port) = (port \<noteq> 0 \<and> valid_public_dns_name host)"
| "locator_valid p (LoopbackDevelopment _ port) = (port \<noteq> 0)"
| "locator_valid p (OnionV3 key port) = (port \<noteq> 0 \<and> valid_onion_key p key)"
| "locator_valid p (I2pB32 hash port) = (port \<noteq> 0 \<and> hash \<noteq> replicate 32 0)"

definition locator_validate :: "primitives \<Rightarrow> Locator \<Rightarrow> CapsuleError + unit" where
  "locator_validate p l = (if locator_valid p l then Ok () else Err UnsafeLocator)"

definition locator_https :: "primitives \<Rightarrow> rstr \<Rightarrow> u16 \<Rightarrow> CapsuleError + Locator" where
  "locator_https p host port = (case locator_validate p (Https host port) of Err e \<Rightarrow> Err e | Ok _ \<Rightarrow> Ok (Https host port))"

fun locator_encode :: "Locator \<Rightarrow> u8 list" where
  "locator_encode (Https host port) = encode_array LOCATOR_FIELDS @ encode_uint TAG_HTTPS
     @ encode_text host @ encode_uint (unat port)"
| "locator_encode (LoopbackDevelopment host port) = encode_array LOCATOR_FIELDS @ encode_uint TAG_LOOPBACK_DEVELOPMENT
     @ encode_uint (loopback_tag host) @ encode_uint (unat port)"
| "locator_encode (OnionV3 key port) = encode_array LOCATOR_FIELDS @ encode_uint TAG_ONION_V3
     @ encode_bytes key @ encode_uint (unat port)"
| "locator_encode (I2pB32 hash port) = encode_array LOCATOR_FIELDS @ encode_uint TAG_I2P_B32
     @ encode_bytes hash @ encode_uint (unat port)"

record LocatorKinds =
  kind_https :: bool
  kind_loopback_development :: bool
  kind_onion_v3 :: bool
  kind_i2p_b32 :: bool

definition CLEARNET :: LocatorKinds where
  "CLEARNET = \<lparr>kind_https = True, kind_loopback_development = True, kind_onion_v3 = False, kind_i2p_b32 = False\<rparr>"

definition accepts_tag :: "LocatorKinds \<Rightarrow> nat \<Rightarrow> bool" where
  "accepts_tag kinds tag = (if tag = TAG_HTTPS then kind_https kinds
     else if tag = TAG_LOOPBACK_DEVELOPMENT then kind_loopback_development kinds
     else if tag = TAG_ONION_V3 then kind_onion_v3 kinds
     else if tag = TAG_I2P_B32 then kind_i2p_b32 kinds
     else False)"

definition accepts :: "LocatorKinds \<Rightarrow> Locator \<Rightarrow> bool" where
  "accepts kinds l = accepts_tag kinds (locator_tag l)"

definition decode_port :: "decoder \<Rightarrow> CapsuleError + (u16 \<times> decoder)" where
  "decode_port d = (case dec_uint d of Err e \<Rightarrow> Err e | Ok (v, r) \<Rightarrow>
     if v < 65536 then Ok (of_nat v, r) else Err UnsafeLocator)"

definition exact_32 :: "decoder \<Rightarrow> CapsuleError + (u8 list \<times> decoder)" where
  "exact_32 d = (case dec_bytes 32 d of Err e \<Rightarrow> Err e | Ok (bs, r) \<Rightarrow>
     if length bs = 32 then Ok (bs, r) else Err Invalid)"

definition locator_body :: "nat \<Rightarrow> decoder \<Rightarrow> CapsuleError + (Locator \<times> decoder)" where
  "locator_body tag d = (
     if tag = TAG_HTTPS then (case dec_text MAX_HOST_BYTES d of Err e \<Rightarrow> Err e | Ok (host, d) \<Rightarrow>
       (case decode_port d of Err e \<Rightarrow> Err e | Ok (port, d) \<Rightarrow> Ok (Https host port, d)))
     else if tag = TAG_LOOPBACK_DEVELOPMENT then (case dec_uint d of Err e \<Rightarrow> Err e | Ok (t, d) \<Rightarrow>
       (case loopback_from_tag t of Err e \<Rightarrow> Err e | Ok host \<Rightarrow>
       (case decode_port d of Err e \<Rightarrow> Err e | Ok (port, d) \<Rightarrow> Ok (LoopbackDevelopment host port, d))))
     else if tag = TAG_ONION_V3 then (case exact_32 d of Err e \<Rightarrow> Err e | Ok (key, d) \<Rightarrow>
       (case decode_port d of Err e \<Rightarrow> Err e | Ok (port, d) \<Rightarrow> Ok (OnionV3 key port, d)))
     else if tag = TAG_I2P_B32 then (case exact_32 d of Err e \<Rightarrow> Err e | Ok (hash, d) \<Rightarrow>
       (case decode_port d of Err e \<Rightarrow> Err e | Ok (port, d) \<Rightarrow> Ok (I2pB32 hash port, d)))
     else Err UnsupportedLocator)"

definition locator_decode :: "primitives \<Rightarrow> LocatorKinds \<Rightarrow> decoder \<Rightarrow> CapsuleError + (Locator \<times> decoder)" where
  "locator_decode p accepted d = (case dec_array LOCATOR_FIELDS d of Err e \<Rightarrow> Err e | Ok d \<Rightarrow>
     (case dec_uint d of Err e \<Rightarrow> Err e | Ok (tag, d) \<Rightarrow>
     if \<not> accepts_tag accepted tag then Err UnsupportedLocator
     else (case locator_body tag d of Err e \<Rightarrow> Err e | Ok (l, d) \<Rightarrow>
       (case locator_validate p l of Err e \<Rightarrow> Err e | Ok _ \<Rightarrow> Ok (l, d)))))"

fun validate_locators :: "primitives \<Rightarrow> LocatorKinds \<Rightarrow> Locator set \<Rightarrow> Locator list \<Rightarrow> CapsuleError + unit" where
  "validate_locators p accepted seen [] = Ok ()"
| "validate_locators p accepted seen (l # ls) = (
     if \<not> accepts accepted l then Err UnsupportedLocator
     else (case locator_validate p l of Err e \<Rightarrow> Err e | Ok _ \<Rightarrow>
       if l \<in> seen then Err Invalid else validate_locators p accepted (insert l seen) ls))"

definition validate_locator_set :: "primitives \<Rightarrow> Locator list \<Rightarrow> LocatorKinds \<Rightarrow> CapsuleError + unit" where
  "validate_locator_set p ls accepted = (if ls = [] \<or> length ls > MAX_LOCATORS then Err Invalid
     else validate_locators p accepted {} ls)"

subsection \<open>Locators from URLs\<close>

definition require_plain_http :: "rstr \<Rightarrow> CapsuleError + unit" where
  "require_plain_http scheme = (if scheme = lit ''http'' then Ok () else Err UnsupportedLocator)"

definition loopback_host :: "url_host \<Rightarrow> CapsuleError + LoopbackHost" where
  "loopback_host host = (case host of
     Domain d \<Rightarrow> if d = lit ''localhost'' then Ok LocalhostName else Err UnsafeLocator
   | Ipv4 a \<Rightarrow> if ipv4_is_loopback a then Ok Loopback4 else if a = ipv4_of 10 0 2 2 then Ok AndroidEmulator else Err UnsafeLocator
   | Ipv6 a \<Rightarrow> if ipv6_is_loopback a then Ok Loopback6 else Err UnsafeLocator)"

definition locator_from_parts :: "primitives \<Rightarrow> rstr \<Rightarrow> url_host \<Rightarrow> u16 \<Rightarrow> CapsuleError + Locator" where
  "locator_from_parts p scheme host port = (
     let other = (if scheme = lit ''http'' then (case loopback_host host of Err e \<Rightarrow> Err e | Ok h \<Rightarrow> Ok (LoopbackDevelopment h port))
          else if scheme = lit ''https'' then Err UnsafeLocator else Err UnsupportedLocator)
     in case host of
       Domain domain \<Rightarrow>
         if ends_with domain (lit ''.onion'') then (case require_plain_http scheme of Err e \<Rightarrow> Err e | Ok _ \<Rightarrow>
           (case parse_onion_host p domain of Err e \<Rightarrow> Err e | Ok key \<Rightarrow> Ok (OnionV3 key port)))
         else if ends_with domain (lit ''.i2p'') then (case require_plain_http scheme of Err e \<Rightarrow> Err e | Ok _ \<Rightarrow>
           (case parse_i2p_host p domain of Err e \<Rightarrow> Err e | Ok hash \<Rightarrow> Ok (I2pB32 hash port)))
         else if scheme = lit ''https'' then Ok (Https domain port)
         else other
     | _ \<Rightarrow> other)"

definition is_ascii_whitespace :: "uchar \<Rightarrow> bool" where
  "is_ascii_whitespace c \<longleftrightarrow> c = 32 \<or> c = 9 \<or> c = 10 \<or> c = 12 \<or> c = 13"

definition locator_from_public_url :: "primitives \<Rightarrow> (rstr \<Rightarrow> parsed_url option) \<Rightarrow> rstr \<Rightarrow> CapsuleError + Locator" where
  "locator_from_public_url p url_parse s = (
     if s = [] \<or> str_len s > MAX_PUBLIC_URL_BYTES \<or> \<not> list_all (\<lambda>c. c < 128) s
        \<or> list_ex (\<lambda>c. c = 0 \<or> is_ascii_whitespace c) s then Err UnsafeLocator
     else (case url_parse s of None \<Rightarrow> Err UnsafeLocator | Some url \<Rightarrow>
     if url_username url \<noteq> [] \<or> url_password url \<noteq> None \<or> url_query url \<noteq> None \<or> url_fragment url \<noteq> None
        \<or> \<not> (url_path url = [] \<or> url_path url = lit ''/'') then Err UnsafeLocator
     else (case url_host url of None \<Rightarrow> Err UnsafeLocator | Some host \<Rightarrow>
     (case url_port_or_known_default url of None \<Rightarrow> Err UnsafeLocator | Some port \<Rightarrow>
     (case locator_from_parts p (url_scheme url) host port of Err e \<Rightarrow> Err e | Ok l \<Rightarrow>
     (case locator_validate p l of Err e \<Rightarrow> Err e | Ok _ \<Rightarrow> Ok l))))))"

subsection \<open>Reading what was written\<close>

lemma unat_u16_bound: "unat (w :: u16) < 65536"
  using unsigned_less [of w, where ?'a = nat] by simp

lemma decode_port_Ok: "decode_port d = Ok (port, r) \<longleftrightarrow> d = encode_uint (unat port) @ r"
proof
  assume "decode_port d = Ok (port, r)"
  then show "d = encode_uint (unat port) @ r"
    by (auto simp: decode_port_def decodes unat_of_nat take_bit_nat_eq_self split: if_splits)
next
  assume *: "d = encode_uint (unat port) @ r"
  then have "dec_uint d = Ok (unat port, r)" using unat_u16_bound [of port] by (simp add: decodes)
  then show "decode_port d = Ok (port, r)" using unat_u16_bound [of port] by (simp add: decode_port_def)
qed

lemma exact_32_Ok: "exact_32 d = Ok (bs, r) \<longleftrightarrow> d = encode_bytes bs @ r \<and> length bs = 32"
  by (auto simp: exact_32_def decodes)

lemma loopback_from_tag_Ok: "loopback_from_tag t = Ok h \<longleftrightarrow> t = loopback_tag h"
  by (cases h) (auto simp: loopback_from_tag_def)

lemma loopback_tag_bound: "loopback_tag h < 2 ^ 64"
  by (cases h) auto

lemma join_with_chars: "c \<in> set (join_with sep ps) \<Longrightarrow> c = sep \<or> (\<exists>p \<in> set ps. c \<in> set p)"
  by (induction sep ps rule: join_with.induct) auto

lemma valid_dns_chars:
  assumes "valid_public_dns_name host" "c \<in> set host"
  shows "is_lower c \<or> is_digit c \<or> c = 45 \<or> c = 46"
proof -
  have "list_all valid_label (split_on 46 host)" using assms(1) by (simp add: valid_public_dns_name_def Let_def)
  moreover have "c = 46 \<or> (\<exists>p \<in> set (split_on 46 host). c \<in> set p)"
    using join_with_chars [of c 46 "split_on 46 host"] assms(2) by simp
  ultimately show ?thesis by (auto simp: list_all_iff valid_label_def)
qed

lemma valid_dns_text: "valid_public_dns_name host \<Longrightarrow> list_all is_scalar host \<and> str_len host \<le> 253"
proof -
  assume v: "valid_public_dns_name host"
  have "is_scalar c" if "c \<in> set host" for c
    using valid_dns_chars [OF v that] by (auto simp: is_scalar_def char_class_defs)
  then show ?thesis using v by (simp add: list_all_iff valid_public_dns_name_def MAX_HOST_BYTES_def)
qed

lemma dec_text_valid_dns:
  assumes "valid_public_dns_name host"
  shows "dec_text MAX_HOST_BYTES d = Ok (host, r) \<longleftrightarrow> d = encode_text host @ r"
  using valid_dns_text [OF assms] by (auto simp: decodes MAX_HOST_BYTES_def)

definition locator_rest :: "Locator \<Rightarrow> u8 list" where
  "locator_rest l = (case l of Https host port \<Rightarrow> encode_text host @ encode_uint (unat port)
     | LoopbackDevelopment host port \<Rightarrow> encode_uint (loopback_tag host) @ encode_uint (unat port)
     | OnionV3 key port \<Rightarrow> encode_bytes key @ encode_uint (unat port)
     | I2pB32 hash port \<Rightarrow> encode_bytes hash @ encode_uint (unat port))"

lemma locator_encode_eq: "locator_encode l = encode_array LOCATOR_FIELDS @ encode_uint (locator_tag l) @ locator_rest l"
  by (cases l) (simp_all add: locator_rest_def)

lemma locator_body_tag: "locator_body tag d = Ok (l, r) \<Longrightarrow> tag = locator_tag l \<and> locator_typed l"
  by (auto simp: locator_body_def exact_32_Ok split: if_splits)

lemma locator_body_read:
  assumes "locator_body tag d = Ok (l, r)"
  shows "d = locator_rest l @ r"
  using assms
  by (auto simp: locator_body_def locator_rest_def decodes decode_port_Ok exact_32_Ok loopback_from_tag_Ok
      split: if_splits)

lemma locator_body_written:
  assumes "locator_typed l" "locator_valid p l"
  shows "locator_body (locator_tag l) (locator_rest l @ r) = Ok (l, r)"
proof (cases l)
  case (Https host port)
  then have "dec_text MAX_HOST_BYTES (locator_rest l @ r) = Ok (host, encode_uint (unat port) @ r)"
    using assms(2) by (simp add: dec_text_valid_dns locator_rest_def)
  moreover have "decode_port (encode_uint (unat port) @ r) = Ok (port, r)" by (simp add: decode_port_Ok)
  ultimately show ?thesis using Https by (simp add: locator_body_def)
next
  case (LoopbackDevelopment host port)
  have "dec_uint (locator_rest l @ r) = Ok (loopback_tag host, encode_uint (unat port) @ r)"
    using LoopbackDevelopment loopback_tag_bound [of host] by (simp add: decodes locator_rest_def)
  moreover have "loopback_from_tag (loopback_tag host) = Ok host" by (simp add: loopback_from_tag_Ok)
  moreover have "decode_port (encode_uint (unat port) @ r) = Ok (port, r)" by (simp add: decode_port_Ok)
  ultimately show ?thesis using LoopbackDevelopment by (simp add: locator_body_def tag_defs)
next
  case (OnionV3 key port)
  then have "exact_32 (locator_rest l @ r) = Ok (key, encode_uint (unat port) @ r)"
    using assms(1) by (simp add: exact_32_Ok locator_rest_def)
  moreover have "decode_port (encode_uint (unat port) @ r) = Ok (port, r)" by (simp add: decode_port_Ok)
  ultimately show ?thesis using OnionV3 by (simp add: locator_body_def tag_defs)
next
  case (I2pB32 hash port)
  then have "exact_32 (locator_rest l @ r) = Ok (hash, encode_uint (unat port) @ r)"
    using assms(1) by (simp add: exact_32_Ok locator_rest_def)
  moreover have "decode_port (encode_uint (unat port) @ r) = Ok (port, r)" by (simp add: decode_port_Ok)
  ultimately show ?thesis using I2pB32 by (simp add: locator_body_def tag_defs)
qed

lemma locator_tag_bound: "locator_tag l < 2 ^ 64" "LOCATOR_FIELDS < 2 ^ 64"
  by (cases l; simp add: tag_defs) (simp add: LOCATOR_FIELDS_def)

lemma locator_decode_Ok:
  "locator_decode p kinds d = Ok (l, r) \<longleftrightarrow>
     d = locator_encode l @ r \<and> accepts kinds l \<and> locator_valid p l \<and> locator_typed l"
proof
  assume "locator_decode p kinds d = Ok (l, r)"
  then obtain tag e where "d = encode_array LOCATOR_FIELDS @ encode_uint tag @ e" "accepts_tag kinds tag"
    "locator_body tag e = Ok (l, r)" "locator_valid p l"
    by (auto simp: locator_decode_def decodes locator_validate_def split: if_splits)
  then show "d = locator_encode l @ r \<and> accepts kinds l \<and> locator_valid p l \<and> locator_typed l"
    using locator_body_tag [of tag e l r] locator_body_read [of tag e l r]
    by (simp add: locator_encode_eq accepts_def)
next
  assume *: "d = locator_encode l @ r \<and> accepts kinds l \<and> locator_valid p l \<and> locator_typed l"
  have "dec_array LOCATOR_FIELDS d = Ok (encode_uint (locator_tag l) @ locator_rest l @ r)"
    using * locator_tag_bound by (simp add: decodes locator_encode_eq)
  moreover have "dec_uint (encode_uint (locator_tag l) @ locator_rest l @ r) = Ok (locator_tag l, locator_rest l @ r)"
    using locator_tag_bound by (simp add: decodes)
  moreover have "locator_body (locator_tag l) (locator_rest l @ r) = Ok (l, r)" using * locator_body_written by blast
  ultimately show "locator_decode p kinds d = Ok (l, r)"
    using * by (simp add: locator_decode_def locator_validate_def accepts_def)
qed

lemma validate_locators_Ok:
  "validate_locators p kinds seen ls = Ok () \<longleftrightarrow>
     list_all (\<lambda>l. accepts kinds l \<and> locator_valid p l) ls \<and> distinct ls \<and> set ls \<inter> seen = {}"
  by (induction p kinds seen ls rule: validate_locators.induct) (auto simp: locator_validate_def)

lemma validate_locator_set_Ok:
  "validate_locator_set p ls kinds = Ok () \<longleftrightarrow> ls \<noteq> [] \<and> length ls \<le> MAX_LOCATORS
     \<and> list_all (\<lambda>l. accepts kinds l \<and> locator_valid p l) ls \<and> distinct ls"
  by (auto simp: validate_locator_set_def validate_locators_Ok)

subsection \<open>Properties\<close>

text \<open>
  A locator has exactly one encoding, and only locators that pass the host
  policy and are of an accepted kind are read: input is read as a locator if
  and only if it starts with that locator's encoding, the locator is valid and
  its kind is accepted.
\<close>

theorem locator_has_one_encoding:
  "locator_decode p kinds d = Ok (l, r) \<longleftrightarrow> d = locator_encode l @ r \<and> accepts kinds l
     \<and> locator_validate p l = Ok () \<and> locator_typed l"
  by (simp add: locator_decode_Ok locator_validate_def)

lemma decode_base32_Ok: "decode_base32 p n s = Ok bs \<Longrightarrow> ascii_lower (base32_encode p bs) = s \<and> length bs = n"
  by (auto simp: decode_base32_def split: if_splits option.splits)

lemma parse_onion_host_Ok:
  assumes "parse_onion_host p host = Ok key"
  shows "onion_host p key = host \<and> length key = 32 \<and> valid_onion_key p key"
proof -
  obtain label bytes where host: "host = label @ lit ''.onion''" and dec: "decode_base32 p 35 label = Ok bytes"
    and key: "key = take 32 bytes" "bytes ! 34 = 3" "take 2 (drop 32 bytes) = onion_checksum p key" "valid_onion_key p key"
    using assms by (auto simp: parse_onion_host_def strip_suffix_Some Let_def split: if_splits)
  have len: "length bytes = 35" and enc: "ascii_lower (base32_encode p bytes) = label" using decode_base32_Ok [OF dec] by auto
  have "drop 34 bytes = [bytes ! 34]" using len by (simp add: Cons_nth_drop_Suc [symmetric])
  moreover have "bytes = take 32 bytes @ take 2 (drop 32 bytes) @ drop 2 (drop 32 bytes)" by (simp only: append_take_drop_id)
  ultimately have "bytes = key @ onion_checksum p key @ [3]" using key by simp
  then show ?thesis using enc host key len by (simp add: onion_host_def)
qed

lemma parse_i2p_host_Ok:
  "parse_i2p_host p host = Ok hash \<Longrightarrow> i2p_host p hash = host \<and> length hash = 32 \<and> hash \<noteq> replicate 32 0"
  by (auto simp: parse_i2p_host_def strip_suffix_Some i2p_host_def dest: decode_base32_Ok split: if_splits)

text \<open>
  A locator taken from a node's public URL names what the URL names. The
  URL has no credentials, query, fragment or path; an HTTPS locator is an
  https URL whose host is an acceptable public DNS name, never an address; a
  development locator is an http URL of this machine or the emulator's host;
  and an onion or I2P locator is an http URL whose host is exactly the one the
  locator prints, check sum included.
\<close>

theorem public_url_locator_faithful:
  assumes "locator_from_public_url p url_parse s = Ok l"
  shows "\<exists>url. url_parse s = Some url \<and> url_username url = [] \<and> url_password url = None \<and> url_query url = None
     \<and> url_fragment url = None \<and> url_path url \<in> {[], lit ''/''}
     \<and> (case l of
          Https host port \<Rightarrow> url_scheme url = lit ''https'' \<and> url_host url = Some (Domain host)
            \<and> valid_public_dns_name host \<and> url_port_or_known_default url = Some port
        | LoopbackDevelopment host port \<Rightarrow> url_scheme url = lit ''http'' \<and> url_port_or_known_default url = Some port
            \<and> (url_host url = Some (Domain (lit ''localhost''))
               \<or> (\<exists>a. url_host url = Some (Ipv4 a) \<and> (ipv4_is_loopback a \<or> a = ipv4_of 10 0 2 2))
               \<or> url_host url = Some (Ipv6 1))
        | OnionV3 key port \<Rightarrow> url_scheme url = lit ''http'' \<and> url_host url = Some (Domain (onion_host p key))
            \<and> valid_onion_key p key \<and> url_port_or_known_default url = Some port
        | I2pB32 hash port \<Rightarrow> url_scheme url = lit ''http'' \<and> url_host url = Some (Domain (i2p_host p hash))
            \<and> url_port_or_known_default url = Some port)"
proof -
  obtain url host port where url: "url_parse s = Some url" "url_username url = []" "url_password url = None"
    "url_query url = None" "url_fragment url = None" "url_path url = [] \<or> url_path url = lit ''/''"
    and host: "url_host url = Some host" and port: "url_port_or_known_default url = Some port"
    and parts: "locator_from_parts p (url_scheme url) host port = Ok l" and ok: "locator_valid p l"
    using assms by (auto simp: locator_from_public_url_def locator_validate_def split: if_splits)
  have "(case l of
          Https h q \<Rightarrow> url_scheme url = lit ''https'' \<and> host = Domain h \<and> valid_public_dns_name h \<and> q = port
        | LoopbackDevelopment _ q \<Rightarrow> url_scheme url = lit ''http'' \<and> q = port
            \<and> (host = Domain (lit ''localhost'') \<or> (\<exists>a. host = Ipv4 a \<and> (ipv4_is_loopback a \<or> a = ipv4_of 10 0 2 2)) \<or> host = Ipv6 1)
        | OnionV3 key q \<Rightarrow> url_scheme url = lit ''http'' \<and> host = Domain (onion_host p key) \<and> valid_onion_key p key \<and> q = port
        | I2pB32 hash q \<Rightarrow> url_scheme url = lit ''http'' \<and> host = Domain (i2p_host p hash) \<and> q = port)"
    using parts ok
    by (auto simp: locator_from_parts_def Let_def require_plain_http_def loopback_host_def ipv6_is_loopback_def
        dest: parse_onion_host_Ok parse_i2p_host_Ok split: url_host.splits if_splits)
  then show ?thesis using url host port by (cases l) auto
qed

definition sample_url :: parsed_url where
  "sample_url = \<lparr>url_text = lit ''https://node.ket.org/'', url_scheme = lit ''https'', url_host_str = Some (lit ''node.ket.org''),
     url_host = Some (Domain (lit ''node.ket.org'')), url_port_or_known_default = Some 443, url_username = [],
     url_password = None, url_path = lit ''/'', url_query = None, url_fragment = None\<rparr>"

lemma sample_host: "valid_public_dns_name (lit ''node.ket.org'')"
  by (simp add: valid_public_dns_name_def lit_def valid_label_def str_len_def utf8_width_def char_class_defs
      MAX_HOST_BYTES_def NON_PUBLIC_SUFFIXES_def ends_with_def suffix_def)

theorem public_url_locator_faithful_witness:
  "\<exists>p. locator_from_public_url p (\<lambda>_. Some sample_url) (lit ''https://node.ket.org/'') = Ok (Https (lit ''node.ket.org'') 443)
     \<and> url_scheme sample_url = lit ''https''"
proof -
  fix p :: primitives
  have "\<not> ends_with (lit ''node.ket.org'') (lit ''.onion'')" "\<not> ends_with (lit ''node.ket.org'') (lit ''.i2p'')"
    by (auto simp: ends_with_def suffix_def lit_def append_eq_Cons_conv)
  then have run: "locator_from_public_url p (\<lambda>_. Some sample_url) (lit ''https://node.ket.org/'') = Ok (Https (lit ''node.ket.org'') 443)"
    using sample_host
    by (simp add: locator_from_public_url_def sample_url_def locator_from_parts_def locator_validate_def MAX_PUBLIC_URL_BYTES_def)
      (simp add: lit_def str_len_def utf8_width_def is_ascii_whitespace_def)
  show ?thesis using public_url_locator_faithful [OF run] run by (auto simp: sample_url_def)
qed

end
