(* ===== verification/Sample_Primitives.thy ===== *)
theory Sample_Primitives
  imports Node_Key
begin

text \<open>
  A concrete instance of the primitives, for the examples of the invite theories:
  unpadded Base64URL in full, and constant keys, signatures and digests of the
  right sizes. It shows that the assumptions on the primitives can hold together.
\<close>

definition b64_char :: "nat \<Rightarrow> uchar" where
  "b64_char v = (if v < 26 then 65 + v else if v < 52 then 71 + v else if v < 62 then v - 4 else if v = 62 then 45 else 95)"

definition b64_value :: "uchar \<Rightarrow> nat option" where
  "b64_value c = (if 65 \<le> c \<and> c \<le> 90 then Some (c - 65) else if 97 \<le> c \<and> c \<le> 122 then Some (c - 71)
     else if 48 \<le> c \<and> c \<le> 57 then Some (c + 4) else if c = 45 then Some 62 else if c = 95 then Some 63 else None)"

fun b64_groups :: "nat list \<Rightarrow> nat list" where
  "b64_groups [] = []"
| "b64_groups [a] = [a div 4, a mod 4 * 16]"
| "b64_groups [a, b] = [a div 4, a mod 4 * 16 + b div 16, b mod 16 * 4]"
| "b64_groups (a # b # c # r) = [a div 4, a mod 4 * 16 + b div 16, b mod 16 * 4 + c div 64, c mod 64] @ b64_groups r"

fun b64_ungroup :: "nat list \<Rightarrow> nat list option" where
  "b64_ungroup [] = Some []"
| "b64_ungroup [w] = None"
| "b64_ungroup [w, x] = Some [w * 4 + x div 16]"
| "b64_ungroup [w, x, y] = Some [w * 4 + x div 16, x mod 16 * 16 + y div 4]"
| "b64_ungroup (w # x # y # z # r) =
     map_option (\<lambda>t. [w * 4 + x div 16, x mod 16 * 16 + y div 4, y mod 4 * 64 + z] @ t) (b64_ungroup r)"

definition b64_encode :: "u8 list \<Rightarrow> rstr" where
  "b64_encode bs = map b64_char (b64_groups (map unat bs))"

fun b64_values :: "rstr \<Rightarrow> nat list option" where
  "b64_values [] = Some []"
| "b64_values (c # cs) = (case b64_value c of None \<Rightarrow> None | Some v \<Rightarrow> map_option ((#) v) (b64_values cs))"

definition b64_decode :: "rstr \<Rightarrow> u8 list option" where
  "b64_decode s = (case b64_values s of None \<Rightarrow> None | Some vs \<Rightarrow> map_option (map of_nat) (b64_ungroup vs))"

definition sample_primitives :: primitives where
  "sample_primitives = \<lparr>key_from_bytes = (\<lambda>k. length k = 32), key_is_weak = (\<lambda>k. False),
     verify_strict = (\<lambda>k m s. s = replicate 64 0), verifying_key = (\<lambda>seed. replicate 32 1),
     sign_message = (\<lambda>seed m. replicate 64 0), sha256 = (\<lambda>m. replicate 32 0), sha3_256 = (\<lambda>m. replicate 32 0),
     base64url_encode = b64_encode, base64url_decode = b64_decode,
     base32_encode = (\<lambda>bs. []), base32_decode = (\<lambda>s. None)\<rparr>"

lemma b64_value_char: "v < 64 \<Longrightarrow> b64_value (b64_char v) = Some v"
  by (auto simp: b64_value_def b64_char_def)

lemma b64_char_ok: "v < 64 \<Longrightarrow> is_base64url_char (b64_char v)"
  by (auto simp: is_base64url_char_def b64_char_def is_alnum_def is_lower_def is_upper_def is_digit_def)

lemma b64_groups_small: "list_all (\<lambda>a. a < 256) bs \<Longrightarrow> list_all (\<lambda>v. v < 64) (b64_groups bs)"
  by (induction bs rule: b64_groups.induct) auto

lemma b64_ungroup_groups: "list_all (\<lambda>a. a < 256) bs \<Longrightarrow> b64_ungroup (b64_groups bs) = Some bs"
  by (induction bs rule: b64_groups.induct) auto

lemma b64_values_chars: "list_all (\<lambda>v. v < 64) vs \<Longrightarrow> b64_values (map b64_char vs) = Some vs"
  by (induction vs) (auto simp: b64_value_char)

lemma b64_groups_length: "3 * length (b64_groups bs) \<le> 4 * length bs + 2"
  by (induction bs rule: b64_groups.induct) auto

lemma b64_round_trip:
  "b64_decode (b64_encode bs) = Some bs" "list_all is_base64url_char (b64_encode bs)"
  "bs \<noteq> [] \<Longrightarrow> b64_encode bs \<noteq> []" "3 * length (b64_encode bs) \<le> 4 * length bs + 2"
proof -
  have small: "list_all (\<lambda>a. a < 256) (map unat bs)" using unat_u8_bound by (simp add: list_all_iff)
  show "b64_decode (b64_encode bs) = Some bs"
    using b64_values_chars [OF b64_groups_small [OF small]] b64_ungroup_groups [OF small]
    by (simp add: b64_decode_def b64_encode_def o_def map_idI)
  show "list_all is_base64url_char (b64_encode bs)"
    using b64_groups_small [OF small] by (auto simp: b64_encode_def list_all_iff b64_char_ok)
  show "bs \<noteq> [] \<Longrightarrow> b64_encode bs \<noteq> []" by (cases "map unat bs" rule: b64_groups.cases) (auto simp: b64_encode_def)
  show "3 * length (b64_encode bs) \<le> 4 * length bs + 2" using b64_groups_length [of "map unat bs"] by (simp add: b64_encode_def)
qed

lemma sample_primitives_ok: "primitives_ok sample_primitives"
proof -
  have "replicate 32 (1 :: u8) \<noteq> replicate 32 0" by (simp add: numeral_eq_Suc)
  then show ?thesis by (simp add: primitives_ok_def sample_primitives_def b64_round_trip b64_round_trip(4) [simplified])
qed

end
