(* ===== verification/Manual_Text.thy ===== *)
theory Manual_Text
  imports Sample_Primitives
begin

text \<open>
  The hand-typeable form of an invite (crates/invite-capsule \<open>text/manual.rs\<close>):
  Crockford Base32 with a check sum, in dash-separated groups of five. The bit
  buffers of the codec are 16-bit words, as in the source.
\<close>

definition MAX_BINARY_INVITE_BYTES :: nat where "MAX_BINARY_INVITE_BYTES = 1024"
definition CHECKSUM_BYTES :: nat where "CHECKSUM_BYTES = 4"
definition GROUP :: nat where "GROUP = 5"

definition CROCKFORD :: rstr where
  "CROCKFORD = lit ''0123456789ABCDEFGHJKMNPQRSTVWXYZ''"

record ManualText =
  manual_prefix :: rstr
  checksum_domain :: "u8 list"

definition checksum :: "primitives \<Rightarrow> ManualText \<Rightarrow> u8 list \<Rightarrow> u8 list" where
  "checksum p form bs = take CHECKSUM_BYTES (sha256 p (checksum_domain form @ bs))"

subsection \<open>Crockford Base32\<close>

text \<open>\<open>buffer &= (1 << bits).saturating_sub(1)\<close>.\<close>

definition keep_low :: "nat \<Rightarrow> 16 word \<Rightarrow> 16 word" where
  "keep_low bits buffer = buffer AND (if push_bit bits 1 = (0 :: 16 word) then 0 else push_bit bits 1 - 1)"

text \<open>The loop \<open>while bits >= 5\<close>.\<close>

function crockford_emit :: "16 word \<Rightarrow> nat \<Rightarrow> rstr \<Rightarrow> 16 word \<times> nat \<times> rstr" where
  "crockford_emit buffer bits out = (if bits \<ge> 5
     then crockford_emit (keep_low (bits - 5) buffer) (bits - 5)
       (out @ [CROCKFORD ! unat (drop_bit (bits - 5) buffer AND 0x1f)])
     else (buffer, bits, out))"
  by pat_completeness auto

termination
  by (relation "measure (\<lambda>(buffer, bits, out). bits)") auto

declare crockford_emit.simps [simp del]

fun crockford_bytes :: "u8 list \<Rightarrow> 16 word \<times> nat \<times> rstr \<Rightarrow> 16 word \<times> nat \<times> rstr" where
  "crockford_bytes [] state = state"
| "crockford_bytes (b # bs) (buffer, bits, out) =
     crockford_bytes bs (crockford_emit (push_bit 8 buffer OR ucast b) (bits + 8) out)"

definition crockford_encode :: "u8 list \<Rightarrow> rstr" where
  "crockford_encode value = (let (buffer, bits, out) = crockford_bytes value (0, 0, [])
     in if bits > 0 then out @ [CROCKFORD ! unat (push_bit (5 - bits) buffer AND 0x1f)] else out)"

fun position :: "'a \<Rightarrow> 'a list \<Rightarrow> nat option" where
  "position x [] = None"
| "position x (y # ys) = (if y = x then Some 0 else map_option Suc (position x ys))"

definition crockford_value :: "uchar \<Rightarrow> nat option" where
  "crockford_value c = (let u = (if is_lower c then c - 32 else c)
     in if u = 79 then Some 0 else if u = 73 \<or> u = 76 then Some 1 else position u CROCKFORD)"

fun crockford_chars :: "rstr \<Rightarrow> 16 word \<Rightarrow> nat \<Rightarrow> u8 list \<Rightarrow> CapsuleError + (16 word \<times> nat \<times> u8 list)" where
  "crockford_chars [] buffer bits out = Ok (buffer, bits, out)"
| "crockford_chars (c # cs) buffer bits out = (case crockford_value c of None \<Rightarrow> Err Invalid
     | Some decoded \<Rightarrow>
       (let buffer = push_bit 5 buffer OR of_nat decoded; bits = bits + 5
        in if bits \<ge> 8 then crockford_chars cs (keep_low (bits - 8) buffer) (bits - 8) (out @ [ucast (drop_bit (bits - 8) buffer)])
           else crockford_chars cs buffer bits out))"

definition crockford_decode :: "rstr \<Rightarrow> CapsuleError + u8 list" where
  "crockford_decode value = (
     if (str_len value * 5 + 7) div 8 > MAX_BINARY_INVITE_BYTES + CHECKSUM_BYTES then Err TooLarge
     else (case crockford_chars value 0 0 [] of Err e \<Rightarrow> Err e
       | Ok (buffer, bits, out) \<Rightarrow> if bits > 0 \<and> buffer \<noteq> 0 then Err Invalid else Ok out))"

subsection \<open>The form\<close>

fun dash_groups :: "nat \<Rightarrow> rstr \<Rightarrow> rstr" where
  "dash_groups index [] = []"
| "dash_groups index (c # cs) = (if index > 0 \<and> index mod GROUP = 0 then [45, c] else [c]) @ dash_groups (Suc index) cs"

definition encode_manual :: "primitives \<Rightarrow> ManualText \<Rightarrow> u8 list \<Rightarrow> rstr" where
  "encode_manual p form binary = manual_prefix form @ dash_groups 0 (crockford_encode (binary @ checksum p form binary))"

fun has_double_dash :: "rstr \<Rightarrow> bool" where
  "has_double_dash (a # b # r) = (a = 45 \<and> b = 45 \<or> has_double_dash (b # r))"
| "has_double_dash _ = False"

definition differs :: "u8 list \<Rightarrow> u8 list \<Rightarrow> u8" where
  "differs xs ys = foldl (\<lambda>d (a, b). d OR (a XOR b)) 0 (zip xs ys)"

text \<open>\<open>input.get(n..)\<close>: nothing unless byte \<open>n\<close> begins a character.\<close>

fun str_get_from :: "nat \<Rightarrow> rstr \<Rightarrow> rstr option" where
  "str_get_from 0 s = Some s"
| "str_get_from (Suc n) [] = None"
| "str_get_from (Suc n) (c # cs) = (if utf8_width c \<le> Suc n then str_get_from (Suc n - utf8_width c) cs else None)"

definition decode_manual :: "primitives \<Rightarrow> ManualText \<Rightarrow> rstr \<Rightarrow> CapsuleError + u8 list" where
  "decode_manual p form input = (case str_get_from (str_len (manual_prefix form)) input of None \<Rightarrow> Err Invalid | Some body \<Rightarrow>
     if body = [] \<or> hd body = 45 \<or> last body = 45 \<or> has_double_dash body \<or> \<not> list_all (\<lambda>c. is_alnum c \<or> c = 45) body
       then Err Invalid
     else (case crockford_decode (filter (\<lambda>c. c \<noteq> 45) body) of Err e \<Rightarrow> Err e | Ok decoded \<Rightarrow>
       if length decoded \<le> CHECKSUM_BYTES \<or> length decoded > MAX_BINARY_INVITE_BYTES + CHECKSUM_BYTES then Err Invalid
       else let split = length decoded - CHECKSUM_BYTES;
                expected = checksum p form (take split decoded)
            in if differs (drop split decoded) expected \<noteq> 0 then Err InvalidChecksum
               else Ok (take split decoded)))"

subsection \<open>The buffer as a number\<close>

lemma nat_shift_or: "y < 2 ^ k \<Longrightarrow> push_bit k x OR y = x * 2 ^ k + (y :: nat)"
proof -
  assume y: "y < 2 ^ k"
  have "\<not> bit (push_bit k x) n \<or> \<not> bit y n" for n
  proof (cases "n < k")
    case False
    then have "y < 2 ^ n" using y by (meson less_le_trans not_less one_le_numeral power_increasing)
    then show ?thesis by (simp add: bit_iff_odd)
  qed (simp add: bit_simps)
  then have "push_bit k x + y = push_bit k x OR y" by (rule disjunctive_add)
  then show ?thesis by (simp add: push_bit_eq_mult)
qed

lemma unat_shift_or:
  fixes w :: "16 word"
  assumes "unat v < 2 ^ k" "unat w * 2 ^ k < 65536"
  shows "unat (push_bit k w OR v) = unat w * 2 ^ k + unat v"
proof -
  have "unat (push_bit k w) = push_bit k (unat w)"
    unfolding unsigned_push_bit_eq using assms(2) by (simp add: push_bit_eq_mult take_bit_nat_eq_self)
  then show ?thesis using nat_shift_or [OF assms(1), of "unat w"] by (simp add: unsigned_or_eq)
qed

lemma low_five16: "(0x1f :: 16 word) = mask 5"
  by (simp add: mask_eq_exp_minus_1)

lemma unat_five_bits: "unat (drop_bit n w AND 0x1f :: 16 word) = unat w div 2 ^ n mod 32"
  unfolding low_five16 take_bit_eq_mask [symmetric] unsigned_take_bit_eq unat_drop_bit_eq
  by (simp add: take_bit_eq_mod drop_bit_eq_div)

lemma unat_keep_low: "n < 16 \<Longrightarrow> unat (keep_low n w) = unat w mod 2 ^ n"
proof -
  assume n: "n < 16"
  have "push_bit n 1 \<noteq> (0 :: 16 word)" using n by (simp add: push_bit_eq_mult)
  moreover have "push_bit n 1 - 1 = (mask n :: 16 word)" by (simp add: push_bit_eq_mult mask_eq_exp_minus_1)
  ultimately have keep: "keep_low n w = take_bit n w" by (simp add: keep_low_def take_bit_eq_mask)
  show ?thesis unfolding keep unsigned_take_bit_eq by (simp add: take_bit_eq_mod)
qed

lemma unat_low_byte: "unat (ucast (drop_bit n (w :: 16 word)) :: u8) = unat w div 2 ^ n mod 256"
  unfolding unsigned_ucast_eq unat_drop_bit_eq by (simp add: take_bit_eq_mod drop_bit_eq_div)

lemma unat_ucast_byte: "unat (ucast (b :: u8) :: 16 word) = unat b"
  using unat_u8_bound [of b] by (simp add: unsigned_ucast_eq take_bit_nat_eq_self)

subsection \<open>Encoding as arithmetic\<close>

text \<open>The values of the characters written so far, as one number in base 32.\<close>

definition base32_value :: "nat list \<Rightarrow> nat" where
  "base32_value vs = foldl (\<lambda>n v. n * 32 + v) 0 vs"

lemma base32_value_snoc [simp]: "base32_value (vs @ [v]) = base32_value vs * 32 + v"
  by (simp add: base32_value_def)

lemma base32_value_Nil [simp]: "base32_value [] = 0"
  by (simp add: base32_value_def)

text \<open>The state after some input: \<open>vs\<close> are the values of the characters
  written, and together with the buffer they are the input's number.\<close>

definition encodes :: "nat \<Rightarrow> nat \<Rightarrow> 16 word \<times> nat \<times> rstr \<Rightarrow> bool" where
  "encodes amount len st \<longleftrightarrow> (case st of (buffer, bits, out) \<Rightarrow>
     unat buffer < 2 ^ bits \<and> (\<exists>vs. out = map (\<lambda>v. CROCKFORD ! v) vs \<and> (\<forall>v \<in> set vs. v < 32)
       \<and> amount = base32_value vs * 2 ^ bits + unat buffer \<and> len = 5 * length vs + bits))"

lemma encodes_emit:
  assumes "encodes amount len (buffer, bits, out)" "bits \<le> 12"
  shows "encodes amount len (crockford_emit buffer bits out)
    \<and> fst (snd (crockford_emit buffer bits out)) < 5"
  using assms
proof (induction buffer bits out rule: crockford_emit.induct)
  case (1 buffer bits out)
  show ?case
  proof (cases "5 \<le> bits")
    case True
    define k where "k = bits - 5"
    have bits: "bits = k + 5" and k: "k < 16" using True 1(3) by (simp_all add: k_def)
    obtain vs where vs: "out = map (\<lambda>v. CROCKFORD ! v) vs" "\<forall>v \<in> set vs. v < 32"
      "amount = base32_value vs * 2 ^ bits + unat buffer" "len = 5 * length vs + bits" and b: "unat buffer < 2 ^ bits"
      using 1(2) by (auto simp: encodes_def)
    define v where "v = unat buffer div 2 ^ k"
    have v32: "v < 32" using b by (simp add: v_def bits power_add less_mult_imp_div_less mult.commute)
    have emitted: "unat (drop_bit k buffer AND 0x1f) = v" using v32 by (simp add: unat_five_bits v_def)
    have rest: "unat (keep_low k buffer) = unat buffer mod 2 ^ k" using k by (rule unat_keep_low)
    have "amount = base32_value (vs @ [v]) * 2 ^ k + unat buffer mod 2 ^ k"
      using vs(3) div_mult_mod_eq [of "unat buffer" "2 ^ k"] by (simp add: bits power_add v_def algebra_simps)
    then have "encodes amount len (keep_low k buffer, k, out @ [CROCKFORD ! v])"
      unfolding encodes_def using vs v32 rest bits by (auto intro!: exI [of _ "vs @ [v]"])
    then have "encodes amount len (crockford_emit (keep_low k buffer) k (out @ [CROCKFORD ! v]))
        \<and> fst (snd (crockford_emit (keep_low k buffer) k (out @ [CROCKFORD ! v]))) < 5"
      using 1(1) [OF True] 1(3) emitted by (simp add: k_def)
    then show ?thesis
      using True emitted by (simp add: crockford_emit.simps [of buffer bits out] k_def)
  next
    case False
    then show ?thesis using 1(2) by (simp add: crockford_emit.simps [of buffer bits out])
  qed
qed

lemma encodes_bytes:
  assumes "encodes amount len (buffer, bits, out)" "bits < 5"
  shows "encodes (foldl (\<lambda>n b. n * 256 + unat b) amount bs) (len + 8 * length bs) (crockford_bytes bs (buffer, bits, out))
     \<and> fst (snd (crockford_bytes bs (buffer, bits, out))) < 5"
  using assms
proof (induction bs arbitrary: amount len buffer bits out)
  case (Cons b bs)
  define w where "w = push_bit 8 buffer OR (ucast b :: 16 word)"
  have small: "unat buffer < 16"
    using Cons.prems by (auto simp: encodes_def intro: less_le_trans [OF _ power_increasing [of _ 4 "2::nat", simplified]])
  have w: "unat w = unat buffer * 256 + unat b"
    unfolding w_def using unat_shift_or [of "ucast b" 8 buffer] small unat_u8_bound [of b] by (simp add: unat_ucast_byte)
  have "encodes (amount * 256 + unat b) (len + 8) (w, bits + 8, out)"
    using Cons.prems(1) unat_u8_bound [of b]
    by (auto simp: encodes_def w power_add algebra_simps)
  then have step: "encodes (amount * 256 + unat b) (len + 8) (crockford_emit w (bits + 8) out)"
    "fst (snd (crockford_emit w (bits + 8) out)) < 5"
    using encodes_emit Cons.prems(2) by auto
  obtain bu bi ou where e: "crockford_emit w (bits + 8) out = (bu, bi, ou)" by (cases "crockford_emit w (bits + 8) out") auto
  show ?case using Cons.IH [of "amount * 256 + unat b" "len + 8" bu bi ou] step
    by (simp add: w_def [symmetric] e add.assoc)
qed simp

lemma crockford_encode_values:
  "\<exists>vs pad. crockford_encode bs = map (\<lambda>v. CROCKFORD ! v) vs \<and> (\<forall>v \<in> set vs. v < 32) \<and> pad < 5
     \<and> base32_value vs = from_be_bytes bs * 2 ^ pad \<and> 5 * length vs = 8 * length bs + pad"
proof -
  obtain buffer bits out where run: "crockford_bytes bs (0, 0, []) = (buffer, bits, out)"
    by (cases "crockford_bytes bs (0, 0, [])") auto
  have "encodes 0 0 (0, 0, [])" by (simp add: encodes_def)
  from encodes_bytes [OF this, of bs] run obtain vs where
    vs: "out = map (\<lambda>v. CROCKFORD ! v) vs" "\<forall>v \<in> set vs. v < 32"
      "from_be_bytes bs = base32_value vs * 2 ^ bits + unat buffer" "8 * length bs = 5 * length vs + bits"
    and b: "unat buffer < 2 ^ bits" "bits < 5"
    by (auto simp: encodes_def from_be_bytes_def)
  show ?thesis
  proof (cases "bits = 0")
    case True
    then show ?thesis using run vs b by (intro exI [of _ vs] exI [of _ 0]) (simp add: crockford_encode_def)
  next
    case False
    define v where "v = unat buffer * 2 ^ (5 - bits)"
    have "v < 2 ^ bits * 2 ^ (5 - bits)" using b(1) by (simp add: v_def)
    also have "\<dots> = 32" using b(2) by (simp flip: power_add)
    finally have v32: "v < 32" .
    have "unat (push_bit (5 - bits) buffer) = v"
      unfolding unsigned_push_bit_eq using v32 by (simp add: v_def push_bit_eq_mult take_bit_nat_eq_self)
    then have last: "unat (push_bit (5 - bits) buffer AND 0x1f) = v"
      using unat_five_bits [of 0 "push_bit (5 - bits) buffer"] v32 by simp
    have two: "(32 :: nat) = 2 ^ bits * 2 ^ (5 - bits)" using b(2) by (simp flip: power_add)
    have "base32_value (vs @ [v]) = from_be_bytes bs * 2 ^ (5 - bits)"
      unfolding vs(3) base32_value_snoc two v_def by (simp add: algebra_simps)
    moreover have "crockford_encode bs = map (\<lambda>v. CROCKFORD ! v) (vs @ [v])"
      using run vs(1) False last by (simp add: crockford_encode_def)
    ultimately show ?thesis
      using vs v32 b False by (intro exI [of _ "vs @ [v]"] exI [of _ "5 - bits"]) auto
  qed
qed

subsection \<open>Decoding as arithmetic\<close>

lemma crockford_value_char: "v < 32 \<Longrightarrow> crockford_value (CROCKFORD ! v) = Some v"
proof -
  have "list_all (\<lambda>v. crockford_value (CROCKFORD ! v) = Some v) [0..<32]"
    by (simp add: upt_rec crockford_value_def CROCKFORD_def lit_def is_lower_def)
  then show "v < 32 \<Longrightarrow> ?thesis" by (simp add: list_all_iff)
qed

lemma chars_decode:
  assumes "\<forall>v \<in> set vs. v < 32" "unat buffer < 2 ^ bits" "bits < 8"
  shows "\<exists>bu bi ou. crockford_chars (map (\<lambda>v. CROCKFORD ! v) vs) buffer bits out = Ok (bu, bi, ou)
     \<and> unat bu < 2 ^ bi \<and> bi < 8
     \<and> foldl (\<lambda>n v. n * 32 + v) (from_be_bytes out * 2 ^ bits + unat buffer) vs = from_be_bytes ou * 2 ^ bi + unat bu
     \<and> 8 * length out + bits + 5 * length vs = 8 * length ou + bi"
  using assms
proof (induction vs arbitrary: buffer bits out)
  case (Cons v vs)
  define w where "w = push_bit 5 buffer OR (of_nat v :: 16 word)"
  have v: "v < 32" "unat (of_nat v :: 16 word) = v" using Cons.prems(1) by (simp_all add: unat_of_nat take_bit_nat_eq_self)
  have "unat buffer < 128"
    using Cons.prems(2,3) power_increasing [of bits 7 "2 :: nat"] by simp
  then have w: "unat w = unat buffer * 32 + v"
    unfolding w_def using unat_shift_or [of "of_nat v" 5 buffer] v by simp
  have wb: "unat w < 2 ^ (bits + 5)" using Cons.prems(2) v w by (simp add: power_add)
  have amount: "(from_be_bytes out * 2 ^ bits + unat buffer) * 32 + v = from_be_bytes out * 2 ^ (bits + 5) + unat w"
    using w by (simp add: power_add algebra_simps)
  show ?case
  proof (cases "bits + 5 \<ge> 8")
    case True
    define k where "k = bits + 5 - 8"
    have k: "bits + 5 = k + 8" "k < 8" using True Cons.prems(3) by (simp_all add: k_def)
    define b where "b = (ucast (drop_bit k w) :: u8)"
    have "unat w div 2 ^ k < 256" using wb by (simp add: k power_add less_mult_imp_div_less mult.commute)
    then have b: "unat b = unat w div 2 ^ k" by (simp add: b_def unat_low_byte)
    have low: "unat (keep_low k w) = unat w mod 2 ^ k" using k by (intro unat_keep_low) simp
    have val: "from_be_bytes out * 2 ^ (bits + 5) + unat w = from_be_bytes (out @ [b]) * 2 ^ k + unat (keep_low k w)"
      using div_mult_mod_eq [of "unat w" "2 ^ k"] by (simp add: k(1) power_add b low algebra_simps)
    have run: "crockford_chars (map (\<lambda>v. CROCKFORD ! v) (v # vs)) buffer bits out
        = crockford_chars (map (\<lambda>v. CROCKFORD ! v) vs) (keep_low k w) k (out @ [b])"
      using True v by (simp add: crockford_value_char Let_def w_def k_def b_def)
    have "unat (keep_low k w) < 2 ^ k" unfolding low by simp
    moreover have len: "8 * length out + bits + 5 * length (v # vs) = 8 * length (out @ [b]) + k + 5 * length vs"
      using k(1) by simp
    ultimately show ?thesis
      using Cons.IH [of "keep_low k w" k "out @ [b]"] Cons.prems(1) k(2) unfolding foldl_Cons run amount val len by simp
  next
    case False
    then have "crockford_chars (map (\<lambda>v. CROCKFORD ! v) (v # vs)) buffer bits out
        = crockford_chars (map (\<lambda>v. CROCKFORD ! v) vs) w (bits + 5) out"
      using v by (simp add: crockford_value_char Let_def w_def)
    then show ?thesis
      using Cons.IH [of w "bits + 5" out] Cons.prems(1) wb False amount by auto
  qed
qed simp


text \<open>Decoding undoes encoding exactly when the size test lets the text through.\<close>

lemma CROCKFORD_char: "v < 32 \<Longrightarrow> is_alnum (CROCKFORD ! v) \<and> CROCKFORD ! v \<noteq> 45 \<and> CROCKFORD ! v < 128"
proof -
  have "list_all (\<lambda>v. is_alnum (CROCKFORD ! v) \<and> CROCKFORD ! v \<noteq> 45 \<and> CROCKFORD ! v < 128) [0..<32]"
    by (simp add: upt_rec CROCKFORD_def lit_def is_alnum_def is_lower_def is_upper_def is_digit_def)
  then show "v < 32 \<Longrightarrow> ?thesis" by (simp add: list_all_iff)
qed

lemma crockford_encode_chars:
  "\<forall>c \<in> set (crockford_encode bs). is_alnum c \<and> c \<noteq> 45 \<and> c < 128"
  using crockford_encode_values [of bs] CROCKFORD_char by auto

lemma crockford_encode_length:
  "length (crockford_encode bs) = (8 * length bs + 4) div 5" "str_len (crockford_encode bs) = length (crockford_encode bs)"
proof -
  obtain vs pad where "crockford_encode bs = map (\<lambda>v. CROCKFORD ! v) vs" "pad < 5" "5 * length vs = 8 * length bs + pad"
    using crockford_encode_values [of bs] by blast
  then show "length (crockford_encode bs) = (8 * length bs + 4) div 5" by simp
  show "str_len (crockford_encode bs) = length (crockford_encode bs)"
    using crockford_encode_chars [of bs] by (intro str_len_ascii) simp
qed

lemma crockford_decode_encode:
  "crockford_decode (crockford_encode bs) =
     (if (length (crockford_encode bs) * 5 + 7) div 8 > MAX_BINARY_INVITE_BYTES + CHECKSUM_BYTES then Err TooLarge else Ok bs)"
proof -
  obtain vs pad where enc: "crockford_encode bs = map (\<lambda>v. CROCKFORD ! v) vs" "\<forall>v \<in> set vs. v < 32" "pad < 5"
      "base32_value vs = from_be_bytes bs * 2 ^ pad" "5 * length vs = 8 * length bs + pad"
    using crockford_encode_values [of bs] by blast
  obtain bu bi ou where dec: "crockford_chars (crockford_encode bs) 0 0 [] = Ok (bu, bi, ou)" "unat bu < 2 ^ bi" "bi < 8"
      "base32_value vs = from_be_bytes ou * 2 ^ bi + unat bu" "5 * length vs = 8 * length ou + bi"
    using chars_decode [OF enc(2), of 0 0 "[]"] enc(1) by (auto simp: base32_value_def from_be_bytes_def)
  have "length ou = length bs" using enc(3,5) dec(3,5) by linarith
  moreover from this have "bi = pad" using enc(5) dec(5) by simp
  ultimately have len: "length ou = length bs" "bi = pad" by simp_all
  have eq: "from_be_bytes bs * 2 ^ pad = from_be_bytes ou * 2 ^ pad + unat bu" using enc(4) dec(4) len by simp
  have "from_be_bytes bs = from_be_bytes ou"
    using arg_cong [OF eq, of "\<lambda>n. n div 2 ^ pad"] dec(2) len by simp
  then have "ou = bs" "bu = 0"
    using eq len to_from_be_bytes [of ou] to_from_be_bytes [of bs] by (auto simp: unat_eq_0)
  then show ?thesis using dec(1) by (simp add: crockford_decode_def crockford_encode_length(2))
qed


subsection \<open>Typing the form\<close>

text \<open>
  Two characters read the same when both are dashes or both stand for the same
  Crockford digit: the letter case and the aliases \<open>O\<close>, \<open>I\<close>, \<open>L\<close> do not matter.
\<close>

definition same_reading :: "uchar \<Rightarrow> uchar \<Rightarrow> bool" where
  "same_reading a b = (if a = 45 then b = 45 else crockford_value a \<noteq> None \<and> crockford_value b = crockford_value a)"

lemma position_Some: "position x ys = Some i \<Longrightarrow> x \<in> set ys"
  by (induction ys arbitrary: i) (auto split: if_splits)

lemma crockford_value_Some:
  assumes "crockford_value c = Some v"
  shows "is_alnum c \<and> c \<noteq> 45 \<and> c < 128"
proof -
  define u where "u = (if is_lower c then c - 32 else c)"
  have "u = 79 \<or> u = 73 \<or> u = 76 \<or> u \<in> set CROCKFORD"
    using assms by (auto simp: crockford_value_def Let_def u_def dest: position_Some split: if_splits)
  then have "48 \<le> u \<and> u \<le> 57 \<or> 65 \<le> u \<and> u \<le> 90" by (auto simp: CROCKFORD_def lit_def)
  then show ?thesis
    by (auto simp: u_def is_alnum_def is_lower_def is_upper_def is_digit_def split: if_splits)
qed

lemma crockford_value_dash [simp]: "crockford_value 45 = None"
  using crockford_value_Some [of 45] by (cases "crockford_value 45") auto

lemma same_reading_dash: "same_reading a b \<Longrightarrow> (b = 45) = (a = 45)"
  by (auto simp: same_reading_def dest: crockford_value_Some split: if_splits)

lemma same_reading_alnum: "same_reading a b \<Longrightarrow> is_alnum b \<or> b = 45"
  by (auto simp: same_reading_def dest: crockford_value_Some split: if_splits)

lemma same_reading_double_dash:
  "list_all2 same_reading s t \<Longrightarrow> has_double_dash t = has_double_dash s"
  by (induction s arbitrary: t rule: has_double_dash.induct)
    (auto simp: list_all2_Cons1 dest: same_reading_dash)

lemma same_reading_last: "list_all2 same_reading s t \<Longrightarrow> s \<noteq> [] \<Longrightarrow> (last t = 45) = (last s = 45)"
  by (induction rule: list_all2_induct) (auto dest: same_reading_dash list_all2_lengthD)

lemma same_reading_filter:
  "list_all2 same_reading s t
   \<Longrightarrow> list_all2 (\<lambda>a b. crockford_value b = crockford_value a) (filter (\<lambda>c. c \<noteq> 45) s) (filter (\<lambda>c. c \<noteq> 45) t)"
  by (induction rule: list_all2_induct) (auto dest: same_reading_dash crockford_value_Some simp: same_reading_def)

lemma crockford_chars_cong:
  "list_all2 (\<lambda>a b. crockford_value b = crockford_value a) s t \<Longrightarrow> crockford_chars t buffer bits out = crockford_chars s buffer bits out"
  by (induction s t arbitrary: buffer bits out rule: list_all2_induct) (auto split: option.splits simp: Let_def)

lemma dash_groups_filter: "45 \<notin> set cs \<Longrightarrow> filter (\<lambda>c. c \<noteq> 45) (dash_groups n cs) = cs"
  by (induction cs arbitrary: n) auto

lemma dash_groups_hd: "cs \<noteq> [] \<Longrightarrow> dash_groups 0 cs \<noteq> [] \<and> hd (dash_groups 0 cs) = hd cs"
  by (cases cs) auto

lemma dash_groups_last: "cs \<noteq> [] \<Longrightarrow> dash_groups n cs \<noteq> [] \<and> last (dash_groups n cs) = last cs"
  by (induction cs arbitrary: n) auto

lemma dash_groups_single: "45 \<notin> set cs \<Longrightarrow> c \<noteq> 45 \<Longrightarrow> \<not> has_double_dash (c # dash_groups n cs)"
  by (induction cs arbitrary: n c) auto

lemma dash_groups_plain: "45 \<notin> set cs \<Longrightarrow> \<not> has_double_dash (dash_groups 0 cs)"
  by (cases cs) (auto dest: dash_groups_single)

lemma str_get_from_Cons:
  "0 < n \<Longrightarrow> str_get_from n (c # cs) = (if utf8_width c \<le> n then str_get_from (n - utf8_width c) cs else None)"
  by (cases n) auto

lemma str_get_from_append: "str_get_from (str_len s) (s @ t) = Some t"
proof (induction s)
  case (Cons c s)
  have "0 < utf8_width c" by (simp add: utf8_width_def)
  moreover have "str_len (c # s) = utf8_width c + str_len s" by (simp add: str_len_def)
  ultimately show ?case using Cons by (simp add: str_get_from_Cons)
qed (simp add: str_len_def)

lemma or_xor_zero: "(d :: u8) OR (a XOR b) = 0 \<longleftrightarrow> d = 0 \<and> a = b"
  by (auto simp: bit_eq_iff bit_simps)

lemma differs_zero: "length xs = length ys \<Longrightarrow> differs xs ys = 0 \<longleftrightarrow> xs = ys"
proof -
  have "foldl (\<lambda>d (a, b). d OR (a XOR b)) d (zip xs ys) = 0 \<longleftrightarrow> d = 0 \<and> xs = ys"
    if "length xs = length ys" for d :: u8
    using that
  proof (induction xs ys arbitrary: d rule: list_induct2)
    case (Cons x xs y ys)
    show ?case by (simp only: zip_Cons_Cons foldl_Cons prod.case Cons.IH or_xor_zero list.inject conj_assoc)
  qed simp
  then show "length xs = length ys \<Longrightarrow> ?thesis" by (simp add: differs_def)
qed

lemma length_checksum: "primitives_ok p \<Longrightarrow> length (checksum p form bs) = CHECKSUM_BYTES"
  by (simp add: checksum_def primitives_ok_def CHECKSUM_BYTES_def)

lemma typed_body_decodes:
  assumes body: "body = dash_groups 0 (crockford_encode bs)" "bs \<noteq> []" and typed: "list_all2 same_reading body typed"
  shows "typed \<noteq> []" "hd typed \<noteq> 45" "last typed \<noteq> 45" "\<not> has_double_dash typed"
    "list_all (\<lambda>c. is_alnum c \<or> c = 45) typed"
    "crockford_decode (filter (\<lambda>c. c \<noteq> 45) typed) = crockford_decode (crockford_encode bs)"
proof -
  let ?cs = "crockford_encode bs"
  have cs: "?cs \<noteq> []" "45 \<notin> set ?cs" using crockford_encode_length(1) [of bs] body(2) crockford_encode_chars [of bs] by (cases bs; force)+
  then have "hd ?cs \<noteq> 45" "last ?cs \<noteq> 45" by (metis hd_in_set) (metis cs last_in_set)
  then have shape: "body \<noteq> []" "hd body \<noteq> 45" "last body \<noteq> 45" "\<not> has_double_dash body" "filter (\<lambda>c. c \<noteq> 45) body = ?cs"
    using cs by (simp_all add: body dash_groups_hd dash_groups_last dash_groups_plain dash_groups_filter)
  show ne: "typed \<noteq> []" using typed shape(1) by auto
  show "hd typed \<noteq> 45" using typed shape(1,2) by (cases body; cases typed) (auto dest: same_reading_dash)
  show "last typed \<noteq> 45" using same_reading_last [OF typed shape(1)] shape(3) by simp
  show "\<not> has_double_dash typed" using same_reading_double_dash [OF typed] shape(4) by simp
  show "list_all (\<lambda>c. is_alnum c \<or> c = 45) typed"
    using typed by (induction rule: list_all2_induct) (auto dest: same_reading_alnum)
  have reads: "list_all2 (\<lambda>a b. crockford_value b = crockford_value a) ?cs (filter (\<lambda>c. c \<noteq> 45) typed)"
    using same_reading_filter [OF typed] shape(5) by simp
  have "str_len (filter (\<lambda>c. c \<noteq> 45) typed) = length (filter (\<lambda>c. c \<noteq> 45) typed)"
    using \<open>list_all (\<lambda>c. is_alnum c \<or> c = 45) typed\<close> by (intro str_len_alnum) (auto simp: list_all_iff)
  then show "crockford_decode (filter (\<lambda>c. c \<noteq> 45) typed) = crockford_decode ?cs"
    using list_all2_lengthD [OF reads] crockford_chars_cong [OF reads]
    by (simp add: crockford_decode_def crockford_encode_length(2))
qed

lemma manual_size: "n \<le> 1024 \<Longrightarrow> (1028 < ((8 * (n + 4) + 4) div 5 * 5 + 7) div 8) = (\<not> n < (1024 :: nat))"
proof (cases "n = 1024")
  case False
  assume "n \<le> 1024"
  then have n: "8 * (n + 4) + 4 \<le> 8220" using False by simp
  have "(8 * (n + 4) + 4) div 5 * 5 \<le> 8 * (n + 4) + 4" by (rule div_times_less_eq_dividend)
  also note n
  finally have "((8 * (n + 4) + 4) div 5 * 5 + 7) div 8 \<le> (8220 + 7) div 8" by (intro div_le_mono add_right_mono)
  then show ?thesis using \<open>n \<le> 1024\<close> False by simp
qed simp

text \<open>
  C20: the manual text of every invite of 1 to 1023 bytes decodes to that invite,
  typed in either letter case, with the aliases for 0 and 1, and whatever is typed in
  place of the prefix as long as it has its size. At the largest size an invite may
  have, 1024 bytes, the text is refused as too large.
\<close>

theorem manual_text_round_trip:
  assumes "primitives_ok p" "binary \<noteq> []" "length binary \<le> MAX_BINARY_INVITE_BYTES"
    and "encode_manual p form binary = manual_prefix form @ body"
    and "list_all2 same_reading body typed" "str_len start = str_len (manual_prefix form)"
  shows "decode_manual p form (start @ typed) = (if length binary < MAX_BINARY_INVITE_BYTES then Ok binary else Err TooLarge)"
proof -
  let ?bs = "binary @ checksum p form binary"
  have body: "body = dash_groups 0 (crockford_encode ?bs)" using assms(4) by (simp add: encode_manual_def)
  note shape = typed_body_decodes [OF body _ assms(5)]
  have len: "length ?bs = length binary + 4" using length_checksum [OF assms(1)] by (simp add: CHECKSUM_BYTES_def)
  have "(length (crockford_encode ?bs) * 5 + 7) div 8 > 1028 \<longleftrightarrow> \<not> length binary < 1024"
    unfolding crockford_encode_length(1) len
    using assms(3) by (intro manual_size) (simp add: MAX_BINARY_INVITE_BYTES_def)
  then have dec: "crockford_decode (filter (\<lambda>c. c \<noteq> 45) typed) = (if length binary < 1024 then Ok ?bs else Err TooLarge)"
    using shape(6) assms(2) by (simp add: crockford_decode_encode MAX_BINARY_INVITE_BYTES_def CHECKSUM_BYTES_def)
  have get: "str_get_from (str_len (manual_prefix form)) (start @ typed) = Some typed"
    using str_get_from_append [of start typed] assms(6) by simp
  have diff: "differs (checksum p form binary) (checksum p form binary) = 0" by (simp add: differs_zero)
  show ?thesis
    using shape(1-5) assms(2,3) dec diff length_checksum [OF assms(1), of form binary]
    by (simp add: decode_manual_def get Let_def MAX_BINARY_INVITE_BYTES_def CHECKSUM_BYTES_def)
qed

definition sample_form :: ManualText where
  "sample_form = \<lparr>manual_prefix = lit ''APP1-'', checksum_domain = [7]\<rparr>"

theorem manual_text_round_trip_witness:
  "decode_manual sample_primitives sample_form (lit ''app1-'' @ lit ''eOO00-000'') = Ok [0x70]"
proof -
  have "decode_manual sample_primitives sample_form (lit ''app1-'' @ lit ''eOO00-000'') =
      (if length [0x70 :: u8] < MAX_BINARY_INVITE_BYTES then Ok [0x70] else Err TooLarge)"
  proof (rule manual_text_round_trip [where body = "lit ''E0000-000''"])
    show "encode_manual sample_primitives sample_form [0x70] = manual_prefix sample_form @ lit ''E0000-000''" by code_simp
  qed (simp_all add: sample_primitives_ok, code_simp+)
  then show ?thesis by (simp add: MAX_BINARY_INVITE_BYTES_def)
qed

end
