(* ===== verification/Invite.thy ===== *)
theory Invite
  imports Locator Manual_Text
begin

text \<open>
  The signed invite (crates/invite-capsule \<open>profile.rs\<close>, \<open>capsule.rs\<close>, \<open>signed.rs\<close>,
  \<open>text/mod.rs\<close>). The trait \<open>InviteProfile\<close> is a record of its constants and of the two
  functions of its capability; what the format needs of a profile is the locale
  \<open>invite_profile\<close>, in which the lemmas about every application's invites are proved.
\<close>

record 'c InviteProfile =
  application_id :: rstr
  signature_domain :: "u8 list"
  capability_type :: nat
  accepted_locators :: LocatorKinds
  text_prefix :: rstr
  manual_text :: "ManualText option"
  capability_encode :: "'c \<Rightarrow> u8 list"
  capability_decode :: "decoder \<Rightarrow> CapsuleError + ('c \<times> decoder)"

subsection \<open>The capsule\<close>

definition INVITE_FORMAT_VERSION :: nat where "INVITE_FORMAT_VERSION = 1"
definition MAX_APPLICATION_ID_BYTES :: nat where "MAX_APPLICATION_ID_BYTES = 64"
definition PAYLOAD_FIELDS :: nat where "PAYLOAD_FIELDS = 10"
definition FLAGS :: nat where "FLAGS = 0"

record 'c InviteCapsule =
  node_public_key :: NodePublicKey
  locators :: "Locator list"
  capability :: 'c
  protocol_min :: u16
  protocol_max :: u16
  invite_expires_at :: "nat option"

definition supports_protocol :: "'c InviteCapsule \<Rightarrow> u16 \<Rightarrow> bool" where
  "supports_protocol c version \<longleftrightarrow> protocol_min c \<le> version \<and> version \<le> protocol_max c"

definition is_expired_at :: "'c InviteCapsule \<Rightarrow> nat \<Rightarrow> bool" where
  "is_expired_at c now = (case invite_expires_at c of None \<Rightarrow> False | Some expiry \<Rightarrow> expiry \<le> now)"

definition capsule_validate :: "primitives \<Rightarrow> 'c InviteProfile \<Rightarrow> 'c InviteCapsule \<Rightarrow> nat option \<Rightarrow> CapsuleError + unit" where
  "capsule_validate p P c now = (
     if protocol_min c = 0 \<or> protocol_max c < protocol_min c then Err Invalid
     else (case validate_locator_set p (locators c) (accepted_locators P) of Err e \<Rightarrow> Err e | Ok _ \<Rightarrow>
       if (case now of None \<Rightarrow> False | Some now \<Rightarrow> is_expired_at c now) then Err Expired else Ok ()))"

definition capsule_new ::
  "primitives \<Rightarrow> 'c InviteProfile \<Rightarrow> NodePublicKey \<Rightarrow> Locator list \<Rightarrow> 'c \<Rightarrow> u16 \<Rightarrow> u16 \<Rightarrow> nat option
   \<Rightarrow> CapsuleError + 'c InviteCapsule" where
  "capsule_new p P key ls cap pmin pmax expiry =
    (let c = \<lparr>node_public_key = key, locators = ls, capability = cap, protocol_min = pmin, protocol_max = pmax,
              invite_expires_at = expiry\<rparr>
     in case capsule_validate p P c None of Err e \<Rightarrow> Err e | Ok _ \<Rightarrow> Ok c)"

definition canonical_payload :: "primitives \<Rightarrow> 'c InviteProfile \<Rightarrow> 'c InviteCapsule \<Rightarrow> CapsuleError + u8 list" where
  "canonical_payload p P c = (case capsule_validate p P c None of Err e \<Rightarrow> Err e | Ok _ \<Rightarrow>
     Ok (encode_array PAYLOAD_FIELDS @ encode_uint INVITE_FORMAT_VERSION @ encode_text (application_id P)
       @ encode_uint (capability_type P) @ encode_bytes (node_public_key c)
       @ encode_array (length (locators c)) @ concat (map locator_encode (locators c))
       @ capability_encode P (capability c) @ encode_uint (unat (protocol_min c)) @ encode_uint (unat (protocol_max c))
       @ encode_uint FLAGS @ encode_optional_uint (invite_expires_at c)))"

definition protocol_version :: "decoder \<Rightarrow> CapsuleError + (u16 \<times> decoder)" where
  "protocol_version d = (case dec_uint d of Err e \<Rightarrow> Err e
     | Ok (v, d) \<Rightarrow> if v < 65536 then Ok (of_nat v, d) else Err Invalid)"

text \<open>\<open>(0..count).map(decode).collect()\<close> stops at the first failure.\<close>

fun decode_locators :: "primitives \<Rightarrow> LocatorKinds \<Rightarrow> nat \<Rightarrow> decoder \<Rightarrow> CapsuleError + (Locator list \<times> decoder)" where
  "decode_locators p kinds 0 d = Ok ([], d)"
| "decode_locators p kinds (Suc n) d = (case locator_decode p kinds d of Err e \<Rightarrow> Err e | Ok (l, d) \<Rightarrow>
     (case decode_locators p kinds n d of Err e \<Rightarrow> Err e | Ok (ls, d) \<Rightarrow> Ok (l # ls, d)))"

text \<open>The fields up to the node key, and those after it.\<close>

definition decode_header :: "primitives \<Rightarrow> 'c InviteProfile \<Rightarrow> decoder \<Rightarrow> CapsuleError + (NodePublicKey \<times> decoder)" where
  "decode_header p P d = (case dec_array PAYLOAD_FIELDS d of Err e \<Rightarrow> Err e | Ok d \<Rightarrow>
     (case dec_uint d of Err e \<Rightarrow> Err e | Ok (version, d) \<Rightarrow>
     if version \<noteq> INVITE_FORMAT_VERSION then Err UnsupportedVersion
     else (case dec_text MAX_APPLICATION_ID_BYTES d of Err e \<Rightarrow> Err e | Ok (app, d) \<Rightarrow>
     if app \<noteq> application_id P then Err WrongApplication
     else (case dec_uint d of Err e \<Rightarrow> Err e | Ok (kind, d) \<Rightarrow>
     if kind \<noteq> capability_type P then Err UnsupportedCapability
     else (case dec_bytes 32 d of Err e \<Rightarrow> Err e | Ok (bytes, d) \<Rightarrow>
     if length bytes \<noteq> 32 then Err Invalid
     else (case node_key_from_bytes p bytes of Err e \<Rightarrow> Err e | Ok key \<Rightarrow> Ok (key, d)))))))"

definition decode_fields :: "primitives \<Rightarrow> 'c InviteProfile \<Rightarrow> NodePublicKey \<Rightarrow> decoder \<Rightarrow> CapsuleError + 'c InviteCapsule" where
  "decode_fields p P key d = (case dec_array_len d of Err e \<Rightarrow> Err e | Ok (count, d) \<Rightarrow>
     if count = 0 \<or> count > MAX_LOCATORS then Err Invalid
     else (case decode_locators p (accepted_locators P) count d of Err e \<Rightarrow> Err e | Ok (ls, d) \<Rightarrow>
     (case capability_decode P d of Err e \<Rightarrow> Err e | Ok (cap, d) \<Rightarrow>
     (case protocol_version d of Err e \<Rightarrow> Err e | Ok (pmin, d) \<Rightarrow>
     (case protocol_version d of Err e \<Rightarrow> Err e | Ok (pmax, d) \<Rightarrow>
     (case dec_uint d of Err e \<Rightarrow> Err e | Ok (flags, d) \<Rightarrow>
     if flags \<noteq> FLAGS then Err Invalid
     else (case dec_optional_uint d of Err e \<Rightarrow> Err e | Ok (expiry, d) \<Rightarrow>
     (case dec_finish d of Err e \<Rightarrow> Err e | Ok _ \<Rightarrow>
       Ok \<lparr>node_public_key = key, locators = ls, capability = cap, protocol_min = pmin, protocol_max = pmax,
           invite_expires_at = expiry\<rparr>))))))))"

definition decode_payload :: "primitives \<Rightarrow> 'c InviteProfile \<Rightarrow> u8 list \<Rightarrow> CapsuleError + 'c InviteCapsule" where
  "decode_payload p P payload = (case decode_header p P payload of Err e \<Rightarrow> Err e | Ok (key, d) \<Rightarrow>
     (case decode_fields p P key d of Err e \<Rightarrow> Err e | Ok c \<Rightarrow>
     (case canonical_payload p P c of Err e \<Rightarrow> Err e | Ok canonical \<Rightarrow>
       if canonical \<noteq> payload then Err Invalid else Ok c)))"

definition capsule_signature_input :: "primitives \<Rightarrow> 'c InviteProfile \<Rightarrow> 'c InviteCapsule \<Rightarrow> CapsuleError + u8 list" where
  "capsule_signature_input p P c = (case canonical_payload p P c of Err e \<Rightarrow> Err e
     | Ok payload \<Rightarrow> Ok (signature_input (signature_domain P) (application_id P) payload))"

subsection \<open>The signed invite\<close>

definition MAX_ENCODED_INVITE_TEXT_BYTES :: nat where "MAX_ENCODED_INVITE_TEXT_BYTES = 2048"
definition SIGNED_FIELDS :: nat where "SIGNED_FIELDS = 2"
definition SIGNATURE_BYTES :: nat where "SIGNATURE_BYTES = 64"

record 'c SignedInvite =
  signed_capsule :: "'c InviteCapsule"
  signature :: "u8 list"

definition invite_sign :: "primitives \<Rightarrow> 'c InviteProfile \<Rightarrow> 'c InviteCapsule \<Rightarrow> u8 list \<Rightarrow> CapsuleError + 'c SignedInvite" where
  "invite_sign p P c signing_key = (if signing_key_public p signing_key \<noteq> node_public_key c then Err NodeIdentityMismatch
     else (case capsule_signature_input p P c of Err e \<Rightarrow> Err e | Ok message \<Rightarrow>
       Ok \<lparr>signed_capsule = c, signature = signing_key_sign p signing_key message\<rparr>))"

definition invite_verify :: "primitives \<Rightarrow> 'c InviteProfile \<Rightarrow> 'c SignedInvite \<Rightarrow> nat option \<Rightarrow> CapsuleError + unit" where
  "invite_verify p P s now = (case capsule_signature_input p P (signed_capsule s) of Err e \<Rightarrow> Err e | Ok message \<Rightarrow>
     if \<not> node_key_verify p (node_public_key (signed_capsule s)) message (signature s) then Err InvalidSignature
     else capsule_validate p P (signed_capsule s) now)"

definition invite_from_parts ::
  "primitives \<Rightarrow> 'c InviteProfile \<Rightarrow> 'c InviteCapsule \<Rightarrow> u8 list \<Rightarrow> nat option \<Rightarrow> CapsuleError + 'c SignedInvite" where
  "invite_from_parts p P c sig now = (let s = \<lparr>signed_capsule = c, signature = sig\<rparr>
     in case invite_verify p P s now of Err e \<Rightarrow> Err e | Ok _ \<Rightarrow> Ok s)"

definition canonical_binary :: "primitives \<Rightarrow> 'c InviteProfile \<Rightarrow> 'c SignedInvite \<Rightarrow> CapsuleError + u8 list" where
  "canonical_binary p P s = (case canonical_payload p P (signed_capsule s) of Err e \<Rightarrow> Err e | Ok payload \<Rightarrow>
     let binary = encode_array SIGNED_FIELDS @ encode_bytes payload @ encode_bytes (signature s)
     in if length binary > MAX_BINARY_INVITE_BYTES then Err TooLarge else Ok binary)"

definition invite_decode :: "primitives \<Rightarrow> 'c InviteProfile \<Rightarrow> u8 list \<Rightarrow> nat option \<Rightarrow> CapsuleError + 'c SignedInvite" where
  "invite_decode p P binary now = (if binary = [] \<or> length binary > MAX_BINARY_INVITE_BYTES then Err TooLarge
     else (case dec_array SIGNED_FIELDS binary of Err e \<Rightarrow> Err e | Ok d \<Rightarrow>
     (case dec_bytes MAX_BINARY_INVITE_BYTES d of Err e \<Rightarrow> Err e | Ok (payload, d) \<Rightarrow>
     (case dec_bytes SIGNATURE_BYTES d of Err e \<Rightarrow> Err e | Ok (sig, d) \<Rightarrow>
     if length sig \<noteq> SIGNATURE_BYTES then Err Invalid
     else (case dec_finish d of Err e \<Rightarrow> Err e | Ok _ \<Rightarrow>
     (case decode_payload p P payload of Err e \<Rightarrow> Err e | Ok c \<Rightarrow>
       let s = \<lparr>signed_capsule = c, signature = sig\<rparr>
       in (case invite_verify p P s now of Err e \<Rightarrow> Err e | Ok _ \<Rightarrow>
          (case canonical_binary p P s of Err e \<Rightarrow> Err e | Ok canonical \<Rightarrow>
             if canonical \<noteq> binary then Err Invalid else Ok s))))))))"

subsection \<open>Text forms\<close>

definition encode_base64url :: "primitives \<Rightarrow> rstr \<Rightarrow> u8 list \<Rightarrow> rstr" where
  "encode_base64url p pre binary = pre @ base64url_encode p binary"

definition decode_base64url :: "primitives \<Rightarrow> rstr \<Rightarrow> rstr \<Rightarrow> CapsuleError + u8 list" where
  "decode_base64url p pre input = (let encoded = (case strip_prefix input pre of Some r \<Rightarrow> r | None \<Rightarrow> input)
     in if encoded = [] \<or> \<not> list_all is_base64url_char encoded then Err Invalid
        else (case base64url_decode p encoded of None \<Rightarrow> Err Invalid | Some binary \<Rightarrow>
          if length binary > MAX_BINARY_INVITE_BYTES then Err TooLarge
          else if base64url_encode p binary \<noteq> encoded then Err Invalid else Ok binary))"

text \<open>\<open>input.get(..n)\<close> with \<open>eq_ignore_ascii_case\<close>.\<close>

definition has_prefix :: "rstr \<Rightarrow> rstr \<Rightarrow> bool" where
  "has_prefix input pre = (case str_get_from (str_len pre) input of None \<Rightarrow> False
     | Some rest \<Rightarrow> ascii_lower (take (length input - length rest) input) = ascii_lower pre)"

definition to_text :: "primitives \<Rightarrow> 'c InviteProfile \<Rightarrow> 'c SignedInvite \<Rightarrow> CapsuleError + rstr" where
  "to_text p P s = (case canonical_binary p P s of Err e \<Rightarrow> Err e | Ok binary \<Rightarrow> Ok (encode_base64url p (text_prefix P) binary))"

definition to_manual_text :: "primitives \<Rightarrow> 'c InviteProfile \<Rightarrow> 'c SignedInvite \<Rightarrow> CapsuleError + rstr" where
  "to_manual_text p P s = (case manual_text P of None \<Rightarrow> Err Invalid | Some form \<Rightarrow>
     (case canonical_binary p P s of Err e \<Rightarrow> Err e | Ok binary \<Rightarrow> Ok (encode_manual p form binary)))"

definition text_binary :: "primitives \<Rightarrow> 'c InviteProfile \<Rightarrow> rstr \<Rightarrow> CapsuleError + u8 list" where
  "text_binary p P input = (case manual_text P of
       Some form \<Rightarrow> if has_prefix input (manual_prefix form) then decode_manual p form input
         else decode_base64url p (text_prefix P) input
     | None \<Rightarrow> decode_base64url p (text_prefix P) input)"

definition from_text :: "primitives \<Rightarrow> 'c InviteProfile \<Rightarrow> rstr \<Rightarrow> nat option \<Rightarrow> CapsuleError + 'c SignedInvite" where
  "from_text p P input now = (if input = [] \<or> str_len input > MAX_ENCODED_INVITE_TEXT_BYTES then Err TooLarge
     else (case text_binary p P input of Err e \<Rightarrow> Err e | Ok binary \<Rightarrow> invite_decode p P binary now))"

subsection \<open>Reading what was written\<close>

lemma reads:
  "v < 2 ^ 64 \<Longrightarrow> dec_uint (encode_uint v @ r) = Ok (v, r)"
  "n < 2 ^ 64 \<Longrightarrow> dec_array n (encode_array n @ r) = Ok r"
  "n < 2 ^ 64 \<Longrightarrow> dec_array_len (encode_array n @ r) = Ok (n, r)"
  "length bs \<le> limit \<Longrightarrow> length bs < 2 ^ 64 \<Longrightarrow> dec_bytes limit (encode_bytes bs @ r) = Ok (bs, r)"
  "str_len s \<le> limit \<Longrightarrow> str_len s < 2 ^ 64 \<Longrightarrow> list_all is_scalar s \<Longrightarrow> dec_text limit (encode_text s @ r) = Ok (s, r)"
  "\<forall>n. v' = Some n \<longrightarrow> n < 2 ^ 64 \<Longrightarrow> dec_optional_uint (encode_optional_uint v' @ r) = Ok (v', r)"
  by (simp_all add: decodes)

lemma protocol_version_Ok: "protocol_version d = Ok (v, r) \<longleftrightarrow> d = encode_uint (unat v) @ r"
proof -
  have "unat v < 65536" for v :: u16 using unsigned_less [of v, where ?'a = nat] by simp
  then show ?thesis
    by (auto simp: protocol_version_def decodes unat_of_nat take_bit_nat_eq_self intro: less_trans split: if_splits)
qed

lemma decode_locators_Ok:
  "decode_locators p kinds n d = Ok (ls, r) \<longleftrightarrow> length ls = n \<and> d = concat (map locator_encode ls) @ r
     \<and> list_all (\<lambda>l. accepts kinds l \<and> locator_valid p l \<and> locator_typed l) ls"
  by (induction n arbitrary: d ls) (auto simp: locator_decode_Ok length_Suc_conv)

lemma dec_finish_Ok: "dec_finish d = Ok u \<longleftrightarrow> d = []"
  by (simp add: dec_finish_def)

lemma node_key_from_bytes_Ok:
  "node_key_from_bytes p bs = Ok key \<longleftrightarrow> key = bs \<and> bs \<noteq> replicate 32 0 \<and> key_from_bytes p bs"
  by (auto simp: node_key_from_bytes_def)

lemma capsule_validate_None:
  "capsule_validate p P c None = Ok () \<longleftrightarrow> protocol_min c \<noteq> 0 \<and> protocol_min c \<le> protocol_max c
     \<and> validate_locator_set p (locators c) (accepted_locators P) = Ok ()"
  by (auto simp: capsule_validate_def split: sum.splits)

lemma capsule_validate_Some:
  "capsule_validate p P c (Some now) = Ok () \<longleftrightarrow> capsule_validate p P c None = Ok () \<and> \<not> is_expired_at c now"
  by (auto simp: capsule_validate_def split: sum.splits)

lemma capsule_validate_weak: "capsule_validate p P c now = Ok () \<Longrightarrow> capsule_validate p P c None = Ok ()"
  by (cases now) (auto simp: capsule_validate_Some)

lemma primitives_sign:
  assumes "primitives_ok p"
  shows "node_key_verify p (signing_key_public p seed) m (signing_key_sign p seed m) \<and> length (signing_key_sign p seed m) = 64"
    "length (signing_key_public p seed) = 32" "node_key_from_bytes p (signing_key_public p seed) = Ok (signing_key_public p seed)"
  using assms
  by (simp_all add: primitives_ok_def node_key_verify_def signing_key_public_def signing_key_sign_def node_key_from_bytes_def)

lemma invite_verify_Ok:
  "invite_verify p P s now = Ok () \<longleftrightarrow>
     (\<exists>payload. canonical_payload p P (signed_capsule s) = Ok payload
        \<and> node_key_verify p (node_public_key (signed_capsule s))
             (signature_input (signature_domain P) (application_id P) payload) (signature s))
     \<and> capsule_validate p P (signed_capsule s) now = Ok ()"
  by (auto simp: invite_verify_def capsule_signature_input_def split: sum.splits)

text \<open>What the types of the source say of a capsule: the key is an accepted 32-byte key,
  the expiry a \<open>u64\<close>, the locators hold 32-byte keys and hashes.\<close>

definition capsule_typed :: "primitives \<Rightarrow> ('c \<Rightarrow> bool) \<Rightarrow> 'c InviteCapsule \<Rightarrow> bool" where
  "capsule_typed p cap_valid c \<longleftrightarrow> length (node_public_key c) = 32
     \<and> node_key_from_bytes p (node_public_key c) = Ok (node_public_key c)
     \<and> list_all locator_typed (locators c) \<and> cap_valid (capability c)
     \<and> (case invite_expires_at c of None \<Rightarrow> True | Some n \<Rightarrow> n < 2 ^ 64)"

text \<open>
  What the format needs of an application: its capability reads exactly what it
  writes, and its constants fit the fields they are written to.
\<close>

locale invite_profile =
  fixes P :: "'c InviteProfile" and cap_valid :: "'c \<Rightarrow> bool"
  assumes capability_reads: "capability_decode P d = Ok (cap, r) \<longleftrightarrow> d = capability_encode P cap @ r \<and> cap_valid cap"
    and application_id_fits: "str_len (application_id P) \<le> MAX_APPLICATION_ID_BYTES" "list_all is_scalar (application_id P)"
    and capability_type_fits: "capability_type P < 2 ^ 64"
begin

lemma decode_header_Ok:
  "decode_header p P d = Ok (key, r) \<longleftrightarrow>
     d = encode_array PAYLOAD_FIELDS @ encode_uint INVITE_FORMAT_VERSION @ encode_text (application_id P)
       @ encode_uint (capability_type P) @ encode_bytes key @ r
     \<and> length key = 32 \<and> node_key_from_bytes p key = Ok key"
proof
  assume "decode_header p P d = Ok (key, r)"
  then show "d = encode_array PAYLOAD_FIELDS @ encode_uint INVITE_FORMAT_VERSION @ encode_text (application_id P)
       @ encode_uint (capability_type P) @ encode_bytes key @ r
     \<and> length key = 32 \<and> node_key_from_bytes p key = Ok key"
    by (auto simp: decode_header_def decodes node_key_from_bytes_Ok split: if_splits)
next
  have lt: "str_len (application_id P) < 2 ^ 64" "PAYLOAD_FIELDS < 2 ^ 64" "INVITE_FORMAT_VERSION < 2 ^ 64"
    using application_id_fits(1) by (simp_all add: MAX_APPLICATION_ID_BYTES_def PAYLOAD_FIELDS_def INVITE_FORMAT_VERSION_def)
  assume "d = encode_array PAYLOAD_FIELDS @ encode_uint INVITE_FORMAT_VERSION @ encode_text (application_id P)
       @ encode_uint (capability_type P) @ encode_bytes key @ r
     \<and> length key = 32 \<and> node_key_from_bytes p key = Ok key"
  then show "decode_header p P d = Ok (key, r)"
    using lt application_id_fits capability_type_fits by (simp add: decode_header_def reads)
qed

lemma decode_fields_Ok:
  assumes "validate_locator_set p (locators c) (accepted_locators P) = Ok ()" "capsule_typed p cap_valid c"
  shows "decode_fields p P (node_public_key c)
      (encode_array (length (locators c)) @ concat (map locator_encode (locators c))
       @ capability_encode P (capability c) @ encode_uint (unat (protocol_min c)) @ encode_uint (unat (protocol_max c))
       @ encode_uint FLAGS @ encode_optional_uint (invite_expires_at c)) = Ok c"
proof -
  have ls: "locators c \<noteq> []" "length (locators c) \<le> MAX_LOCATORS" "length (locators c) < 2 ^ 64" "FLAGS < 2 ^ 64"
    using assms(1) by (simp_all add: validate_locator_set_Ok MAX_LOCATORS_def FLAGS_def)
  have dl: "decode_locators p (accepted_locators P) (length (locators c)) (concat (map locator_encode (locators c)) @ r)
      = Ok (locators c, r)" for r
    using assms by (simp add: decode_locators_Ok validate_locator_set_Ok capsule_typed_def list_all_iff)
  have cap: "capability_decode P (capability_encode P (capability c) @ r) = Ok (capability c, r)" for r
    using assms(2) by (simp add: capability_reads capsule_typed_def)
  have pv: "protocol_version (encode_uint (unat v) @ r) = Ok (v, r)" for v r by (simp add: protocol_version_Ok)
  have ex: "dec_optional_uint (encode_optional_uint (invite_expires_at c)) = Ok (invite_expires_at c, [])"
    using reads(6) [of "invite_expires_at c" "[]"] assms(2) by (auto simp: capsule_typed_def split: option.splits)
  show ?thesis using ls by (simp add: decode_fields_def reads dl cap pv ex dec_finish_def)
qed

lemma decode_fields_typed:
  assumes "decode_fields p P key d = Ok c" "length key = 32" "node_key_from_bytes p key = Ok key"
  shows "capsule_typed p cap_valid c"
  using assms
  by (auto simp: decode_fields_def decodes decode_locators_Ok capability_reads capsule_typed_def list_all_iff
      split: if_splits option.splits)

lemma decode_payload_Ok:
  "decode_payload p P payload = Ok c \<longleftrightarrow> canonical_payload p P c = Ok payload \<and> capsule_typed p cap_valid c"
proof
  assume "decode_payload p P payload = Ok c"
  then obtain key d where "decode_header p P payload = Ok (key, d)" "decode_fields p P key d = Ok c"
    "canonical_payload p P c = Ok payload"
    by (auto simp: decode_payload_def split: if_splits)
  then show "canonical_payload p P c = Ok payload \<and> capsule_typed p cap_valid c"
    using decode_fields_typed by (auto simp: decode_header_Ok)
next
  assume *: "canonical_payload p P c = Ok payload \<and> capsule_typed p cap_valid c"
  define rest where "rest = encode_array (length (locators c)) @ concat (map locator_encode (locators c))
       @ capability_encode P (capability c) @ encode_uint (unat (protocol_min c)) @ encode_uint (unat (protocol_max c))
       @ encode_uint FLAGS @ encode_optional_uint (invite_expires_at c)"
  have v: "validate_locator_set p (locators c) (accepted_locators P) = Ok ()"
    and payload: "payload = encode_array PAYLOAD_FIELDS @ encode_uint INVITE_FORMAT_VERSION @ encode_text (application_id P)
       @ encode_uint (capability_type P) @ encode_bytes (node_public_key c) @ rest"
    using * by (auto simp: canonical_payload_def rest_def capsule_validate_None)
  have "decode_header p P payload = Ok (node_public_key c, rest)"
    unfolding decode_header_Ok payload using * by (simp add: capsule_typed_def)
  moreover have "decode_fields p P (node_public_key c) rest = Ok c"
    unfolding rest_def using decode_fields_Ok [OF v] * by blast
  ultimately show "decode_payload p P payload = Ok c" using * by (simp add: decode_payload_def)
qed

text \<open>An invite decodes if and only if it is the canonical form of a verified one.\<close>

lemma invite_decode_Ok:
  "invite_decode p P binary now = Ok s \<longleftrightarrow>
     canonical_binary p P s = Ok binary \<and> invite_verify p P s now = Ok ()
     \<and> capsule_typed p cap_valid (signed_capsule s) \<and> length (signature s) = SIGNATURE_BYTES"
proof
  assume "invite_decode p P binary now = Ok s"
  then show "canonical_binary p P s = Ok binary \<and> invite_verify p P s now = Ok ()
     \<and> capsule_typed p cap_valid (signed_capsule s) \<and> length (signature s) = SIGNATURE_BYTES"
    by (auto simp: invite_decode_def Let_def decode_payload_Ok split: if_splits)
next
  assume *: "canonical_binary p P s = Ok binary \<and> invite_verify p P s now = Ok ()
     \<and> capsule_typed p cap_valid (signed_capsule s) \<and> length (signature s) = SIGNATURE_BYTES"
  then obtain payload where pl: "canonical_payload p P (signed_capsule s) = Ok payload"
    and bin: "binary = encode_array SIGNED_FIELDS @ encode_bytes payload @ encode_bytes (signature s)"
    and len: "length binary \<le> MAX_BINARY_INVITE_BYTES"
    by (auto simp: canonical_binary_def Let_def split: if_splits)
  have small: "length payload \<le> MAX_BINARY_INVITE_BYTES"
    using len by (simp add: bin encode_bytes_def)
  then have fit: "length payload < 2 ^ 64" "length (signature s) < 2 ^ 64" "SIGNED_FIELDS < 2 ^ 64"
    using * by (simp_all add: MAX_BINARY_INVITE_BYTES_def SIGNATURE_BYTES_def SIGNED_FIELDS_def)
  have sig: "dec_bytes SIGNATURE_BYTES (encode_bytes (signature s)) = Ok (signature s, [])"
    using reads(4) [of "signature s" SIGNATURE_BYTES "[]"] * fit(2) by simp
  have pay: "decode_payload p P payload = Ok (signed_capsule s)" using pl * by (simp add: decode_payload_Ok)
  have ne: "binary \<noteq> []" using bin * by (auto simp: encode_bytes_def SIGNATURE_BYTES_def)
  have s: "\<lparr>signed_capsule = signed_capsule s, signature = signature s\<rparr> = s" by simp
  show "invite_decode p P binary now = Ok s"
    using ne len * fit small by (simp add: invite_decode_def bin reads sig dec_finish_def pay s)
qed

text \<open>A signed invite verifies until it expires, and its binary decodes to it.\<close>

lemma signed_verifies:
  assumes "primitives_ok p" "invite_sign p P c seed = Ok s" "capsule_validate p P c now = Ok ()"
  shows "invite_verify p P s now = Ok () \<and> signed_capsule s = c \<and> length (signature s) = SIGNATURE_BYTES"
  using assms(2,3) primitives_sign [OF assms(1), of seed]
  by (auto simp: invite_sign_def invite_verify_def SIGNATURE_BYTES_def split: if_splits)

lemma signed_invite_decodes:
  assumes "primitives_ok p" "invite_sign p P c seed = Ok s" "capsule_validate p P c now = Ok ()"
    and "capsule_typed p cap_valid c" "canonical_binary p P s = Ok binary"
  shows "invite_decode p P binary now = Ok s"
  using signed_verifies [OF assms(1-3)] assms(4,5) by (simp add: invite_decode_Ok)

end

subsection \<open>Base64URL text\<close>

lemma decode_encode_base64url:
  assumes "primitives_ok p" "binary \<noteq> []" "length binary \<le> MAX_BINARY_INVITE_BYTES"
  shows "decode_base64url p pre (encode_base64url p pre binary) = Ok binary"
  using assms by (simp add: decode_base64url_def encode_base64url_def strip_prefix_def primitives_ok_def)

lemma base64url_text_fits:
  assumes "primitives_ok p" "length binary \<le> MAX_BINARY_INVITE_BYTES" "str_len pre \<le> 600"
  shows "str_len (encode_base64url p pre binary) \<le> MAX_ENCODED_INVITE_TEXT_BYTES"
proof -
  have chars: "list_all is_base64url_char (base64url_encode p binary)" "3 * length (base64url_encode p binary) \<le> 4 * length binary + 2"
    using assms(1) by (simp_all add: primitives_ok_def)
  have "c < 128" if "c \<in> set (base64url_encode p binary)" for c
    using chars(1) that
    by (auto simp: list_all_iff is_base64url_char_def is_alnum_def is_lower_def is_upper_def is_digit_def)
  then have "str_len (base64url_encode p binary) = length (base64url_encode p binary)" by (rule str_len_ascii)
  moreover have "length (base64url_encode p binary) \<le> 1366"
    using chars(2) assms(2) unfolding MAX_BINARY_INVITE_BYTES_def by linarith
  ultimately show ?thesis using assms(3) by (simp add: encode_base64url_def MAX_ENCODED_INVITE_TEXT_BYTES_def)
qed

lemma text_round_trip:
  assumes "primitives_ok p" "manual_text P = None" "str_len (text_prefix P) \<le> 600"
    and "canonical_binary p P s = Ok binary" "to_text p P s = Ok shown"
  shows "from_text p P shown now = invite_decode p P binary now"
proof -
  have binary: "binary \<noteq> []" "length binary \<le> MAX_BINARY_INVITE_BYTES"
    using assms(4) by (auto simp: canonical_binary_def Let_def encode_array_def encode_head_def split: if_splits)
  have shown: "shown = encode_base64url p (text_prefix P) binary" using assms(4,5) by (simp add: to_text_def)
  then have "text_binary p P shown = Ok binary" using assms(1,2) binary by (simp add: text_binary_def decode_encode_base64url)
  moreover have "shown \<noteq> []" using assms(1) binary(1) by (simp add: shown encode_base64url_def primitives_ok_def)
  moreover have "str_len shown \<le> MAX_ENCODED_INVITE_TEXT_BYTES"
    unfolding shown by (rule base64url_text_fits [OF assms(1) binary(2) assms(3)])
  ultimately show ?thesis by (simp add: from_text_def)
qed

subsection \<open>Sizes\<close>

lemma head_small: "length (encode_head m v) \<le> 9"
  by (simp add: encode_head_def Let_def)

lemmas encoded_sizes = encode_uint_def encode_array_def encode_text_def encode_bytes_def encode_optional_uint_def

lemma uint_small: "length (encode_uint v) \<le> 9" "length (encode_array v) \<le> 9" "length (encode_optional_uint v') \<le> 9"
    "length (encode_text s) \<le> 9 + str_len s" "length (encode_bytes bs) \<le> 9 + length bs"
  using head_small by (auto simp: encoded_sizes split: option.splits)

lemma locator_small:
  assumes "locator_valid p l" "locator_typed l"
  shows "length (locator_encode l) \<le> 289"
proof -
  have "length (locator_rest l) \<le> 271"
  proof (cases l)
    case (Https host port)
    then have "str_len host \<le> 253" using assms(1) by (auto dest: valid_dns_text simp: MAX_HOST_BYTES_def)
    then show ?thesis using Https uint_small(1) [of "unat port"] uint_small(4) [of host] by (simp add: locator_rest_def)
  next
    case (LoopbackDevelopment host port)
    then show ?thesis using uint_small(1) [of "unat port"] uint_small(1) [of "loopback_tag host"] by (simp add: locator_rest_def)
  next
    case (OnionV3 key port)
    then show ?thesis using assms(2) uint_small(1) [of "unat port"] uint_small(5) [of key] by (simp add: locator_rest_def)
  next
    case (I2pB32 hash port)
    then show ?thesis using assms(2) uint_small(1) [of "unat port"] uint_small(5) [of hash] by (simp add: locator_rest_def)
  qed
  then show ?thesis
    using uint_small(2) [of LOCATOR_FIELDS] uint_small(1) [of "locator_tag l"] by (simp add: locator_encode_eq)
qed

lemma payload_small:
  assumes "canonical_payload p P c = Ok payload" "locators c = [l]" "locator_typed l" "length (node_public_key c) = 32"
  shows "length payload \<le> 433 + str_len (application_id P) + length (capability_encode P (capability c))"
proof -
  have "locator_valid p l" using assms(1,2) by (auto simp: canonical_payload_def capsule_validate_None validate_locator_set_Ok)
  then have "length (locator_encode l) \<le> 289" using assms(3) locator_small by blast
  moreover have "length (encode_bytes (node_public_key c)) \<le> 41" using uint_small(5) [of "node_public_key c"] assms(4) by simp
  ultimately show ?thesis
    using assms(1,2) uint_small(2) [of PAYLOAD_FIELDS] uint_small(1) [of INVITE_FORMAT_VERSION]
      uint_small(4) [of "application_id P"] uint_small(1) [of "capability_type P"] uint_small(2) [of "Suc 0"]
      uint_small(1) [of "unat (protocol_min c)"] uint_small(1) [of "unat (protocol_max c)"] uint_small(1) [of FLAGS]
      uint_small(3) [of "invite_expires_at c"]
    by (auto simp: canonical_payload_def)
qed

end
