(* ===== verification/Ket_Invite.thy ===== *)
theory Ket_Invite
  imports Invite
begin

text \<open>
  Ket's profile of the invite format and the node-authenticated enrolment
  (crates/ket-invite \<open>profile.rs\<close>, \<open>enrollment.rs\<close>). The access code is the
  capability; the profile is an instance of the interface \<open>invite_profile\<close>.
\<close>

definition KET_APPLICATION_ID :: rstr where "KET_APPLICATION_ID = lit ''org.ket.access''"
definition CONTROL_API_VERSION :: u16 where "CONTROL_API_VERSION = 1"
definition SEALED_CONTROL_API_VERSION :: u16 where "SEALED_CONTROL_API_VERSION = 2"
definition ACCESS_CODE_BYTES :: nat where "ACCESS_CODE_BYTES = 32"
definition INVITE_TEXT_PREFIX :: rstr where "INVITE_TEXT_PREFIX = lit ''ket:invite:''"
definition NODE_FINGERPRINT_DOMAIN :: "u8 list" where "NODE_FINGERPRINT_DOMAIN = str_as_bytes (lit ''KET-NODE-FINGERPRINT-V1'')"
definition CAPABILITY_ACCESS_GRANT :: nat where "CAPABILITY_ACCESS_GRANT = 1"

text \<open>An \<open>AccessCode\<close> is the text that \<open>access_code_new\<close> accepted.\<close>

definition access_code_new :: "rstr \<Rightarrow> CapsuleError + rstr" where
  "access_code_new code = (if str_len code \<noteq> ACCESS_CODE_BYTES \<or> \<not> list_all is_alnum code then Err Invalid else Ok code)"

definition access_code_encode :: "rstr \<Rightarrow> u8 list" where
  "access_code_encode code = encode_text code"

definition access_code_decode :: "decoder \<Rightarrow> CapsuleError + (rstr \<times> decoder)" where
  "access_code_decode d = (case dec_text ACCESS_CODE_BYTES d of Err e \<Rightarrow> Err e
     | Ok (code, d) \<Rightarrow> (case access_code_new code of Err e \<Rightarrow> Err e | Ok code \<Rightarrow> Ok (code, d)))"

definition KetInvite :: "rstr InviteProfile" where
  "KetInvite = \<lparr>application_id = KET_APPLICATION_ID, signature_domain = str_as_bytes (lit ''KET-INVITE-CAPSULE-V1''),
     capability_type = CAPABILITY_ACCESS_GRANT, accepted_locators = CLEARNET, text_prefix = INVITE_TEXT_PREFIX,
     manual_text = None, capability_encode = access_code_encode, capability_decode = access_code_decode\<rparr>"

definition ket_capsule ::
  "primitives \<Rightarrow> NodePublicKey \<Rightarrow> Locator list \<Rightarrow> rstr \<Rightarrow> nat option \<Rightarrow> CapsuleError + rstr InviteCapsule" where
  "ket_capsule p key ls access_code expiry = (case access_code_new access_code of Err e \<Rightarrow> Err e
     | Ok code \<Rightarrow> capsule_new p KetInvite key ls code CONTROL_API_VERSION SEALED_CONTROL_API_VERSION expiry)"

definition ket_locator_from_public_url :: "primitives \<Rightarrow> (rstr \<Rightarrow> parsed_url option) \<Rightarrow> rstr \<Rightarrow> CapsuleError + Locator" where
  "ket_locator_from_public_url p parse value = (case locator_from_public_url p parse value of Err e \<Rightarrow> Err e
     | Ok l \<Rightarrow> if \<not> accepts (accepted_locators KetInvite) l then Err UnsupportedLocator else Ok l)"

definition encode_invite_text :: "primitives \<Rightarrow> rstr SignedInvite \<Rightarrow> CapsuleError + rstr" where
  "encode_invite_text p invite = to_text p KetInvite invite"

definition decode_invite_text :: "primitives \<Rightarrow> rstr \<Rightarrow> nat option \<Rightarrow> CapsuleError + rstr SignedInvite" where
  "decode_invite_text p input now = from_text p KetInvite input now"

definition node_fingerprint :: "primitives \<Rightarrow> NodePublicKey \<Rightarrow> rstr" where
  "node_fingerprint p key = key_fingerprint p NODE_FINGERPRINT_DOMAIN key"

subsection \<open>Enrolment\<close>

definition ENROLLMENT_NONCE_BYTES :: nat where "ENROLLMENT_NONCE_BYTES = 32"
definition ENROLLMENT_SIGNATURE_DOMAIN :: "u8 list" where "ENROLLMENT_SIGNATURE_DOMAIN = str_as_bytes (lit ''KET-ENROLLMENT-V1'')"

definition nonce_header_value :: "primitives \<Rightarrow> u8 list \<Rightarrow> rstr" where
  "nonce_header_value p nonce = base64url_encode p nonce"

definition nonce_from_header_value :: "primitives \<Rightarrow> rstr \<Rightarrow> CapsuleError + u8 list" where
  "nonce_from_header_value p value = (case decode_exact p ENROLLMENT_NONCE_BYTES value of None \<Rightarrow> Err Invalid | Some n \<Rightarrow> Ok n)"

definition enrollment_signature_input :: "u8 list \<Rightarrow> u8 list \<Rightarrow> u8 list" where
  "enrollment_signature_input nonce body =
     (let n = (if length body < 2 ^ 32 then length body else 2 ^ 32 - 1)
      in ENROLLMENT_SIGNATURE_DOMAIN @ nonce @ to_be_bytes 4 n @ body)"

definition enrollment_proof_sign :: "primitives \<Rightarrow> u8 list \<Rightarrow> u8 list \<Rightarrow> u8 list \<Rightarrow> rstr" where
  "enrollment_proof_sign p signing_key nonce body =
     base64url_encode p (signing_key_sign p signing_key (enrollment_signature_input nonce body))"

definition enrollment_proof_verify ::
  "primitives \<Rightarrow> NodePublicKey \<Rightarrow> u8 list \<Rightarrow> u8 list \<Rightarrow> rstr option \<Rightarrow> CapsuleError + unit" where
  "enrollment_proof_verify p key nonce body header_value =
    (case header_value of None \<Rightarrow> Err NodeIdentityMismatch | Some value \<Rightarrow>
      (case decode_exact p SIGNATURE_BYTES value of None \<Rightarrow> Err NodeIdentityMismatch
       | Some sig \<Rightarrow> if node_key_verify p key (enrollment_signature_input nonce body) sig then Ok ()
           else Err NodeIdentityMismatch))"

subsection \<open>The profile meets the interface\<close>

definition access_code_valid :: "rstr \<Rightarrow> bool" where
  "access_code_valid code \<longleftrightarrow> str_len code = ACCESS_CODE_BYTES \<and> list_all is_alnum code"

lemma alnum_scalar: "list_all is_alnum s \<Longrightarrow> list_all is_scalar s"
  by (auto simp: list_all_iff is_scalar_def is_alnum_def is_lower_def is_upper_def is_digit_def)

lemma access_code_reads: "access_code_decode d = Ok (code, r) \<longleftrightarrow> d = access_code_encode code @ r \<and> access_code_valid code"
proof -
  have "access_code_decode d = Ok (code, r) \<longleftrightarrow> dec_text ACCESS_CODE_BYTES d = Ok (code, r) \<and> access_code_valid code"
    by (auto simp: access_code_decode_def access_code_new_def access_code_valid_def split: if_splits)
  then show ?thesis
    using alnum_scalar [of code] by (auto simp: decodes access_code_encode_def access_code_valid_def ACCESS_CODE_BYTES_def)
qed

interpretation ket_profile: invite_profile KetInvite access_code_valid
proof unfold_locales
  show "capability_decode KetInvite d = Ok (cap, r) \<longleftrightarrow> d = capability_encode KetInvite cap @ r \<and> access_code_valid cap" for d cap r
    by (simp add: KetInvite_def access_code_reads)
  show "str_len (application_id KetInvite) \<le> MAX_APPLICATION_ID_BYTES" by code_simp
  show "list_all is_scalar (application_id KetInvite)"
    by (simp add: KetInvite_def KET_APPLICATION_ID_def lit_def is_scalar_def)
  show "capability_type KetInvite < 2 ^ 64" by (simp add: KetInvite_def CAPABILITY_ACCESS_GRANT_def)
qed

subsection \<open>Properties\<close>

text \<open>
  C16: an invite is accepted exactly when it is genuine. Decoding a binary returns an
  invite if and only if the binary is that invite's canonical encoding, the signature
  is the node's over its contents, the locators and versions are valid, it has not
  expired, and its key, access code and expiry are well formed. In particular no
  invite has two binary forms.
\<close>

theorem invite_accepted_exactly:
  "invite_decode p KetInvite binary now = Ok s \<longleftrightarrow>
     (\<exists>payload. canonical_payload p KetInvite (signed_capsule s) = Ok payload
        \<and> node_key_verify p (node_public_key (signed_capsule s))
             (signature_input (str_as_bytes (lit ''KET-INVITE-CAPSULE-V1'')) KET_APPLICATION_ID payload) (signature s))
     \<and> capsule_validate p KetInvite (signed_capsule s) now = Ok ()
     \<and> capsule_typed p access_code_valid (signed_capsule s) \<and> length (signature s) = SIGNATURE_BYTES
     \<and> canonical_binary p KetInvite s = Ok binary"
proof -
  have "application_id KetInvite = KET_APPLICATION_ID" "signature_domain KetInvite = str_as_bytes (lit ''KET-INVITE-CAPSULE-V1'')"
    by (simp_all add: KetInvite_def)
  then show ?thesis unfolding ket_profile.invite_decode_Ok invite_verify_Ok by auto
qed

lemma ket_capsule_Ok:
  "ket_capsule p key ls code expiry = Ok c \<longleftrightarrow> access_code_valid code
     \<and> c = \<lparr>node_public_key = key, locators = ls, capability = code, protocol_min = CONTROL_API_VERSION,
            protocol_max = SEALED_CONTROL_API_VERSION, invite_expires_at = expiry\<rparr>
     \<and> validate_locator_set p ls CLEARNET = Ok ()"
proof -
  have "accepted_locators KetInvite = CLEARNET" by (simp add: KetInvite_def)
  then show ?thesis
    by (auto simp: ket_capsule_def access_code_new_def access_code_valid_def capsule_new_def Let_def capsule_validate_None
        CONTROL_API_VERSION_def SEALED_CONTROL_API_VERSION_def split: if_splits)
qed

text \<open>
  C17: every invite a node issues for one control locator can be shared and opened.
  Signing succeeds, the signed invite has a text form within the size limit, and until
  it expires that text decodes to exactly the invite that was signed.
\<close>

theorem issued_invite_opens:
  assumes "primitives_ok p" "ket_capsule p (signing_key_public p seed) [l] code expiry = Ok c" "locator_typed l"
    and "case expiry of None \<Rightarrow> True | Some n \<Rightarrow> now < n \<and> n < 2 ^ 64"
  shows "\<exists>s invite_text. invite_sign p KetInvite c seed = Ok s \<and> encode_invite_text p s = Ok invite_text
    \<and> decode_invite_text p invite_text (Some now) = Ok s \<and> signed_capsule s = c"
proof -
  have c: "access_code_valid code" "locators c = [l]" "capability c = code" "node_public_key c = signing_key_public p seed"
    "invite_expires_at c = expiry" "capsule_validate p KetInvite c None = Ok ()"
    using assms(2) by (auto simp: ket_capsule_Ok capsule_validate_None KetInvite_def CONTROL_API_VERSION_def SEALED_CONTROL_API_VERSION_def)
  then have valid: "capsule_validate p KetInvite c (Some now) = Ok ()"
    using assms(4) by (auto simp: capsule_validate_Some is_expired_at_def split: option.splits)
  have typed: "capsule_typed p access_code_valid c"
    using c assms(3,4) primitives_sign [OF assms(1)] by (auto simp: capsule_typed_def split: option.splits)
  obtain payload where payload: "canonical_payload p KetInvite c = Ok payload"
    using c(6) by (simp add: canonical_payload_def)
  then obtain s where s: "invite_sign p KetInvite c seed = Ok s"
    using c(4) by (simp add: invite_sign_def capsule_signature_input_def)
  have signed: "signed_capsule s = c" "length (signature s) = 64"
    using ket_profile.signed_verifies [OF assms(1) s valid] by (simp_all add: SIGNATURE_BYTES_def)
  have "length payload \<le> 433 + 14 + (9 + 32)"
    using payload_small [OF payload c(2) assms(3)] c primitives_sign(2) [OF assms(1)] uint_small(4) [of code]
    by (simp add: KetInvite_def KET_APPLICATION_ID_def lit_def str_len_def utf8_width_def access_code_encode_def
        access_code_valid_def ACCESS_CODE_BYTES_def)
  then have "length (encode_array SIGNED_FIELDS @ encode_bytes payload @ encode_bytes (signature s)) \<le> MAX_BINARY_INVITE_BYTES"
    using uint_small(2) [of SIGNED_FIELDS] uint_small(5) [of payload] uint_small(5) [of "signature s"] signed(2)
    by (simp add: MAX_BINARY_INVITE_BYTES_def)
  then obtain binary where binary: "canonical_binary p KetInvite s = Ok binary"
    using payload signed(1) by (simp add: canonical_binary_def Let_def)
  obtain shown where shown: "to_text p KetInvite s = Ok shown" using binary by (simp add: to_text_def)
  have "str_len (text_prefix KetInvite) \<le> 600" "manual_text KetInvite = None"
    by (simp_all add: KetInvite_def INVITE_TEXT_PREFIX_def lit_def str_len_def utf8_width_def)
  then have "from_text p KetInvite shown (Some now) = Ok s"
    using text_round_trip [OF assms(1) _ _ binary shown] ket_profile.signed_invite_decodes [OF assms(1) s valid typed binary] by simp
  then show ?thesis using s shown signed(1) by (auto simp: encode_invite_text_def decode_invite_text_def)
qed

definition sample_capsule :: "rstr InviteCapsule" where
  "sample_capsule = \<lparr>node_public_key = replicate 32 1, locators = [LoopbackDevelopment LocalhostName 8080],
     capability = replicate 32 97, protocol_min = 1, protocol_max = 2, invite_expires_at = Some 10\<rparr>"

lemma sample_capsule_issued:
  "ket_capsule sample_primitives (signing_key_public sample_primitives []) [LoopbackDevelopment LocalhostName 8080]
     (replicate 32 97) (Some 10) = Ok sample_capsule"
  by (simp add: ket_capsule_Ok sample_capsule_def signing_key_public_def sample_primitives_def access_code_valid_def
      str_len_def utf8_width_def sum_list_replicate is_alnum_def is_lower_def list_all_length ACCESS_CODE_BYTES_def validate_locator_set_Ok
      MAX_LOCATORS_def accepts_def accepts_tag_def CLEARNET_def tag_defs CONTROL_API_VERSION_def SEALED_CONTROL_API_VERSION_def)

theorem issued_invite_opens_witness:
  "\<exists>s invite_text. invite_sign sample_primitives KetInvite sample_capsule [] = Ok s
    \<and> decode_invite_text sample_primitives invite_text (Some 5) = Ok s"
  using issued_invite_opens [OF sample_primitives_ok sample_capsule_issued, of 5] by auto



end
