(* ===== verification/Ip_Text.thy ===== *)
theory Ip_Text
  imports Net
begin

text \<open>
  Reading IP addresses from text as the standard library does
  (\<open>core::net::parser\<close>): dotted decimals without leading zeros, and IPv6 groups
  with one \<open>::\<close> and an embedded IPv4 address at the end.
\<close>

definition digit_value :: "nat \<Rightarrow> uchar \<Rightarrow> nat option" where
  "digit_value radix c = (let v = (if is_digit c then Some (c - 48) else if is_lower c then Some (c - 87)
     else if is_upper c then Some (c - 55) else None)
   in case v of None \<Rightarrow> None | Some n \<Rightarrow> if n < radix then Some n else None)"

definition number_of_digits :: "nat \<Rightarrow> rstr \<Rightarrow> nat" where
  "number_of_digits radix ds = foldl (\<lambda>n c. n * radix + (case digit_value radix c of None \<Rightarrow> 0 | Some d \<Rightarrow> d)) 0 ds"

text \<open>\<open>read_number\<close>: all the digits there are, refused when there are too many.\<close>

definition read_number :: "nat \<Rightarrow> nat \<Rightarrow> nat \<Rightarrow> bool \<Rightarrow> rstr \<Rightarrow> (nat \<times> rstr) option" where
  "read_number radix limit max_digits allow_zero_prefix s =
    (let ds = takeWhile (\<lambda>c. digit_value radix c \<noteq> None) s
     in if ds = [] \<or> length ds > max_digits \<or> number_of_digits radix ds > limit
           \<or> \<not> allow_zero_prefix \<and> hd ds = 48 \<and> length ds > 1
        then None else Some (number_of_digits radix ds, drop (length ds) s))"

definition read_separator :: "uchar \<Rightarrow> nat \<Rightarrow> (rstr \<Rightarrow> ('a \<times> rstr) option) \<Rightarrow> rstr \<Rightarrow> ('a \<times> rstr) option" where
  "read_separator c index inner s = (if index = 0 then inner s
     else (case s of [] \<Rightarrow> None | x # r \<Rightarrow> if x = c then inner r else None))"

fun read_octets :: "nat \<Rightarrow> nat \<Rightarrow> rstr \<Rightarrow> (nat list \<times> rstr) option" where
  "read_octets 0 index s = Some ([], s)"
| "read_octets (Suc k) index s = (case read_separator 46 index (read_number 10 255 3 False) s of None \<Rightarrow> None
     | Some (o1, r) \<Rightarrow> (case read_octets k (Suc index) r of None \<Rightarrow> None | Some (os, r) \<Rightarrow> Some (o1 # os, r)))"

definition read_ipv4 :: "rstr \<Rightarrow> (nat list \<times> rstr) option" where
  "read_ipv4 s = read_octets 4 0 s"

fun read_groups :: "nat \<Rightarrow> nat \<Rightarrow> rstr \<Rightarrow> nat list \<times> bool \<times> rstr" where
  "read_groups 0 index s = ([], False, s)"
| "read_groups (Suc k) index s =
    (case (if k \<ge> 1 then read_separator 58 index read_ipv4 s else None) of
       Some (os, r) \<Rightarrow> ([os ! 0 * 256 + os ! 1, os ! 2 * 256 + os ! 3], True, r)
     | None \<Rightarrow> (case read_separator 58 index (read_number 16 65535 4 True) s of
         None \<Rightarrow> ([], False, s)
       | Some (g, r) \<Rightarrow> (let (gs, v4, r) = read_groups k (Suc index) r in (g # gs, v4, r))))"

definition read_ipv6 :: "rstr \<Rightarrow> (nat list \<times> rstr) option" where
  "read_ipv6 s = (let (head, head_ipv4, r) = read_groups 8 0 s
     in if length head = 8 then Some (head, r)
        else if head_ipv4 then None
        else (case r of a # b # r \<Rightarrow>
            if a = 58 \<and> b = 58 then
              (let (tail, _, r) = read_groups (8 - (length head + 1)) 0 r
               in Some (head @ replicate (8 - length head - length tail) 0 @ tail, r))
            else None
          | _ \<Rightarrow> None))"

definition ipv4_from_octets :: "nat list \<Rightarrow> ipv4" where
  "ipv4_from_octets os = of_nat (foldl (\<lambda>n x. n * 256 + x) 0 os)"

definition ipv6_from_segments :: "nat list \<Rightarrow> ipv6" where
  "ipv6_from_segments gs = of_nat (foldl (\<lambda>n g. n * 65536 + g) 0 gs)"

definition parse_ipv6 :: "rstr \<Rightarrow> ipv6 option" where
  "parse_ipv6 s = (case read_ipv6 s of Some (gs, []) \<Rightarrow> Some (ipv6_from_segments gs) | _ \<Rightarrow> None)"

definition parse_ipv4 :: "rstr \<Rightarrow> ipv4 option" where
  "parse_ipv4 s = (case read_ipv4 s of Some (os, []) \<Rightarrow> Some (ipv4_from_octets os) | _ \<Rightarrow> None)"

definition parse_ip :: "rstr \<Rightarrow> IpAddr option" where
  "parse_ip s = (case read_ipv4 s of
       Some (os, r) \<Rightarrow> if r = [] then Some (V4 (ipv4_from_octets os)) else None
     | None \<Rightarrow> map_option V6 (parse_ipv6 s))"

end
