(* ===== verification/Share_Dial.thy ===== *)
theory Share_Dial
  imports Ip_Text
begin

text \<open>
  Where a nearby device may go through the share (crates/ket-share \<open>policy.rs\<close>,
  \<open>target.rs\<close>, \<open>egress.rs\<close>) and how the share dials it (\<open>dial\<close> of \<open>server.rs\<close>).
  The way out through the tunnel is a platform's implementation of the trait
  \<open>Egress\<close>, a record of functions here.
\<close>

type_synonym u16 = "16 word"

subsection \<open>Which addresses\<close>

record Ipv4Range =
  network :: ipv4
  range_length :: nat

definition range_contains :: "Ipv4Range \<Rightarrow> ipv4 \<Rightarrow> bool" where
  "range_contains net address =
    (let mask = (if range_length net = 0 then 0 else push_bit (32 - range_length net) (- 1 :: 32 word))
     in address AND mask = network net AND mask)"

definition range_of :: "nat \<Rightarrow> nat \<Rightarrow> nat \<Rightarrow> nat \<Rightarrow> nat \<Rightarrow> Ipv4Range" where
  "range_of a b c d l = \<lparr>network = ipv4_of a b c d, range_length = l\<rparr>"

definition RESERVED_IPV4 :: "Ipv4Range list" where
  "RESERVED_IPV4 =
    [range_of 0 0 0 0 8, range_of 10 0 0 0 8, range_of 100 64 0 0 10, range_of 127 0 0 0 8, range_of 169 254 0 0 16,
     range_of 172 16 0 0 12, range_of 192 0 0 0 24, range_of 192 0 2 0 24, range_of 192 168 0 0 16, range_of 198 18 0 0 15,
     range_of 198 51 100 0 24, range_of 203 0 113 0 24, range_of 224 0 0 0 4, range_of 240 0 0 0 4]"

datatype Origin = Requested | Resolved

definition public_ipv6 :: "ipv6 \<Rightarrow> bool" where
  "public_ipv6 a \<longleftrightarrow> ipv6_segment 0 a AND 0xe000 = 0x2000
     \<and> \<not> (ipv6_segment 0 a = 0x2001 \<and> ipv6_segment 1 a = 0x0db8) \<and> ipv6_segment 0 a \<noteq> 0x2002"

definition allowed_ipv4 :: "ipv4 \<Rightarrow> Origin \<Rightarrow> Ipv4Range option \<Rightarrow> bool" where
  "allowed_ipv4 a origin synthetic =
    (if origin = Resolved \<and> (case synthetic of None \<Rightarrow> False | Some net \<Rightarrow> range_contains net a) then True
     else \<not> list_ex (\<lambda>net. range_contains net a) RESERVED_IPV4)"

definition allowed :: "IpAddr \<Rightarrow> Origin \<Rightarrow> Ipv4Range option \<Rightarrow> bool" where
  "allowed address origin synthetic = (case address of
       V4 a \<Rightarrow> allowed_ipv4 a origin synthetic
     | V6 a \<Rightarrow> (case to_ipv4_mapped a of Some mapped \<Rightarrow> allowed_ipv4 mapped origin synthetic | None \<Rightarrow> public_ipv6 a))"

subsection \<open>What a device asks for\<close>

definition MAX_NAME_LENGTH :: nat where "MAX_NAME_LENGTH = 253"
definition MAX_LABEL_LENGTH :: nat where "MAX_LABEL_LENGTH = 63"

datatype Host = Name rstr | Address IpAddr

record Target =
  target_host :: Host
  target_port :: u16

datatype TargetError = InvalidTarget | LocalName

definition share_valid_label :: "rstr \<Rightarrow> bool" where
  "share_valid_label label \<longleftrightarrow> label \<noteq> [] \<and> str_len label \<le> MAX_LABEL_LENGTH \<and> hd label \<noteq> 45 \<and> last label \<noteq> 45
     \<and> list_all (\<lambda>c. is_alnum c \<or> c = 45 \<or> c = 95) label"

definition LOCAL_LABELS :: "rstr list" where
  "LOCAL_LABELS = map lit [''localhost'', ''local'', ''internal'', ''lan'', ''home'', ''arpa'']"

definition parse_name :: "rstr \<Rightarrow> TargetError + Host" where
  "parse_name s = (
     let name = ascii_lower (case strip_suffix s [46] of Some t \<Rightarrow> t | None \<Rightarrow> s)
     in if name = [] \<or> str_len name > MAX_NAME_LENGTH then Err InvalidTarget
        else let labels = split_on 46 name
        in if \<not> list_all share_valid_label labels then Err InvalidTarget
           else if length labels = 1 \<or> last labels \<in> set LOCAL_LABELS then Err LocalName
           else if list_all is_digit (last labels) then Err InvalidTarget
           else Ok (Name name))"

definition host_parse :: "rstr \<Rightarrow> TargetError + Host" where
  "host_parse s = (
     case (case strip_prefix s [91] of None \<Rightarrow> None | Some rest \<Rightarrow> strip_suffix rest [93]) of
       Some inner \<Rightarrow> (case parse_ipv6 inner of Some a \<Rightarrow> Ok (Address (V6 a)) | None \<Rightarrow> Err InvalidTarget)
     | None \<Rightarrow> (case parse_ip s of Some a \<Rightarrow> Ok (Address a) | None \<Rightarrow> parse_name s))"

subsection \<open>Dialling\<close>

datatype EgressError = NoTunnel | Unresolved | TimedOut | Refused | Unreachable

datatype io_error_kind = ConnectionRefusedKind | TimedOutKind | OtherKind

fun egress_from_connect :: "io_error_kind \<Rightarrow> EgressError" where
  "egress_from_connect ConnectionRefusedKind = Refused"
| "egress_from_connect TimedOutKind = TimedOut"
| "egress_from_connect OtherKind = Unreachable"

record 's Egress =
  resolve :: "rstr \<Rightarrow> EgressError + IpAddr list"
  connect :: "IpAddr \<times> u16 \<Rightarrow> EgressError + 's"
  synthetic_range :: "Ipv4Range option"

datatype DialFailure = DialNotAllowed | DialNoTunnel | DialUnresolved | DialTimedOut | DialRefused | DialUnreachable

fun dial_failure_from :: "EgressError \<Rightarrow> DialFailure" where
  "dial_failure_from NoTunnel = DialNoTunnel"
| "dial_failure_from Unresolved = DialUnresolved"
| "dial_failure_from TimedOut = DialTimedOut"
| "dial_failure_from Refused = DialRefused"
| "dial_failure_from Unreachable = DialUnreachable"

definition MAX_ADDRESSES_TRIED :: nat where "MAX_ADDRESSES_TRIED = 2"

text \<open>The loop over the addresses, with the connections it tries.\<close>

fun dial_each :: "'s Egress \<Rightarrow> u16 \<Rightarrow> DialFailure \<Rightarrow> IpAddr list \<Rightarrow> (IpAddr \<times> u16) list \<times> (DialFailure + 's)" where
  "dial_each egress port failure [] = ([], Err failure)"
| "dial_each egress port failure (a # as) = (case connect egress (a, port) of
     Ok stream \<Rightarrow> ([(a, port)], Ok stream)
   | Err NoTunnel \<Rightarrow> ([(a, port)], Err DialNoTunnel)
   | Err e \<Rightarrow> (let (tried, result) = dial_each egress port (dial_failure_from e) as in ((a, port) # tried, result)))"

definition dial_addresses :: "'s Egress \<Rightarrow> Host \<Rightarrow> EgressError + (IpAddr list \<times> Origin)" where
  "dial_addresses egress host = (case host of Address a \<Rightarrow> Ok ([a], Requested)
     | Name name \<Rightarrow> (case resolve egress name of Err e \<Rightarrow> Err e | Ok as \<Rightarrow> Ok (as, Resolved)))"

definition dial_attempt :: "'s Egress \<Rightarrow> Target \<Rightarrow> (IpAddr \<times> u16) list \<times> (DialFailure + 's)" where
  "dial_attempt egress target = (case dial_addresses egress (target_host target) of
       Err e \<Rightarrow> ([], Err (dial_failure_from e))
     | Ok (addresses, origin) \<Rightarrow>
       (let permitted = take MAX_ADDRESSES_TRIED (filter (\<lambda>a. allowed a origin (synthetic_range egress)) addresses)
        in if permitted = [] then ([], Err DialNotAllowed)
           else dial_each egress (target_port target) DialUnreachable permitted))"

text \<open>\<open>timeout\<close>: the attempt may be given up after any number of connections tried.\<close>

definition dial :: "nat option \<Rightarrow> 's Egress \<Rightarrow> Target \<Rightarrow> (IpAddr \<times> u16) list \<times> (DialFailure + 's)" where
  "dial given_up egress target = (case given_up of None \<Rightarrow> dial_attempt egress target
     | Some k \<Rightarrow> (take k (fst (dial_attempt egress target)), Err DialTimedOut))"

subsection \<open>Ranges in octets\<close>

lemma range_contains_div:
  assumes "0 < range_length net" "range_length net \<le> 32"
  shows "range_contains net a \<longleftrightarrow> unat a div 2 ^ (32 - range_length net) = unat (network net) div 2 ^ (32 - range_length net)"
proof -
  have "range_contains net a \<longleftrightarrow> drop_bit (32 - range_length net) a = drop_bit (32 - range_length net) (network net)"
    unfolding range_contains_def Let_def if_not_P [OF assms(1) [folded neq0_conv]] and_top_mask push_drop_eq ..
  then show ?thesis unfolding drop_bit_div .
qed

text \<open>The special-purpose networks, read off the octets of an address.\<close>

definition special_ipv4 :: "ipv4 \<Rightarrow> bool" where
  "special_ipv4 a = (let w = ipv4_octet 0 a; x = ipv4_octet 1 a; y = ipv4_octet 2 a in
     w = 0 \<or> w = 10 \<or> w = 100 \<and> 64 \<le> x \<and> x \<le> 127 \<or> w = 127 \<or> w = 169 \<and> x = 254 \<or> w = 172 \<and> 16 \<le> x \<and> x \<le> 31
     \<or> (w = 192 \<and> x = 0) \<and> y = 0 \<or> (w = 192 \<and> x = 0) \<and> y = 2 \<or> w = 192 \<and> x = 168 \<or> w = 198 \<and> (x = 18 \<or> x = 19)
     \<or> (w = 198 \<and> x = 51) \<and> y = 100 \<or> (w = 203 \<and> x = 0) \<and> y = 113 \<or> 224 \<le> w)"

lemma range_of_contains:
  assumes "0 < l" "l \<le> 32" "((a * 256 + b) * 256 + c) * 256 + d < 2 ^ 32"
  shows "range_contains (range_of a b c d l) x \<longleftrightarrow>
    unat x div 2 ^ (32 - l) = (((a * 256 + b) * 256 + c) * 256 + d) div 2 ^ (32 - l)"
proof -
  have "unat (ipv4_of a b c d) = ((a * 256 + b) * 256 + c) * 256 + d"
    unfolding ipv4_of_def using assms(3) by (simp only: unat_of_nat) (simp add: take_bit_nat_eq_self)
  then show ?thesis using assms(1,2) by (subst range_contains_div) (simp_all add: range_of_def)
qed

lemma octets_of:
  fixes a :: ipv4
  obtains w x y z where "unat a = ((w * 256 + x) * 256 + y) * 256 + z" "w < 256" "x < 256" "y < 256" "z < 256"
    "ipv4_octet 0 a = w" "ipv4_octet 1 a = x" "ipv4_octet 2 a = y"
proof -
  define n where "n = unat a"
  have n: "n < 4294967296" using unsigned_less [of a, where ?'a = nat] by (simp add: n_def)
  define m where "m = n div 256"
  define k where "k = m div 256"
  have m: "n = m * 256 + n mod 256" "m = k * 256 + m mod 256" "k = k div 256 * 256 + k mod 256"
    by (simp_all add: m_def k_def)
  have km: "k = n div 65536" "k div 256 = n div 16777216" by (simp_all add: k_def m_def div_mult2_eq [symmetric])
  have "k div 256 < 256" using n unfolding km by (simp add: less_mult_imp_div_less)
  moreover have "ipv4_octet 0 a = k div 256" "ipv4_octet 1 a = k mod 256" "ipv4_octet 2 a = m mod 256"
    using \<open>k div 256 < 256\<close> by (simp_all add: ipv4_octet_def n_def [symmetric] km [symmetric] m_def [symmetric])
  moreover have "unat a = ((k div 256 * 256 + k mod 256) * 256 + m mod 256) * 256 + n mod 256"
    using m unfolding n_def by presburger
  ultimately show ?thesis by (intro that [of "k div 256" "k mod 256" "m mod 256" "n mod 256"]) simp_all
qed

lemma octet_prefixes:
  assumes "n = ((w * 256 + x) * 256 + y) * 256 + (z :: nat)" "x < 256" "y < 256" "z < 256"
  shows "n div 2 ^ 8 = (w * 256 + x) * 256 + y" "n div 2 ^ 16 = w * 256 + x" "n div 2 ^ 24 = w" "n div 2 ^ 28 = w div 16"
    "n div 2 ^ 17 = (w * 256 + x) div 2" "n div 2 ^ 20 = (w * 256 + x) div 16" "n div 2 ^ 22 = (w * 256 + x) div 64"
proof -
  show d8: "n div 2 ^ 8 = (w * 256 + x) * 256 + y" using assms(1,4) by simp
  have "n div 2 ^ 16 = n div 2 ^ 8 div 256" by (simp add: div_mult2_eq [symmetric])
  then show d16: "n div 2 ^ 16 = w * 256 + x" unfolding d8 using assms(3) by simp
  have "n div 2 ^ 24 = n div 2 ^ 16 div 256" by (simp add: div_mult2_eq [symmetric])
  then show d24: "n div 2 ^ 24 = w" unfolding d16 using assms(2) by simp
  have "n div 2 ^ 28 = n div 2 ^ 24 div 16" by (simp add: div_mult2_eq [symmetric])
  then show "n div 2 ^ 28 = w div 16" unfolding d24 .
  have "n div 2 ^ 17 = n div 2 ^ 16 div 2" "n div 2 ^ 20 = n div 2 ^ 16 div 16" "n div 2 ^ 22 = n div 2 ^ 16 div 64"
    by (simp_all add: div_mult2_eq [symmetric])
  then show "n div 2 ^ 17 = (w * 256 + x) div 2" "n div 2 ^ 20 = (w * 256 + x) div 16" "n div 2 ^ 22 = (w * 256 + x) div 64"
    unfolding d16 .
qed

lemma digits_equal:
  assumes "q < k" "q' < (k :: nat)"
  shows "p * k + q = p' * k + q' \<longleftrightarrow> p = p' \<and> q = q'"
proof
  assume *: "p * k + q = p' * k + q'"
  have "(p * k + q) div k = p" "(p' * k + q') div k = p'" "(p * k + q) mod k = q" "(p' * k + q') mod k = q'"
    using assms by simp_all
  then show "p = p' \<and> q = q'" using * by simp
qed simp

lemma octet_pairs:
  assumes "w < 256" "x < (256 :: nat)"
  shows "(w * 256 + x) div 64 = 401 \<longleftrightarrow> w = 100 \<and> 64 \<le> x \<and> x \<le> 127" "w * 256 + x = 43518 \<longleftrightarrow> w = 169 \<and> x = 254"
    "(w * 256 + x) div 16 = 2753 \<longleftrightarrow> w = 172 \<and> 16 \<le> x \<and> x \<le> 31" "w * 256 + x = 49320 \<longleftrightarrow> w = 192 \<and> x = 168"
    "(w * 256 + x) div 2 = 25353 \<longleftrightarrow> w = 198 \<and> (x = 18 \<or> x = 19)" "w * 256 + x = 49152 \<longleftrightarrow> w = 192 \<and> x = 0"
    "w * 256 + x = 50739 \<longleftrightarrow> w = 198 \<and> x = 51" "w * 256 + x = 51968 \<longleftrightarrow> w = 203 \<and> x = 0"
    "w div 16 = 14 \<or> w div 16 = 15 \<longleftrightarrow> 224 \<le> w"
proof -
  have k: "(w * 256 + x) div 64 = w * 4 + x div 64" "(w * 256 + x) div 16 = w * 16 + x div 16" "(w * 256 + x) div 2 = w * 128 + x div 2"
    using div_mult_self2 [of 64 x "w * 4"] div_mult_self2 [of 16 x "w * 16"] div_mult_self2 [of 2 x "w * 128"]
    by (simp_all add: ac_simps)
  have "x div 64 < 4" "x div 16 < 16" "x div 2 < 128" using assms(2) by (simp_all add: less_mult_imp_div_less)
  then have "w * 4 + x div 64 = 100 * 4 + 1 \<longleftrightarrow> w = 100 \<and> x div 64 = 1" "w * 16 + x div 16 = 172 * 16 + 1 \<longleftrightarrow> w = 172 \<and> x div 16 = 1"
    "w * 128 + x div 2 = 198 * 128 + 9 \<longleftrightarrow> w = 198 \<and> x div 2 = 9"
    by (intro digits_equal; simp)+
  moreover have "x div 64 = 1 \<longleftrightarrow> 64 \<le> x \<and> x \<le> 127" "x div 16 = 1 \<longleftrightarrow> 16 \<le> x \<and> x \<le> 31" "x div 2 = 9 \<longleftrightarrow> x = 18 \<or> x = 19"
    by linarith+
  ultimately show "(w * 256 + x) div 64 = 401 \<longleftrightarrow> w = 100 \<and> 64 \<le> x \<and> x \<le> 127"
    "(w * 256 + x) div 16 = 2753 \<longleftrightarrow> w = 172 \<and> 16 \<le> x \<and> x \<le> 31"
    "(w * 256 + x) div 2 = 25353 \<longleftrightarrow> w = 198 \<and> (x = 18 \<or> x = 19)"
    unfolding k by simp_all
  show "w * 256 + x = 43518 \<longleftrightarrow> w = 169 \<and> x = 254" "w * 256 + x = 49320 \<longleftrightarrow> w = 192 \<and> x = 168"
    "w * 256 + x = 49152 \<longleftrightarrow> w = 192 \<and> x = 0" "w * 256 + x = 50739 \<longleftrightarrow> w = 198 \<and> x = 51"
    "w * 256 + x = 51968 \<longleftrightarrow> w = 203 \<and> x = 0"
    using assms(2) digits_equal [of x 256 254 w 169] digits_equal [of x 256 168 w 192] digits_equal [of x 256 0 w 192]
      digits_equal [of x 256 51 w 198] digits_equal [of x 256 0 w 203] by simp_all
  show "w div 16 = 14 \<or> w div 16 = 15 \<longleftrightarrow> 224 \<le> w" using assms(1) by linarith
qed

lemma reserved_is_special: "list_ex (\<lambda>net. range_contains net a) RESERVED_IPV4 \<longleftrightarrow> special_ipv4 a"
proof -
  obtain w x y z where n: "unat a = ((w * 256 + x) * 256 + y) * 256 + z" "w < 256" "x < 256" "y < 256" "z < 256"
    and oct: "ipv4_octet 0 a = w" "ipv4_octet 1 a = x" "ipv4_octet 2 a = y"
    by (rule octets_of)
  note d = octet_prefixes [OF n(1,3,4,5)]
  have r8: "range_contains (range_of c 0 0 0 8) a \<longleftrightarrow> w = c" if "c < 256" for c
    using that d(3) by (subst range_of_contains) (simp_all add: octet_prefixes(3) [of "c * 16777216" c 0 0 0])
  have r4: "range_contains (range_of 224 0 0 0 4) a \<longleftrightarrow> w div 16 = 14" "range_contains (range_of 240 0 0 0 4) a \<longleftrightarrow> w div 16 = 15"
    using d(4) by (simp_all add: range_of_contains)
  have r16: "range_contains (range_of 169 254 0 0 16) a \<longleftrightarrow> w * 256 + x = 43518"
    "range_contains (range_of 192 168 0 0 16) a \<longleftrightarrow> w * 256 + x = 49320"
    using d(2) by (simp_all add: range_of_contains)
  have rest: "range_contains (range_of 100 64 0 0 10) a \<longleftrightarrow> (w * 256 + x) div 64 = 401"
    "range_contains (range_of 172 16 0 0 12) a \<longleftrightarrow> (w * 256 + x) div 16 = 2753"
    "range_contains (range_of 198 18 0 0 15) a \<longleftrightarrow> (w * 256 + x) div 2 = 25353"
    using d(5-7) by (simp_all add: range_of_contains)
  have "range_contains (range_of p q c 0 24) a \<longleftrightarrow> (w * 256 + x) * 256 + y = (p * 256 + q) * 256 + c"
    if "p < 256" "q < 256" "c < 256" for p q c
    using that d(1) by (subst range_of_contains) (simp_all add: mult.commute)
  then have r24: "range_contains (range_of p q c 0 24) a \<longleftrightarrow> w * 256 + x = p * 256 + q \<and> y = c"
    if "p < 256" "q < 256" "c < 256" for p q c
    using that digits_equal [of y 256 c "w * 256 + x" "p * 256 + q"] n(4) by simp
  then have r24': "range_contains (range_of 192 0 0 0 24) a \<longleftrightarrow> (w = 192 \<and> x = 0) \<and> y = 0"
    "range_contains (range_of 192 0 2 0 24) a \<longleftrightarrow> (w = 192 \<and> x = 0) \<and> y = 2"
    "range_contains (range_of 198 51 100 0 24) a \<longleftrightarrow> (w = 198 \<and> x = 51) \<and> y = 100"
    "range_contains (range_of 203 0 113 0 24) a \<longleftrightarrow> (w = 203 \<and> x = 0) \<and> y = 113"
    using octet_pairs(6-8) [OF n(2,3)] by simp_all
  have r8': "range_contains (range_of 0 0 0 0 8) a \<longleftrightarrow> w = 0" "range_contains (range_of 10 0 0 0 8) a \<longleftrightarrow> w = 10"
    "range_contains (range_of 127 0 0 0 8) a \<longleftrightarrow> w = 127"
    by (simp_all add: r8)
  have high: "w div 16 = 14 \<or> w div 16 = 15 \<longleftrightarrow> 224 \<le> w" by (rule octet_pairs(9) [OF n(2,3)])
  show ?thesis
    unfolding RESERVED_IPV4_def special_ipv4_def oct Let_def list_ex_Cons_iff list_ex_Nil_iff r4 r16 rest octet_pairs(1-5) [OF n(2,3)] high r8'
      r24' simp_thms ..
qed

subsection \<open>Properties\<close>

text \<open>An address of the public Internet: no special-purpose IPv4 network, also when
  the IPv4 address is written as a mapped IPv6 one, and otherwise a global unicast
  IPv6 address that is neither for documentation nor 6to4.\<close>

definition public_address :: "IpAddr \<Rightarrow> bool" where
  "public_address address = (case address of V4 a \<Rightarrow> \<not> special_ipv4 a
     | V6 a \<Rightarrow> (case to_ipv4_mapped a of Some m \<Rightarrow> \<not> special_ipv4 m
         | None \<Rightarrow> 0x2000 \<le> ipv6_segment 0 a \<and> ipv6_segment 0 a < 0x4000 \<and> ipv6_segment 0 a \<noteq> 0x2002
             \<and> \<not> (ipv6_segment 0 a = 0x2001 \<and> ipv6_segment 1 a = 0x0db8)))"

definition stand_in :: "Ipv4Range option \<Rightarrow> IpAddr \<Rightarrow> bool" where
  "stand_in synthetic address = (case synthetic of None \<Rightarrow> False | Some net \<Rightarrow>
     (case address of V4 a \<Rightarrow> range_contains net a
      | V6 a \<Rightarrow> (case to_ipv4_mapped a of Some m \<Rightarrow> range_contains net m | None \<Rightarrow> False)))"

lemma segment_bound: "ipv6_segment i a < 65536"
  by (simp add: ipv6_segment_def)

lemma nat_and_top_three: "n < 65536 \<Longrightarrow> n AND 0xe000 = (n div 8192 * 8192 :: nat)"
proof -
  assume n: "n < 65536"
  have "(57344 :: nat) = push_bit 13 (mask 3)" by (simp add: mask_eq_exp_minus_1 push_bit_eq_mult)
  moreover have "n AND push_bit 13 (mask 3) = push_bit 13 (take_bit 3 (drop_bit 13 n))"
    by (rule bit_eqI) (auto simp: bit_simps)
  moreover have "take_bit 3 (drop_bit 13 n) = n div 8192"
    using n by (simp add: drop_bit_eq_div take_bit_nat_eq_self less_mult_imp_div_less)
  ultimately show ?thesis by (simp add: push_bit_eq_mult)
qed

lemma allowed_iff: "allowed address origin synthetic \<longleftrightarrow> public_address address \<or> origin = Resolved \<and> stand_in synthetic address"
proof -
  have v4: "allowed_ipv4 a origin synthetic \<longleftrightarrow> \<not> special_ipv4 a
      \<or> origin = Resolved \<and> (case synthetic of None \<Rightarrow> False | Some net \<Rightarrow> range_contains net a)" for a
    by (auto simp: allowed_ipv4_def reserved_is_special)
  have "public_ipv6 a \<longleftrightarrow> 0x2000 \<le> ipv6_segment 0 a \<and> ipv6_segment 0 a < 0x4000 \<and> ipv6_segment 0 a \<noteq> 0x2002
             \<and> \<not> (ipv6_segment 0 a = 0x2001 \<and> ipv6_segment 1 a = 0x0db8)" for a
  proof -
    have "ipv6_segment 0 a AND 0xe000 = 0x2000 \<longleftrightarrow> ipv6_segment 0 a div 8192 = 1"
      using nat_and_top_three [OF segment_bound, of 0 a] by simp
    also have "\<dots> \<longleftrightarrow> 0x2000 \<le> ipv6_segment 0 a \<and> ipv6_segment 0 a < 0x4000"
      by linarith
    finally show ?thesis by (auto simp: public_ipv6_def)
  qed
  then show ?thesis
    by (auto simp: allowed_def public_address_def stand_in_def v4 split: IpAddr.splits option.splits)
qed

lemma dial_each_tries:
  "dial_each egress port failure as = (tried, result) \<Longrightarrow>
     (\<exists>n. tried = map (\<lambda>a. (a, port)) (take n as)) \<and> (\<forall>s. result = Ok s \<longrightarrow> tried \<noteq> [] \<and> connect egress (last tried) = Ok s)"
proof (induction as arbitrary: failure tried)
  case (Cons a as)
  show ?case
  proof (cases "\<exists>e. connect egress (a, port) = Err e \<and> e \<noteq> NoTunnel")
    case True
    then obtain e where e: "connect egress (a, port) = Err e" "e \<noteq> NoTunnel" by blast
    obtain t where t: "dial_each egress port (dial_failure_from e) as = (t, result)" "tried = (a, port) # t"
      using Cons.prems e by (cases e) (auto split: prod.splits)
    obtain n where n: "t = map (\<lambda>a. (a, port)) (take n as)" using Cons.IH [OF t(1)] by blast
    have "tried = map (\<lambda>a. (a, port)) (take (Suc n) (a # as))" using t(2) n by simp
    then show ?thesis using Cons.IH [OF t(1)] t(2) by (auto intro: exI [of _ "Suc n"])
  next
    case False
    then have t: "tried = [(a, port)]" "\<forall>s. result = Ok s \<longrightarrow> connect egress (a, port) = Ok s"
      using Cons.prems by (auto split: sum.splits EgressError.splits)
    then have "tried = map (\<lambda>a. (a, port)) (take 1 (a # as))" by simp
    then show ?thesis using t(2) unfolding t(1) by (intro conjI exI [of _ 1]) simp_all
  qed
qed auto

lemma dial_addresses_origin:
  "dial_addresses egress host = Ok (as, origin) \<Longrightarrow> origin = Resolved \<Longrightarrow> \<exists>name. host = Name name"
  by (auto simp: dial_addresses_def split: Host.splits sum.splits)

lemma dial_attempt_tries:
  assumes "dial_attempt egress target = (tried, result)"
  shows "length tried \<le> MAX_ADDRESSES_TRIED \<and> (\<forall>(a, q) \<in> set tried. q = target_port target
      \<and> (public_address a \<or> (\<exists>name. target_host target = Name name) \<and> stand_in (synthetic_range egress) a))
      \<and> (\<forall>s. result = Ok s \<longrightarrow> (\<exists>b \<in> set tried. connect egress b = Ok s))"
proof (cases "\<exists>as origin. dial_addresses egress (target_host target) = Ok (as, origin)
    \<and> filter (\<lambda>a. allowed a origin (synthetic_range egress)) as \<noteq> []")
  case True
  then obtain as origin where src: "dial_addresses egress (target_host target) = Ok (as, origin)"
    and some: "filter (\<lambda>a. allowed a origin (synthetic_range egress)) as \<noteq> []"
    by blast
  define permitted where "permitted = take MAX_ADDRESSES_TRIED (filter (\<lambda>a. allowed a origin (synthetic_range egress)) as)"
  have run: "dial_each egress (target_port target) DialUnreachable permitted = (tried, result)"
    using assms src some by (simp add: dial_attempt_def permitted_def MAX_ADDRESSES_TRIED_def)
  obtain n where n: "tried = map (\<lambda>a. (a, target_port target)) (take n permitted)"
    and ok: "\<forall>s. result = Ok s \<longrightarrow> tried \<noteq> [] \<and> connect egress (last tried) = Ok s"
    using dial_each_tries [OF run] by blast
  have "allowed a origin (synthetic_range egress)" if "a \<in> set permitted" for a
    using that by (auto simp: permitted_def dest!: in_set_takeD)
  then have "public_address a \<or> (\<exists>name. target_host target = Name name) \<and> stand_in (synthetic_range egress) a"
    if "a \<in> set permitted" for a
    using that dial_addresses_origin [OF src] by (auto simp: allowed_iff)
  then have "\<forall>(a, q) \<in> set tried. q = target_port target
      \<and> (public_address a \<or> (\<exists>name. target_host target = Name name) \<and> stand_in (synthetic_range egress) a)"
    unfolding n by (auto dest: in_set_takeD)
  moreover have "length tried \<le> MAX_ADDRESSES_TRIED" unfolding n by (simp add: permitted_def)
  moreover have "\<forall>s. result = Ok s \<longrightarrow> (\<exists>b \<in> set tried. connect egress b = Ok s)" using ok last_in_set by blast
  ultimately show ?thesis by blast
next
  case False
  then have "tried = [] \<and> (\<forall>s. result \<noteq> Ok s)"
    using assms by (cases "dial_addresses egress (target_host target)") (auto simp: dial_attempt_def Let_def)
  then show ?thesis by simp
qed

text \<open>
  A nearby device reaches only the public Internet through the share. Whatever it
  asks for, whatever a name resolves to and however connecting fails or times out, the
  share opens at most two connections, to the port asked for, each to a public address
  or to a stand-in address that the tunnel's own resolver gave for a name; and what the
  device is connected to is one of them.
\<close>

theorem dial_reaches_only_public:
  assumes "dial given_up egress target = (tried, result)"
  shows "length tried \<le> MAX_ADDRESSES_TRIED \<and> (\<forall>(a, q) \<in> set tried. q = target_port target
      \<and> (public_address a \<or> (\<exists>name. target_host target = Name name) \<and> stand_in (synthetic_range egress) a))
      \<and> (\<forall>s. result = Ok s \<longrightarrow> (\<exists>b \<in> set tried. connect egress b = Ok s))"
proof -
  obtain t r where run: "dial_attempt egress target = (t, r)" by (cases "dial_attempt egress target")
  then show ?thesis
    using assms dial_attempt_tries [OF run] by (cases given_up) (auto simp: dial_def dest!: in_set_takeD)
qed

definition sample_egress :: "nat Egress" where
  "sample_egress = \<lparr>resolve = (\<lambda>name. Ok [V4 (ipv4_of 192 168 0 2), V4 (ipv4_of 198 18 0 7), V4 (ipv4_of 9 9 9 9)]),
     connect = (\<lambda>(a, q). if a = V4 (ipv4_of 9 9 9 9) then Ok 5 else Err Refused),
     synthetic_range = Some (range_of 198 18 0 0 15)\<rparr>"

theorem dial_reaches_only_public_witness:
  "dial None sample_egress \<lparr>target_host = Name (lit ''a.b''), target_port = 80\<rparr> =
     ([(V4 (ipv4_of 198 18 0 7), 80), (V4 (ipv4_of 9 9 9 9), 80)], Ok 5)
   \<and> (public_address (V4 (ipv4_of 9 9 9 9)) \<or> stand_in (Some (range_of 198 18 0 0 15)) (V4 (ipv4_of 9 9 9 9)))"
proof -
  have special: "special_ipv4 (ipv4_of 192 168 0 2)" "special_ipv4 (ipv4_of 198 18 0 7)" "\<not> special_ipv4 (ipv4_of 9 9 9 9)"
    by (simp_all add: special_ipv4_def ipv4_octet_def ipv4_of_def)
  have within: "range_contains (range_of 198 18 0 0 15) (ipv4_of 198 18 0 7)"
    "\<not> range_contains (range_of 198 18 0 0 15) (ipv4_of 192 168 0 2)"
    by (simp_all add: range_of_contains) (simp_all add: ipv4_of_def)
  have "ipv4_of 198 18 0 7 \<noteq> ipv4_of 9 9 9 9" by (simp add: ipv4_of_def)
  then have run: "dial None sample_egress \<lparr>target_host = Name (lit ''a.b''), target_port = 80\<rparr> =
     ([(V4 (ipv4_of 198 18 0 7), 80), (V4 (ipv4_of 9 9 9 9), 80)], Ok 5)"
    by (simp add: dial_def dial_attempt_def dial_addresses_def sample_egress_def allowed_iff public_address_def stand_in_def
        special within MAX_ADDRESSES_TRIED_def)
  then show ?thesis using dial_reaches_only_public [OF run] by (simp add: sample_egress_def)
qed

end
