(* ===== verification/Share_Dns.thy ===== *)
theory Share_Dns
  imports Cbor Share_Dial
begin

text \<open>
  The share's own name lookups (crates/ket-share \<open>dns.rs\<close>): the query it sends to
  the tunnel's resolver and how it reads what comes back.
\<close>

definition TRIES :: nat where "TRIES = 2"
definition DNS_HEADER :: nat where "DNS_HEADER = 12"
definition TYPE_A :: nat where "TYPE_A = 1"
definition CLASS_IN :: nat where "CLASS_IN = 1"

definition dns_labels :: "rstr \<Rightarrow> u8 list" where
  "dns_labels name = concat (map (\<lambda>label. of_nat (str_len label) # str_as_bytes label) (split_on 46 name))"

definition dns_query :: "u16 \<Rightarrow> rstr \<Rightarrow> u8 list" where
  "dns_query qid name = to_be_bytes 2 (unat qid) @ [0x01, 0x00, 0x00, 0x01, 0, 0, 0, 0, 0, 0] @ dns_labels name @ [0]
     @ to_be_bytes 2 TYPE_A @ to_be_bytes 2 CLASS_IN"

datatype DnsAnswer = Addresses "ipv4 list" | NotFound | Ignored

text \<open>\<open>slice.get(i..j)\<close>.\<close>

definition get_slice :: "nat \<Rightarrow> nat \<Rightarrow> 'a list \<Rightarrow> 'a list option" where
  "get_slice i j xs = (if i \<le> j \<and> j \<le> length xs then Some (take (j - i) (drop i xs)) else None)"

definition byte_lower :: "u8 \<Rightarrow> u8" where
  "byte_lower b = (if 65 \<le> b \<and> b \<le> 90 then b + 32 else b)"

text \<open>Labels to the root, or a compression pointer: the loop ends because each label
  moves the offset on, towards the end of the packet.\<close>

function skip_name :: "u8 list \<Rightarrow> nat \<Rightarrow> nat option" where
  "skip_name packet offset = (if offset < length packet then
      (let b = packet ! offset in
       if b = 0 then Some (offset + 1)
       else if b AND 0xc0 = 0xc0 then (if offset + 1 < length packet then Some (offset + 2) else None)
       else if b AND 0xc0 = 0 then skip_name packet (offset + (1 + unat b))
       else None)
     else None)"
  by pat_completeness auto

termination
  by (relation "measure (\<lambda>(packet, offset). length packet - offset)") auto

declare skip_name.simps [simp del]

fun read_records :: "u8 list \<Rightarrow> nat \<Rightarrow> nat \<Rightarrow> ipv4 list \<Rightarrow> ipv4 list option" where
  "read_records response 0 offset addresses = Some addresses"
| "read_records response (Suc n) offset addresses = (case skip_name response offset of None \<Rightarrow> None | Some offset \<Rightarrow>
     (case get_slice offset (offset + 10) response of None \<Rightarrow> None | Some fixed \<Rightarrow>
     (let kind = from_be_bytes [fixed ! 0, fixed ! 1];
          cls = from_be_bytes [fixed ! 2, fixed ! 3];
          len = from_be_bytes [fixed ! 8, fixed ! 9];
          offset = offset + 10
      in case get_slice offset (offset + len) response of None \<Rightarrow> None | Some record_data \<Rightarrow>
        read_records response n (offset + len)
          (if kind = TYPE_A \<and> cls = CLASS_IN \<and> len = 4 then addresses @ [of_nat (from_be_bytes record_data)] else addresses))))"

definition read_answer :: "u16 \<Rightarrow> rstr \<Rightarrow> u8 list \<Rightarrow> DnsAnswer option" where
  "read_answer qid name response = (case get_slice 0 DNS_HEADER response of None \<Rightarrow> None | Some header \<Rightarrow>
     if from_be_bytes [header ! 0, header ! 1] \<noteq> unat qid \<or> header ! 2 AND 0x80 = 0 then None
     else let questions = from_be_bytes [header ! 4, header ! 5];
              answers = from_be_bytes [header ! 6, header ! 7]
     in if questions \<noteq> 1 then None
     else let asked = drop DNS_HEADER (dns_query qid name)
     in (case get_slice DNS_HEADER (DNS_HEADER + length asked) response of None \<Rightarrow> None | Some question \<Rightarrow>
       if map byte_lower question \<noteq> map byte_lower asked then None
       else let code = header ! 3 AND 0x0f
       in if code = 3 then Some NotFound
          else if code \<noteq> 0 then None
          else (case read_records response answers (DNS_HEADER + length asked) [] of None \<Rightarrow> None
            | Some addresses \<Rightarrow> Some (if addresses = [] then NotFound else Addresses addresses))))"

definition dns_answer :: "u16 \<Rightarrow> rstr \<Rightarrow> u8 list \<Rightarrow> DnsAnswer" where
  "dns_answer qid name response = (case read_answer qid name response of None \<Rightarrow> Ignored | Some a \<Rightarrow> a)"

text \<open>
  One try: what the socket receives before the time for the try is over. The result is
  none when that time passes.
\<close>

fun lookup_try :: "u16 \<Rightarrow> rstr \<Rightarrow> u8 list option list \<Rightarrow> (EgressError + IpAddr list) option" where
  "lookup_try qid name [] = None"
| "lookup_try qid name (None # received) = Some (Err NoTunnel)"
| "lookup_try qid name (Some packet # received) = (case dns_answer qid name packet of
     Addresses addresses \<Rightarrow> Some (Ok (map V4 addresses))
   | NotFound \<Rightarrow> Some (Err Unresolved)
   | Ignored \<Rightarrow> lookup_try qid name received)"

text \<open>Each try: whether sending works, and what is then received.\<close>

fun lookup_tries :: "nat \<Rightarrow> u16 \<Rightarrow> rstr \<Rightarrow> (nat \<Rightarrow> bool \<times> u8 list option list) \<Rightarrow> nat \<Rightarrow> EgressError + IpAddr list" where
  "lookup_tries 0 qid name socket i = Err TimedOut"
| "lookup_tries (Suc n) qid name socket i = (if \<not> fst (socket i) then Err NoTunnel
     else (case lookup_try qid name (snd (socket i)) of Some result \<Rightarrow> result
       | None \<Rightarrow> lookup_tries n qid name socket (Suc i)))"

definition lookup :: "u16 \<Rightarrow> rstr \<Rightarrow> (nat \<Rightarrow> bool \<times> u8 list option list) \<Rightarrow> EgressError + IpAddr list" where
  "lookup qid name socket = lookup_tries TRIES qid name socket 0"

subsection \<open>Well-formed replies\<close>

text \<open>What a resolver sends for a name: the question again, then one A record per
  address, each naming the question by a compression pointer.\<close>

definition a_record :: "ipv4 \<Rightarrow> u8 list" where
  "a_record a = [0xc0, 12, 0, 1, 0, 1, 0, 0, 0, 60, 0, 4] @ to_be_bytes 4 (unat a)"

definition dns_reply :: "u16 \<Rightarrow> rstr \<Rightarrow> ipv4 list \<Rightarrow> u8 list" where
  "dns_reply qid name as = to_be_bytes 2 (unat qid) @ [0x81, 0x80, 0, 1] @ to_be_bytes 2 (length as) @ [0, 0, 0, 0]
     @ drop DNS_HEADER (dns_query qid name) @ concat (map a_record as)"

lemma skip_pointer:
  assumes "offset + 1 < length packet" "packet ! offset = 0xc0"
  shows "skip_name packet offset = Some (offset + 2)"
  using assms by (simp add: skip_name.simps)

lemma length_a_record [simp]: "length (a_record a) = 16"
  by (simp add: a_record_def)

lemma ipv4_bytes: "(of_nat (from_be_bytes (to_be_bytes 4 (unat a))) :: ipv4) = a"
proof -
  have "unat a < 256 ^ 4" using unsigned_less [of a, where ?'a = nat] by simp
  then show ?thesis by (simp only: from_to_be_bytes) simp
qed

lemma read_records_reply:
  "read_records (front @ concat (map a_record as)) (length as) (length front) addresses = Some (addresses @ as)"
proof (induction as arbitrary: front addresses)
  case (Cons a as)
  define response where "response = front @ concat (map a_record (a # as))"
  define o1 where "o1 = length front"
  have at: "response = front @ a_record a @ concat (map a_record as)" by (simp add: response_def)
  have len: "o1 + 16 \<le> length response" by (simp add: response_def o1_def)
  have nth: "response ! (o1 + i) = a_record a ! i" if "i < 16" for i
    using that unfolding at o1_def by (simp add: nth_append)
  have "response ! o1 = 0xc0" using nth [of 0] by (simp add: a_record_def)
  then have skip: "skip_name response o1 = Some (o1 + 2)" using len by (intro skip_pointer) simp_all
  have "get_slice (o1 + 2) (o1 + 2 + 10) response = Some (take 10 (drop 2 (a_record a)))"
    using len unfolding get_slice_def at o1_def by (simp add: take_drop)
  moreover have "take 10 (drop 2 (a_record a)) = [0, 1, 0, 1, 0, 0, 0, 60, 0, 4]"
    by (simp add: a_record_def)
  ultimately have fixed: "get_slice (o1 + 2) (o1 + 2 + 10) response = Some [0, 1, 0, 1, 0, 0, 0, 60, 0, 4]" by simp
  have payload: "get_slice (12 + o1) (16 + o1) response = Some (to_be_bytes 4 (unat a))"
    using len unfolding get_slice_def at o1_def by (simp add: a_record_def)
  have num: "from_be_bytes [0, 1] = 1" "from_be_bytes [0, 4] = 4" by (simp_all add: from_be_bytes_def)
  have "read_records response (length (a # as)) o1 addresses
      = read_records response (length as) (12 + o1 + 4) (addresses @ [a])"
    using skip fixed payload ipv4_bytes [of a] by (simp add: num TYPE_A_def CLASS_IN_def Let_def)
  also have "\<dots> = Some ((addresses @ [a]) @ as)"
    using Cons.IH [of "front @ a_record a" "addresses @ [a]"] by (simp add: response_def o1_def add.commute)
  finally show ?case by (simp add: response_def o1_def)
qed simp

lemma two_bytes: "length x = 2 \<Longrightarrow> from_be_bytes [x ! 0, x ! 1] = from_be_bytes x"
  by (cases x rule: list.exhaust; cases "tl x" rule: list.exhaust) auto

lemma be_bytes_16: "v < 65536 \<Longrightarrow> from_be_bytes [to_be_bytes 2 v ! 0, to_be_bytes 2 v ! 1] = v"
proof -
  have "from_be_bytes [to_be_bytes 2 v ! 0, to_be_bytes 2 v ! 1] = from_be_bytes (to_be_bytes 2 v)"
    by (rule two_bytes) simp
  then show "v < 65536 \<Longrightarrow> ?thesis" by (simp only:) (rule from_to_be_bytes, simp)
qed

lemma reply_header:
  assumes "length as < 65536"
  shows "\<exists>header. get_slice 0 DNS_HEADER (dns_reply qid name as) = Some header
    \<and> from_be_bytes [header ! 0, header ! 1] = unat qid \<and> header ! 2 = 0x81 \<and> header ! 3 = 0x80
    \<and> from_be_bytes [header ! 4, header ! 5] = 1 \<and> from_be_bytes [header ! 6, header ! 7] = length as"
proof -
  define h where "h = to_be_bytes 2 (unat qid) @ [0x81, 0x80, 0, 1] @ to_be_bytes 2 (length as) @ [0, 0, 0, 0]"
  have h: "length h = 12" by (simp add: h_def)
  have "dns_reply qid name as = h @ drop DNS_HEADER (dns_query qid name) @ concat (map a_record as)"
    by (simp add: dns_reply_def h_def)
  then have "get_slice 0 DNS_HEADER (dns_reply qid name as) = Some h"
    using h by (simp add: get_slice_def DNS_HEADER_def)
  moreover have "from_be_bytes [h ! 0, h ! 1] = unat qid"
    using be_bytes_16 [of "unat qid"] unsigned_less [of qid, where ?'a = nat] by (simp add: h_def nth_append)
  moreover have "from_be_bytes [h ! 6, h ! 7] = length as"
    using be_bytes_16 [OF assms] by (simp add: h_def nth_append)
  moreover have "h ! 2 = 0x81" "h ! 3 = 0x80" "from_be_bytes [h ! 4, h ! 5] = 1"
    by (simp_all add: h_def nth_append from_be_bytes_def)
  ultimately show ?thesis by blast
qed

subsection \<open>Properties\<close>



end
