(* ===== verification/Share_Front.thy ===== *)
theory Share_Front
  imports Share_Dns
begin

text \<open>
  The two front doors of the share (crates/ket-share \<open>credentials.rs\<close>, \<open>handshake.rs\<close>,
  \<open>socks5.rs\<close>, \<open>http.rs\<close>). What a device sends is the list of the bytes that arrive
  before its connection ends; whether each of the share's own writes works is an
  argument. Decoding standard Base64 is third-party code and an argument too.
\<close>

subsection \<open>Credentials\<close>

record Credentials =
  username :: rstr
  password :: rstr

definition credentials_match :: "Credentials \<Rightarrow> u8 list \<Rightarrow> u8 list \<Rightarrow> bool" where
  "credentials_match c user pass \<longleftrightarrow> str_as_bytes (username c) = user \<and> str_as_bytes (password c) = pass"

definition USERNAME :: rstr where "USERNAME = lit ''ket''"
definition PASSWORD_LENGTH :: nat where "PASSWORD_LENGTH = 12"
definition ALPHABET :: rstr where "ALPHABET = lit ''abcdefghjkmnpqrstuvwxyz23456789''"

text \<open>\<open>rng i\<close> is the \<open>i\<close>-th number drawn from \<open>0..31\<close>.\<close>

definition credentials_generate :: "(nat \<Rightarrow> nat) \<Rightarrow> Credentials" where
  "credentials_generate rng = \<lparr>username = USERNAME, password = map (\<lambda>i. ALPHABET ! rng i) [0..<PASSWORD_LENGTH]\<rparr>"

datatype Refusal = BadCredentials | NoCredentials | Malformed | Unsupported | RefusedTarget TargetError

subsection \<open>SOCKS5\<close>

definition SOCKS_VERSION :: u8 where "SOCKS_VERSION = 0x05"
definition PASSWORD_METHOD :: u8 where "PASSWORD_METHOD = 0x02"
definition NO_ACCEPTABLE_METHOD :: u8 where "NO_ACCEPTABLE_METHOD = 0xff"
definition PASSWORD_VERSION :: u8 where "PASSWORD_VERSION = 0x01"
definition SOCKS_CONNECT :: u8 where "SOCKS_CONNECT = 0x01"
definition SOCKS_IPV4 :: u8 where "SOCKS_IPV4 = 0x01"
definition SOCKS_NAME :: u8 where "SOCKS_NAME = 0x03"
definition SOCKS_IPV6 :: u8 where "SOCKS_IPV6 = 0x04"

datatype Reply = Succeeded | GeneralFailure | NotAllowed | NetworkUnreachable | HostUnreachable | ConnectionRefused
  | ReplyTimedOut | CommandNotSupported | AddressNotSupported

fun reply_code :: "Reply \<Rightarrow> u8" where
  "reply_code Succeeded = 0" | "reply_code GeneralFailure = 1" | "reply_code NotAllowed = 2"
| "reply_code NetworkUnreachable = 3" | "reply_code HostUnreachable = 4" | "reply_code ConnectionRefused = 5"
| "reply_code ReplyTimedOut = 6" | "reply_code CommandNotSupported = 7" | "reply_code AddressNotSupported = 8"

definition socks_reply :: "Reply \<Rightarrow> u8 list" where
  "socks_reply r = [SOCKS_VERSION, reply_code r, 0, SOCKS_IPV4, 0, 0, 0, 0, 0, 0]"

fun refusal_reply :: "TargetError \<Rightarrow> Reply" where
  "refusal_reply LocalName = NotAllowed"
| "refusal_reply InvalidTarget = GeneralFailure"

definition read_u8 :: "u8 list \<Rightarrow> Refusal + (u8 \<times> u8 list)" where
  "read_u8 s = (case s of [] \<Rightarrow> Err Malformed | b # r \<Rightarrow> Ok (b, r))"

definition read_exact :: "nat \<Rightarrow> u8 list \<Rightarrow> Refusal + (u8 list \<times> u8 list)" where
  "read_exact n s = (if n \<le> length s then Ok (take n s, drop n s) else Err Malformed)"

definition read_field :: "u8 list \<Rightarrow> Refusal + (u8 list \<times> u8 list)" where
  "read_field s = (case read_u8 s of Err e \<Rightarrow> Err e | Ok (len, s) \<Rightarrow>
     if len = 0 then Err Malformed else read_exact (unat len) s)"

text \<open>The share's answers so far, and how the step ended.\<close>

type_synonym 'a spoken = "u8 list list \<times> (Refusal + 'a)"

definition socks_methods :: "bool \<Rightarrow> u8 list \<Rightarrow> u8 list spoken" where
  "socks_methods write_ok s = (case read_u8 s of Err e \<Rightarrow> ([], Err e) | Ok (count, s) \<Rightarrow>
     (case read_exact (unat count) s of Err e \<Rightarrow> ([], Err e) | Ok (methods, s) \<Rightarrow>
     if PASSWORD_METHOD \<notin> set methods then ([[SOCKS_VERSION, NO_ACCEPTABLE_METHOD]], Err NoCredentials)
     else if \<not> write_ok then ([], Err Malformed)
     else ([[SOCKS_VERSION, PASSWORD_METHOD]], Ok s)))"

definition socks_sign_in :: "Credentials \<Rightarrow> bool \<Rightarrow> u8 list \<Rightarrow> u8 list spoken" where
  "socks_sign_in c write_ok s = (case read_u8 s of Err e \<Rightarrow> ([], Err e) | Ok (version, s) \<Rightarrow>
     if version \<noteq> PASSWORD_VERSION then ([], Err Malformed)
     else (case read_field s of Err e \<Rightarrow> ([], Err e) | Ok (user, s) \<Rightarrow>
     (case read_field s of Err e \<Rightarrow> ([], Err e) | Ok (pass, s) \<Rightarrow>
     if \<not> credentials_match c user pass then ([[PASSWORD_VERSION, 0x01]], Err BadCredentials)
     else if \<not> write_ok then ([], Err Malformed)
     else ([[PASSWORD_VERSION, 0x00]], Ok s))))"

definition socks_host :: "u8 \<Rightarrow> u8 list \<Rightarrow> (Host \<times> u8 list) spoken" where
  "socks_host kind s = (
     if kind = SOCKS_IPV4 then (case read_exact 4 s of Err e \<Rightarrow> ([], Err e)
       | Ok (octets, s) \<Rightarrow> ([], Ok (Address (V4 (of_nat (from_be_bytes octets))), s)))
     else if kind = SOCKS_IPV6 then (case read_exact 16 s of Err e \<Rightarrow> ([], Err e)
       | Ok (octets, s) \<Rightarrow> ([], Ok (Address (V6 (of_nat (from_be_bytes octets))), s)))
     else if kind = SOCKS_NAME then (case read_field s of Err e \<Rightarrow> ([], Err e) | Ok (name, s) \<Rightarrow>
       (case (case str_from_bytes name of None \<Rightarrow> Err InvalidTarget | Some t \<Rightarrow> host_parse t) of
          Ok host \<Rightarrow> ([], Ok (host, s))
        | Err e \<Rightarrow> ([socks_reply (refusal_reply e)], Err (RefusedTarget e))))
     else ([socks_reply AddressNotSupported], Err Unsupported))"

definition socks_request :: "u8 list \<Rightarrow> (Target \<times> u8 list) spoken" where
  "socks_request s = (case read_exact 4 s of Err e \<Rightarrow> ([], Err e) | Ok (header, s) \<Rightarrow>
     if header ! 0 \<noteq> SOCKS_VERSION \<or> header ! 2 \<noteq> 0 then ([], Err Malformed)
     else if header ! 1 \<noteq> SOCKS_CONNECT then ([socks_reply CommandNotSupported], Err Unsupported)
     else (case socks_host (header ! 3) s of (w, Err e) \<Rightarrow> (w, Err e) | (w, Ok (host, s)) \<Rightarrow>
     (case read_exact 2 s of Err e \<Rightarrow> (w, Err e) | Ok (port, s) \<Rightarrow>
       let port = of_nat (from_be_bytes port)
       in if port = 0 then (w @ [socks_reply GeneralFailure], Err (RefusedTarget InvalidTarget))
          else (w, Ok (\<lparr>target_host = host, target_port = port\<rparr>, s)))))"

definition negotiate :: "Credentials \<Rightarrow> (nat \<Rightarrow> bool) \<Rightarrow> u8 list \<Rightarrow> (Target \<times> u8 list) spoken" where
  "negotiate c write_ok s = (case socks_methods (write_ok 0) s of (w0, Err e) \<Rightarrow> (w0, Err e) | (w0, Ok s) \<Rightarrow>
     (case socks_sign_in c (write_ok 1) s of (w1, Err e) \<Rightarrow> (w0 @ w1, Err e) | (w1, Ok s) \<Rightarrow>
     (case socks_request s of (w2, result) \<Rightarrow> (w0 @ w1 @ w2, result))))"

subsection \<open>HTTP\<close>

definition MAX_HEAD :: nat where "MAX_HEAD = 16 * 1024"
definition CRLF :: rstr where "CRLF = [13, 10]"
definition END_OF_HEAD :: "u8 list" where "END_OF_HEAD = [13, 10, 13, 10]"
definition HOP_HEADERS :: "rstr list" where
  "HOP_HEADERS = map lit [''proxy-authorization'', ''proxy-connection'', ''connection'', ''keep-alive'']"

datatype Kind = Tunnel | Forward "u8 list"

record Request =
  request_target :: Target
  request_kind :: Kind
  authorization :: "(u8 list \<times> u8 list) option"

definition authorize :: "Request \<Rightarrow> Credentials \<Rightarrow> Refusal + unit" where
  "authorize r c = (case authorization r of None \<Rightarrow> Err NoCredentials
     | Some (user, pass) \<Rightarrow> if credentials_match c user pass then Ok () else Err BadCredentials)"

fun find_sub :: "'a list \<Rightarrow> 'a list \<Rightarrow> nat option" where
  "find_sub needle [] = (if needle = [] then Some 0 else None)"
| "find_sub needle (x # xs) = (if take (length needle) (x # xs) = needle then Some 0
     else map_option Suc (find_sub needle xs))"

text \<open>What each read of the stream gives; the list ends where a read fails or gives nothing.\<close>

fun read_head :: "u8 list list \<Rightarrow> u8 list \<Rightarrow> Refusal + (u8 list \<times> u8 list)" where
  "read_head chunks buffer = (case find_sub END_OF_HEAD buffer of
     Some e \<Rightarrow> Ok (take (e + length END_OF_HEAD) buffer, drop (e + length END_OF_HEAD) buffer)
   | None \<Rightarrow> if length buffer > MAX_HEAD then Err Malformed
       else (case chunks of [] \<Rightarrow> Err Malformed
         | chunk # rest \<Rightarrow> if chunk = [] then Err Malformed else read_head rest (buffer @ chunk)))"

declare read_head.simps [simp del]

text \<open>\<open>split("\r\n")\<close>.\<close>

fun split_crlf :: "rstr \<Rightarrow> rstr list" where
  "split_crlf [] = [[]]"
| "split_crlf [c] = [[c]]"
| "split_crlf (a # b # r) = (if a = 13 \<and> b = 10 then [] # split_crlf r
     else (case split_crlf (b # r) of [] \<Rightarrow> [[a]] | p # ps \<Rightarrow> (a # p) # ps))"

definition eq_ignore_case :: "rstr \<Rightarrow> rstr \<Rightarrow> bool" where
  "eq_ignore_case a b \<longleftrightarrow> ascii_lower a = ascii_lower b"

definition trim_blanks :: "rstr \<Rightarrow> rstr" where
  "trim_blanks s = (let blank = (\<lambda>c. c = 32 \<or> c = 9) in rev (dropWhile blank (rev (dropWhile blank s))))"

definition HEADER_CHARS :: rstr where "HEADER_CHARS = lit ''!#$%&'' @ [39] @ lit ''*+-.^_'' @ [96] @ lit ''|~''"

definition header_line :: "rstr \<Rightarrow> Refusal + (rstr \<times> rstr)" where
  "header_line line = (case split_once 58 line of None \<Rightarrow> Err Malformed | Some (name, v) \<Rightarrow>
     if name = [] \<or> \<not> list_all (\<lambda>c. is_alnum c \<or> c \<in> set HEADER_CHARS) name then Err Malformed
     else Ok (name, trim_blanks v))"

definition basic :: "(rstr \<Rightarrow> u8 list option) \<Rightarrow> rstr \<Rightarrow> Refusal + (u8 list \<times> u8 list)" where
  "basic b64 v = (case split_once 32 v of None \<Rightarrow> Err Malformed | Some (scheme, encoded) \<Rightarrow>
     if \<not> eq_ignore_case scheme (lit ''basic'') then Err Malformed
     else (case b64 (trim encoded) of None \<Rightarrow> Err Malformed | Some decoded \<Rightarrow>
       if 58 \<in> set decoded then Ok (takeWhile (\<lambda>b. b \<noteq> 58) decoded, tl (dropWhile (\<lambda>b. b \<noteq> 58) decoded))
       else Err Malformed))"

text \<open>\<open>text.rfind(':')\<close> as the split there.\<close>

definition rsplit_colon :: "rstr \<Rightarrow> (rstr \<times> rstr) option" where
  "rsplit_colon s = map_option (\<lambda>(a, b). (rev b, rev a)) (split_once 58 (rev s))"

definition authority_port :: "rstr \<Rightarrow> u16 option \<Rightarrow> Refusal + (rstr \<times> u16)" where
  "authority_port s default_port = (case rsplit_colon s of
       Some (host, digits) \<Rightarrow> if 93 \<in> set digits then (case default_port of None \<Rightarrow> Err Malformed | Some port \<Rightarrow> Ok (s, port))
         else if digits = [] \<or> \<not> list_all is_digit digits then Err Malformed
         else (case parse_uint 65535 digits of None \<Rightarrow> Err Malformed | Some n \<Rightarrow> Ok (host, of_nat n))
     | None \<Rightarrow> (case default_port of None \<Rightarrow> Err Malformed | Some port \<Rightarrow> Ok (s, port)))"

definition http_authority :: "rstr \<Rightarrow> u16 option \<Rightarrow> Refusal + Target" where
  "http_authority s default_port = (if 64 \<in> set s then Err Malformed
     else (case authority_port s default_port of Err e \<Rightarrow> Err e | Ok (host, port) \<Rightarrow>
       if port = 0 then Err (RefusedTarget InvalidTarget)
       else if 58 \<in> set host \<and> (case host of [] \<Rightarrow> True | c # _ \<Rightarrow> c \<noteq> 91) then Err Malformed
       else (case host_parse host of Err e \<Rightarrow> Err (RefusedTarget e)
         | Ok h \<Rightarrow> Ok \<lparr>target_host = h, target_port = port\<rparr>)))"

definition strip_prefix_ignore_case :: "rstr \<Rightarrow> rstr \<Rightarrow> rstr option" where
  "strip_prefix_ignore_case s pre = (if length pre \<le> length s \<and> eq_ignore_case (take (length pre) s) pre
     then Some (drop (length pre) s) else None)"

fun header_lines :: "rstr list \<Rightarrow> Refusal + (rstr \<times> rstr) list" where
  "header_lines [] = Ok []"
| "header_lines (line # lines) = (case header_line line of Err e \<Rightarrow> Err e | Ok h \<Rightarrow>
     (case header_lines lines of Err e \<Rightarrow> Err e | Ok hs \<Rightarrow> Ok (h # hs)))"

definition is_hop :: "rstr \<Rightarrow> bool" where
  "is_hop name \<longleftrightarrow> list_ex (eq_ignore_case name) HOP_HEADERS"

definition write_header :: "rstr \<times> rstr \<Rightarrow> rstr" where
  "write_header = (\<lambda>(name, v). name @ lit '': '' @ v @ CRLF)"

definition forwarded_head :: "rstr \<Rightarrow> rstr \<Rightarrow> rstr \<Rightarrow> rstr \<Rightarrow> (rstr \<times> rstr) list \<Rightarrow> rstr" where
  "forwarded_head method path version host_port headers =
    (let kept = filter (\<lambda>(name, v). \<not> is_hop name) headers
     in method @ [32] @ path @ [32] @ version @ CRLF @ concat (map write_header kept)
        @ (if list_ex (\<lambda>(name, v). eq_ignore_case name (lit ''host'')) kept then []
           else lit ''Host: '' @ host_port @ CRLF)
        @ lit ''Connection: close'' @ CRLF @ CRLF)"

definition forward_path :: "rstr \<Rightarrow> rstr" where
  "forward_path path = (case path of [] \<Rightarrow> lit ''/'' | c # _ \<Rightarrow> if c = 63 then 47 # path else path)"

definition parse_authorization :: "(rstr \<Rightarrow> u8 list option) \<Rightarrow> (rstr \<times> rstr) list \<Rightarrow> Refusal + (u8 list \<times> u8 list) option" where
  "parse_authorization b64 headers = (case find (\<lambda>(name, v). eq_ignore_case name (lit ''proxy-authorization'')) headers of
     None \<Rightarrow> Ok None | Some (_, v) \<Rightarrow> (case basic b64 v of Err e \<Rightarrow> Err e | Ok a \<Rightarrow> Ok (Some a)))"

definition request_of :: "rstr \<Rightarrow> rstr \<Rightarrow> rstr \<Rightarrow> (rstr \<times> rstr) list \<Rightarrow> (u8 list \<times> u8 list) option \<Rightarrow> Refusal + Request" where
  "request_of method uri version headers auth = (
     if method = lit ''CONNECT'' then (case http_authority uri None of Err e \<Rightarrow> Err e
       | Ok t \<Rightarrow> Ok \<lparr>request_target = t, request_kind = Tunnel, authorization = auth\<rparr>)
     else (case strip_prefix_ignore_case uri (lit ''http://'') of None \<Rightarrow> Err Unsupported | Some rest \<Rightarrow>
       let host_port = takeWhile (\<lambda>c. c \<noteq> 47 \<and> c \<noteq> 63) rest;
           path = dropWhile (\<lambda>c. c \<noteq> 47 \<and> c \<noteq> 63) rest
       in (case http_authority host_port (Some 80) of Err e \<Rightarrow> Err e | Ok t \<Rightarrow>
         Ok \<lparr>request_target = t,
             request_kind = Forward (str_as_bytes (forwarded_head method (forward_path path) version host_port headers)),
             authorization = auth\<rparr>)))"

definition parse_lines :: "(rstr \<Rightarrow> u8 list option) \<Rightarrow> rstr \<Rightarrow> rstr list \<Rightarrow> Refusal + Request" where
  "parse_lines b64 request_line lines = (case split_on 32 request_line of
       [method, uri, version] \<Rightarrow>
         if method = [] \<or> \<not> list_all is_upper method then Err Malformed
         else if version \<noteq> lit ''HTTP/1.1'' \<and> version \<noteq> lit ''HTTP/1.0'' then Err Malformed
         else (case header_lines lines of Err e \<Rightarrow> Err e | Ok headers \<Rightarrow>
           (case parse_authorization b64 headers of Err e \<Rightarrow> Err e | Ok auth \<Rightarrow>
             request_of method uri version headers auth))
     | _ \<Rightarrow> Err Malformed)"

definition parse_request :: "(rstr \<Rightarrow> u8 list option) \<Rightarrow> u8 list \<Rightarrow> Refusal + Request" where
  "parse_request b64 head = (case str_from_bytes head of None \<Rightarrow> Err Malformed | Some t \<Rightarrow>
     (case strip_suffix t (CRLF @ CRLF) of None \<Rightarrow> Err Malformed | Some t \<Rightarrow>
     (case split_crlf t of [] \<Rightarrow> Err Malformed | request_line # lines \<Rightarrow> parse_lines b64 request_line lines)))"

fun response_lines :: "rstr list \<Rightarrow> rstr option" where
  "response_lines [] = Some []"
| "response_lines (line # lines) = (case split_once 58 line of None \<Rightarrow> None | Some (name, _) \<Rightarrow>
     (case response_lines lines of None \<Rightarrow> None | Some rest \<Rightarrow>
       Some (if eq_ignore_case name (lit ''connection'') \<or> eq_ignore_case name (lit ''keep-alive'') then rest
         else line @ CRLF @ rest)))"

definition rewrite_response :: "u8 list \<Rightarrow> u8 list option" where
  "rewrite_response head = (case str_from_bytes head of None \<Rightarrow> None | Some t \<Rightarrow>
     (case strip_suffix t (CRLF @ CRLF) of None \<Rightarrow> None | Some t \<Rightarrow>
     (case split_crlf t of [] \<Rightarrow> None | status # lines \<Rightarrow>
       if strip_prefix status (lit ''HTTP/1.'') = None then None
       else (case response_lines lines of None \<Rightarrow> None
         | Some kept \<Rightarrow> Some (str_as_bytes (status @ CRLF @ kept @ lit ''Connection: close'' @ CRLF @ CRLF))))))"

datatype Status = Established | SignInRequired | BadRequest | NotForwarded | StatusNotAllowed | NotConnected | BadGateway
  | GatewayTimeout

fun status_parts :: "Status \<Rightarrow> nat \<times> rstr \<times> rstr" where
  "status_parts SignInRequired = (407, lit ''Proxy Authentication Required'',
     lit ''Sign in with the user name and password Ket shows.'' @ [10])"
| "status_parts BadRequest = (400, lit ''Bad Request'', lit ''Ket could not read this request.'' @ [10])"
| "status_parts NotForwarded = (400, lit ''Bad Request'',
     lit ''This is a Ket share. Set it as the proxy in your device'' @ [39] @
     lit ''s Wi-Fi or proxy settings instead of opening it here.'' @ [10])"
| "status_parts StatusNotAllowed = (403, lit ''Forbidden'', lit ''Ket shares the Internet, not this device or its network.'' @ [10])"
| "status_parts NotConnected = (503, lit ''Service Unavailable'', lit ''Ket is not connected right now. Try again in a moment.'' @ [10])"
| "status_parts BadGateway = (502, lit ''Bad Gateway'', lit ''The site could not be reached through Ket.'' @ [10])"
| "status_parts GatewayTimeout = (504, lit ''Gateway Timeout'', lit ''The site did not answer in time.'' @ [10])"
| "status_parts Established = (200, lit ''Connection established'', [])"

definition http_response :: "Status \<Rightarrow> u8 list" where
  "http_response status = str_as_bytes (
     if status = Established then lit ''HTTP/1.1 200 Connection established'' @ CRLF @ CRLF
     else let (code, reason, body) = status_parts status;
              challenge = (if status = SignInRequired
                then lit ''Proxy-Authenticate: Basic realm='' @ [34] @ lit ''Ket'' @ [34] @ lit '', charset='' @ [34] @ lit ''UTF-8'' @ [34] @ CRLF
                else [])
          in lit ''HTTP/1.1 '' @ decimal code @ [32] @ reason @ CRLF @ challenge
             @ lit ''Content-Type: text/plain; charset=utf-8'' @ CRLF @ lit ''Content-Length: '' @ decimal (str_len body) @ CRLF
             @ lit ''Connection: close'' @ CRLF @ CRLF @ body)"

subsection \<open>Reading the handshake\<close>

lemma read_u8_Ok: "read_u8 s = Ok (b, r) \<longleftrightarrow> s = b # r"
  by (cases s) (auto simp: read_u8_def)

lemma read_exact_Ok: "read_exact n s = Ok (bs, r) \<longleftrightarrow> s = bs @ r \<and> length bs = n"
  by (auto simp: read_exact_def)

definition field :: "u8 list \<Rightarrow> u8 list" where
  "field bs = of_nat (length bs) # bs"

lemma read_field_Ok: "read_field s = Ok (bs, r) \<longleftrightarrow> s = field bs @ r \<and> bs \<noteq> [] \<and> length bs < 256"
proof
  assume "read_field s = Ok (bs, r)"
  then obtain b where b: "s = b # bs @ r" "b \<noteq> 0" "length bs = unat b"
    by (auto simp: read_field_def read_u8_Ok read_exact_Ok split: if_splits)
  then have "of_nat (length bs) = b" "length bs < 256" using unat_u8_bound [of b] by simp_all
  then show "s = field bs @ r \<and> bs \<noteq> [] \<and> length bs < 256" using b by (auto simp: field_def unat_eq_0)
next
  assume *: "s = field bs @ r \<and> bs \<noteq> [] \<and> length bs < 256"
  then have "unat (of_nat (length bs) :: u8) = length bs" by (simp add: unat_of_nat take_bit_nat_eq_self)
  moreover from this have "(of_nat (length bs) :: u8) \<noteq> 0" using * by (metis length_0_conv unsigned_0)
  ultimately have "read_u8 s = Ok (of_nat (length bs), bs @ r)" "read_exact (unat (of_nat (length bs) :: u8)) (bs @ r) = Ok (bs, r)"
    using * by (simp_all add: read_u8_Ok read_exact_Ok field_def)
  then show "read_field s = Ok (bs, r)" using \<open>(of_nat (length bs) :: u8) \<noteq> 0\<close> by (simp add: read_field_def)
qed

definition fits_field :: "rstr \<Rightarrow> bool" where
  "fits_field s \<longleftrightarrow> s \<noteq> [] \<and> str_len s < 256"

definition sign_in_message :: "Credentials \<Rightarrow> u8 list" where
  "sign_in_message c = PASSWORD_VERSION # field (str_as_bytes (username c)) @ field (str_as_bytes (password c))"

lemma fits_field_bytes: "str_as_bytes s \<noteq> [] \<and> length (str_as_bytes s) < 256 \<longleftrightarrow> fits_field s"
proof -
  have "str_as_bytes s = [] \<longleftrightarrow> s = []"
    using length_str_as_bytes [of s] length_le_str_len [of s] by (metis length_0_conv le_zero_eq str_len_def list.map(1) sum_list.Nil)
  then show ?thesis by (simp add: fits_field_def)
qed

lemma socks_methods_Ok:
  "socks_methods ok s = (w, Ok r) \<longleftrightarrow> ok \<and> w = [[SOCKS_VERSION, PASSWORD_METHOD]]
     \<and> (\<exists>methods. s = field methods @ r \<and> length methods < 256 \<and> PASSWORD_METHOD \<in> set methods)"
proof
  assume "socks_methods ok s = (w, Ok r)"
  then obtain b methods where "s = b # methods @ r" "length methods = unat b" "ok" "w = [[SOCKS_VERSION, PASSWORD_METHOD]]"
    "PASSWORD_METHOD \<in> set methods"
    by (auto simp: socks_methods_def read_u8_Ok read_exact_Ok split: if_splits sum.splits)
  then show "ok \<and> w = [[SOCKS_VERSION, PASSWORD_METHOD]]
     \<and> (\<exists>methods. s = field methods @ r \<and> length methods < 256 \<and> PASSWORD_METHOD \<in> set methods)"
    using unat_u8_bound [of b] by (auto simp: field_def)
next
  assume "ok \<and> w = [[SOCKS_VERSION, PASSWORD_METHOD]]
     \<and> (\<exists>methods. s = field methods @ r \<and> length methods < 256 \<and> PASSWORD_METHOD \<in> set methods)"
  then obtain methods where *: "ok" "w = [[SOCKS_VERSION, PASSWORD_METHOD]]" "s = field methods @ r" "length methods < 256"
    "PASSWORD_METHOD \<in> set methods" by blast
  then have "read_u8 s = Ok (of_nat (length methods), methods @ r)"
    "read_exact (unat (of_nat (length methods) :: u8)) (methods @ r) = Ok (methods, r)"
    by (simp_all add: read_u8_Ok read_exact_Ok field_def unat_of_nat take_bit_nat_eq_self)
  then show "socks_methods ok s = (w, Ok r)" using * by (simp add: socks_methods_def)
qed

lemma socks_sign_in_Ok:
  "socks_sign_in c ok s = (w, Ok r) \<longleftrightarrow> ok \<and> w = [[PASSWORD_VERSION, 0]] \<and> s = sign_in_message c @ r
     \<and> fits_field (username c) \<and> fits_field (password c)"
proof
  assume "socks_sign_in c ok s = (w, Ok r)"
  then show "ok \<and> w = [[PASSWORD_VERSION, 0]] \<and> s = sign_in_message c @ r \<and> fits_field (username c) \<and> fits_field (password c)"
    by (auto simp: socks_sign_in_def read_u8_Ok read_field_Ok credentials_match_def sign_in_message_def
        simp flip: fits_field_bytes split: if_splits sum.splits)
next
  assume *: "ok \<and> w = [[PASSWORD_VERSION, 0]] \<and> s = sign_in_message c @ r \<and> fits_field (username c) \<and> fits_field (password c)"
  then have "read_u8 s = Ok (PASSWORD_VERSION, field (str_as_bytes (username c)) @ field (str_as_bytes (password c)) @ r)"
    by (simp add: read_u8_Ok sign_in_message_def)
  moreover have "read_field (field (str_as_bytes (username c)) @ q) = Ok (str_as_bytes (username c), q)" for q
    using * fits_field_bytes by (simp add: read_field_Ok)
  moreover have "read_field (field (str_as_bytes (password c)) @ q) = Ok (str_as_bytes (password c), q)" for q
    using * fits_field_bytes by (simp add: read_field_Ok)
  ultimately show "socks_sign_in c ok s = (w, Ok r)" using * by (simp add: socks_sign_in_def credentials_match_def)
qed

text \<open>
  C39: a device gets through the SOCKS front door exactly by signing in. A handshake
  yields a target if and only if the device offered the password method, then sent the
  share's user name and password, then a request; until then the share has only
  answered that it takes a password and that the sign-in worked.
\<close>

theorem socks_lets_in_exactly:
  "negotiate c write_ok s = (w, Ok (target, r)) \<longleftrightarrow>
     (\<exists>methods request w'. PASSWORD_METHOD \<in> set methods \<and> length methods < 256
        \<and> s = field methods @ sign_in_message c @ request
        \<and> fits_field (username c) \<and> fits_field (password c) \<and> write_ok 0 \<and> write_ok 1
        \<and> socks_request request = (w', Ok (target, r))
        \<and> w = [SOCKS_VERSION, PASSWORD_METHOD] # [PASSWORD_VERSION, 0] # w')"
proof
  assume "negotiate c write_ok s = (w, Ok (target, r))"
  then obtain w0 s0 w1 request w' where "socks_methods (write_ok 0) s = (w0, Ok s0)"
    "socks_sign_in c (write_ok 1) s0 = (w1, Ok request)" "socks_request request = (w', Ok (target, r))" "w = w0 @ w1 @ w'"
    by (auto simp: negotiate_def split: prod.splits sum.splits)
  then show "\<exists>methods request w'. PASSWORD_METHOD \<in> set methods \<and> length methods < 256
        \<and> s = field methods @ sign_in_message c @ request
        \<and> fits_field (username c) \<and> fits_field (password c) \<and> write_ok 0 \<and> write_ok 1
        \<and> socks_request request = (w', Ok (target, r))
        \<and> w = [SOCKS_VERSION, PASSWORD_METHOD] # [PASSWORD_VERSION, 0] # w'"
    by (auto simp: socks_methods_Ok socks_sign_in_Ok)
next
  assume "\<exists>methods request w'. PASSWORD_METHOD \<in> set methods \<and> length methods < 256
        \<and> s = field methods @ sign_in_message c @ request
        \<and> fits_field (username c) \<and> fits_field (password c) \<and> write_ok 0 \<and> write_ok 1
        \<and> socks_request request = (w', Ok (target, r))
        \<and> w = [SOCKS_VERSION, PASSWORD_METHOD] # [PASSWORD_VERSION, 0] # w'"
  then obtain methods request w' where *: "PASSWORD_METHOD \<in> set methods" "length methods < 256"
      "s = field methods @ sign_in_message c @ request" "fits_field (username c)" "fits_field (password c)" "write_ok 0" "write_ok 1"
      "socks_request request = (w', Ok (target, r))" "w = [SOCKS_VERSION, PASSWORD_METHOD] # [PASSWORD_VERSION, 0] # w'"
    by blast
  then have "socks_methods (write_ok 0) s = ([[SOCKS_VERSION, PASSWORD_METHOD]], Ok (sign_in_message c @ request))"
    "socks_sign_in c (write_ok 1) (sign_in_message c @ request) = ([[PASSWORD_VERSION, 0]], Ok request)"
    by (auto simp: socks_methods_Ok socks_sign_in_Ok)
  then show "negotiate c write_ok s = (w, Ok (target, r))" using * by (simp add: negotiate_def)
qed

subsection \<open>Lines\<close>

fun crlf_free :: "rstr \<Rightarrow> bool" where
  "crlf_free (a # b # r) = (\<not> (a = 13 \<and> b = 10) \<and> crlf_free (b # r))"
| "crlf_free _ = True"

lemma crlf_free_append:
  "crlf_free (s @ t) \<longleftrightarrow> crlf_free s \<and> crlf_free t \<and> \<not> (s \<noteq> [] \<and> t \<noteq> [] \<and> last s = 13 \<and> hd t = 10)"
  by (induction s rule: crlf_free.induct; cases t) auto

lemma crlf_free_Cons: "crlf_free (c # s) \<longleftrightarrow> crlf_free s \<and> \<not> (c = 13 \<and> s \<noteq> [] \<and> hd s = 10)"
  by (cases s) auto

lemmas crlf_free_simps = crlf_free_append crlf_free_Cons

lemma split_crlf_nonempty [simp]: "split_crlf s \<noteq> []"
  by (cases s rule: split_crlf.cases) (auto split: list.splits)

lemma split_crlf_parts: "split_crlf s = p # ps \<Longrightarrow> (s \<noteq> [] \<longrightarrow> p = [] \<or> hd p = hd s) \<and> crlf_free p \<and> list_all crlf_free ps"
proof (induction s arbitrary: p ps rule: split_crlf.induct)
  case (3 a b r)
  show ?case
  proof (cases "a = 13 \<and> b = 10")
    case True
    obtain q qs where q: "split_crlf r = q # qs" by (cases "split_crlf r") auto
    then have "list_all crlf_free (split_crlf r)" using 3(1) [OF True q] by (simp add: q)
    then show ?thesis using True 3(3) by auto
  next
    case False
    show ?thesis
    proof (cases "split_crlf (b # r)")
      case Nil
      then show ?thesis using False 3 by auto
    next
      case (Cons q qs)
      then show ?thesis using False 3 by (cases q) auto
    qed
  qed
qed auto

lemma split_crlf_line: "crlf_free l \<Longrightarrow> split_crlf (l @ CRLF @ r) = l # split_crlf r"
  by (induction l rule: crlf_free.induct) (auto simp: CRLF_def)

lemma split_crlf_lines:
  "list_all crlf_free ls \<Longrightarrow> split_crlf (concat (map (\<lambda>l. l @ CRLF) ls) @ CRLF) = ls @ [[], []]"
proof (induction ls)
  case (Cons l ls)
  then show ?case using split_crlf_line [of l "concat (map (\<lambda>l. l @ CRLF) ls) @ CRLF"] by simp
qed (simp add: CRLF_def)

lemma crlf_free_infix: "crlf_free (x @ y @ z) \<Longrightarrow> crlf_free y"
  by (simp add: crlf_free_append)

lemma trim_blanks_infix: "\<exists>x z. s = x @ trim_blanks s @ z"
proof -
  define d where "d = dropWhile (\<lambda>c. c = 32 \<or> c = 9) s"
  have s: "s = takeWhile (\<lambda>c. c = 32 \<or> c = 9) s @ d" by (simp add: d_def)
  have "rev d = takeWhile (\<lambda>c. c = 32 \<or> c = 9) (rev d) @ dropWhile (\<lambda>c. c = 32 \<or> c = 9) (rev d)" by simp
  then have "d = rev (dropWhile (\<lambda>c. c = 32 \<or> c = 9) (rev d)) @ rev (takeWhile (\<lambda>c. c = 32 \<or> c = 9) (rev d))"
    by (metis rev_append rev_rev_ident)
  then have "d = trim_blanks s @ rev (takeWhile (\<lambda>c. c = 32 \<or> c = 9) (rev d))" by (simp add: trim_blanks_def Let_def d_def)
  then show ?thesis using s by metis
qed

lemma header_line_Ok:
  assumes "header_line l = Ok (name, v)" "crlf_free l"
  shows "crlf_free (name @ lit '': '' @ v)" "58 \<notin> set name"
proof -
  obtain raw where l: "l = name @ 58 # raw" "58 \<notin> set name" "v = trim_blanks raw"
    using assms(1) by (auto simp: header_line_def split_once_Some split: option.splits if_splits)
  obtain x z where "raw = x @ v @ z" using trim_blanks_infix [of raw] l(3) by blast
  then have "l = (name @ 58 # x) @ v @ z" using l(1) by simp
  then have "crlf_free v" using assms(2) crlf_free_infix by blast
  moreover have "crlf_free name" using assms(2) l(1) by (simp add: crlf_free_append)
  ultimately show "crlf_free (name @ lit '': '' @ v)" by (cases v) (simp_all add: crlf_free_append lit_def)
  show "58 \<notin> set name" by (rule l(2))
qed

lemma header_lines_Ok:
  "header_lines ls = Ok hs \<Longrightarrow> list_all crlf_free ls
   \<Longrightarrow> list_all (\<lambda>(name, v). crlf_free (name @ lit '': '' @ v) \<and> 58 \<notin> set name) hs"
  by (induction ls arbitrary: hs) (auto dest: header_line_Ok split: sum.splits)

text \<open>The lines of a forwarded head: the request, the kept headers, a host and the close.\<close>

definition forwarded_lines :: "rstr \<Rightarrow> rstr \<Rightarrow> (rstr \<times> rstr) list \<Rightarrow> rstr list" where
  "forwarded_lines first host_port headers =
    (let kept = filter (\<lambda>(name, v). \<not> is_hop name) headers
     in first # map (\<lambda>(name, v). name @ lit '': '' @ v) kept
        @ (if list_ex (\<lambda>(name, v). eq_ignore_case name (lit ''host'')) kept then [] else [lit ''Host: '' @ host_port])
        @ [lit ''Connection: close''])"

lemma forwarded_head_lines:
  "forwarded_head method path version host_port headers =
     concat (map (\<lambda>l. l @ CRLF) (forwarded_lines (method @ [32] @ path @ [32] @ version) host_port headers)) @ CRLF"
proof -
  have "concat (map write_header hs) = concat (map (\<lambda>l. l @ CRLF) (map (\<lambda>(name, v). name @ lit '': '' @ v) hs))" for hs
    by (induction hs) (auto simp: write_header_def)
  then show ?thesis by (simp add: forwarded_head_def forwarded_lines_def Let_def)
qed

lemma host_not_hop: "\<not> is_hop (lit ''Host'')"
  by (simp add: is_hop_def HOP_HEADERS_def eq_ignore_case_def ascii_lower_def lit_def is_upper_def)

lemma three_parts: "split_on 32 l = [a, b, c] \<Longrightarrow> l = a @ [32] @ b @ [32] @ c"
  using join_split_on [of 32 l] by simp

text \<open>What \<open>parse_request\<close> took apart, for a request that is forwarded.\<close>

lemma parse_request_forward:
  assumes "parse_request b64 head = Ok r" "request_kind r = Forward out"
  obtains verb uri version ls hs rest where "crlf_free (verb @ [32] @ uri @ [32] @ version)" "list_all crlf_free ls"
    "header_lines ls = Ok hs" "strip_prefix_ignore_case uri (lit ''http://'') = Some rest"
    "out = str_as_bytes (forwarded_head verb (forward_path (dropWhile (\<lambda>c. c \<noteq> 47 \<and> c \<noteq> 63) rest)) version
        (takeWhile (\<lambda>c. c \<noteq> 47 \<and> c \<noteq> 63) rest) hs)"
proof -
  obtain u where "(case split_crlf u of [] \<Rightarrow> Err Malformed | l # ls \<Rightarrow> parse_lines b64 l ls) = Ok r"
    using assms(1) by (auto simp: parse_request_def split: option.splits)
  then obtain line ls where u: "split_crlf u = line # ls" "parse_lines b64 line ls = Ok r" by (cases "split_crlf u") auto
  obtain verb uri version where line: "split_on 32 line = [verb, uri, version]"
    using u(2) by (auto simp: parse_lines_def split: list.splits)
  obtain hs auth where t: "split_crlf u = line # ls" "split_on 32 line = [verb, uri, version]"
    "header_lines ls = Ok hs" "request_of verb uri version hs auth = Ok r"
    using u line by (auto simp: parse_lines_def split: if_splits sum.splits)
  have "crlf_free line" "list_all crlf_free ls" using split_crlf_parts [OF t(1)] by simp_all
  moreover have "line = verb @ [32] @ uri @ [32] @ version" by (rule three_parts [OF t(2)])
  moreover obtain rest where "strip_prefix_ignore_case uri (lit ''http://'') = Some rest"
    "out = str_as_bytes (forwarded_head verb (forward_path (dropWhile (\<lambda>c. c \<noteq> 47 \<and> c \<noteq> 63) rest)) version
        (takeWhile (\<lambda>c. c \<noteq> 47 \<and> c \<noteq> 63) rest) hs)"
    using t(4) assms(2) by (auto simp: request_of_def Let_def split: if_splits option.splits sum.splits)
  ultimately show ?thesis using that t(3) by blast
qed

lemma http_uri_rest:
  assumes "strip_prefix_ignore_case uri pre = Some rest" "crlf_free uri"
  shows "crlf_free (takeWhile P rest)" "crlf_free (dropWhile P rest)"
proof -
  have "uri = take (length pre) uri @ rest" using assms(1) by (auto simp: strip_prefix_ignore_case_def split: if_splits)
  then have "crlf_free rest" using assms(2) crlf_free_append by metis
  moreover have "rest = takeWhile P rest @ dropWhile P rest" by simp
  ultimately show "crlf_free (takeWhile P rest)" "crlf_free (dropWhile P rest)" using crlf_free_append by metis+
qed

lemma forwarded_first_free:
  assumes "crlf_free (verb @ [32] @ uri @ [32] @ version)" "crlf_free path"
  shows "crlf_free (verb @ [32] @ forward_path path @ [32] @ version)"
proof -
  have "crlf_free verb" "crlf_free version" using assms(1) by (simp_all add: crlf_free_simps)
  moreover have "crlf_free (forward_path path)"
    using assms(2) by (cases path) (auto simp: forward_path_def lit_def)
  ultimately show ?thesis by (auto simp: crlf_free_simps)
qed

text \<open>
  A plain request is forwarded without anything meant for the share. The head the
  site receives consists of the request line, headers none of which is a hop-by-hop
  one (so never the share's password), a host, and \<open>Connection: close\<close>, and reading it
  line by line gives exactly these.
\<close>

theorem http_forward_is_clean:
  assumes "parse_request b64 head = Ok r" "request_kind r = Forward out"
  shows "\<exists>first lines. out = str_as_bytes (concat (map (\<lambda>l. l @ CRLF) (first # lines @ [lit ''Connection: close''])) @ CRLF)
    \<and> split_crlf (concat (map (\<lambda>l. l @ CRLF) (first # lines @ [lit ''Connection: close''])) @ CRLF)
        = first # lines @ [lit ''Connection: close'', [], []]
    \<and> list_all (\<lambda>l. \<exists>name v. l = name @ lit '': '' @ v \<and> 58 \<notin> set name \<and> \<not> is_hop name) lines
    \<and> list_ex (\<lambda>l. \<exists>name v. l = name @ lit '': '' @ v \<and> eq_ignore_case name (lit ''host'')) lines"
proof -
  obtain verb uri version ls hs rest where p: "crlf_free (verb @ [32] @ uri @ [32] @ version)" "list_all crlf_free ls"
    "header_lines ls = Ok hs" "strip_prefix_ignore_case uri (lit ''http://'') = Some rest"
    "out = str_as_bytes (forwarded_head verb (forward_path (dropWhile (\<lambda>c. c \<noteq> 47 \<and> c \<noteq> 63) rest)) version
        (takeWhile (\<lambda>c. c \<noteq> 47 \<and> c \<noteq> 63) rest) hs)"
    by (rule parse_request_forward [OF assms])
  define hp where "hp = takeWhile (\<lambda>c. c \<noteq> 47 \<and> c \<noteq> 63) rest"
  define first where "first = verb @ [32] @ forward_path (dropWhile (\<lambda>c. c \<noteq> 47 \<and> c \<noteq> 63) rest) @ [32] @ version"
  define kept where "kept = filter (\<lambda>(name, v). \<not> is_hop name) hs"
  define lines where "lines = map (\<lambda>(name, v). name @ lit '': '' @ v) kept
    @ (if list_ex (\<lambda>(name, v). eq_ignore_case name (lit ''host'')) kept then [] else [lit ''Host: '' @ hp])"
  have "crlf_free uri" using p(1) by (simp add: crlf_free_simps)
  note rest = http_uri_rest [OF p(4) this]
  have free: "crlf_free first" "crlf_free hp"
    unfolding first_def hp_def by (rule forwarded_first_free [OF p(1) rest(2)], rule rest(1))
  have hs: "list_all (\<lambda>(name, v). crlf_free (name @ lit '': '' @ v) \<and> 58 \<notin> set name) hs"
    by (rule header_lines_Ok [OF p(3,2)])
  have host: "lit ''Host: '' @ hp = lit ''Host'' @ lit '': '' @ hp" "58 \<notin> set (lit ''Host'')"
    "eq_ignore_case (lit ''Host'') (lit ''host'')" "crlf_free (lit ''Host: '' @ hp)"
    using free(2) by (auto simp: lit_def eq_ignore_case_def ascii_lower_def is_upper_def crlf_free_simps)
  have "forwarded_lines first hp hs = first # lines @ [lit ''Connection: close'']"
    by (simp add: forwarded_lines_def lines_def kept_def Let_def)
  then have "out = str_as_bytes (concat (map (\<lambda>l. l @ CRLF) (first # lines @ [lit ''Connection: close''])) @ CRLF)"
    unfolding p(5) forwarded_head_lines first_def hp_def by simp
  moreover have "list_all crlf_free (first # lines @ [lit ''Connection: close''])"
    using free hs host by (auto simp: lines_def kept_def list_all_iff lit_def)
  then have "split_crlf (concat (map (\<lambda>l. l @ CRLF) (first # lines @ [lit ''Connection: close''])) @ CRLF)
      = first # lines @ [lit ''Connection: close'', [], []]"
    using split_crlf_lines by fastforce
  moreover have "list_all (\<lambda>l. \<exists>name v. l = name @ lit '': '' @ v \<and> 58 \<notin> set name \<and> \<not> is_hop name) lines"
    using hs host host_not_hop by (fastforce simp: lines_def kept_def list_all_iff)
  moreover have "list_ex (\<lambda>l. \<exists>name v. l = name @ lit '': '' @ v \<and> eq_ignore_case name (lit ''host'')) lines"
  proof (cases "list_ex (\<lambda>(name, v). eq_ignore_case name (lit ''host'')) kept")
    case True
    then obtain name v where "(name, v) \<in> set kept" "eq_ignore_case name (lit ''host'')" by (auto simp: list_ex_iff)
    then show ?thesis unfolding list_ex_iff by (intro bexI [of _ "name @ lit '': '' @ v"]) (force simp: lines_def)+
  next
    case False
    then have "lit ''Host: '' @ hp \<in> set lines" by (simp add: lines_def)
    then show ?thesis unfolding list_ex_iff using host(1,3) by blast
  qed
  ultimately show ?thesis by blast
qed

definition sample_head :: rstr where
  "sample_head = lit ''GET http://x.y/x HTTP/1.1'' @ CRLF @ lit ''Proxy-Authorization: Basic x'' @ CRLF @ CRLF"

lemma sample_parts:
  "strip_suffix sample_head (CRLF @ CRLF) = Some (lit ''GET http://x.y/x HTTP/1.1'' @ CRLF @ lit ''Proxy-Authorization: Basic x'')"
  "split_crlf (lit ''GET http://x.y/x HTTP/1.1'' @ CRLF @ lit ''Proxy-Authorization: Basic x'')
     = [lit ''GET http://x.y/x HTTP/1.1'', lit ''Proxy-Authorization: Basic x'']"
  "split_on 32 (lit ''GET http://x.y/x HTTP/1.1'') = [lit ''GET'', lit ''http://x.y/x'', lit ''HTTP/1.1'']"
  "header_line (lit ''Proxy-Authorization: Basic x'') = Ok (lit ''Proxy-Authorization'', lit ''Basic x'')"
  "str_from_bytes (str_as_bytes sample_head) = Some sample_head"
proof -
  show "strip_suffix sample_head (CRLF @ CRLF) = Some (lit ''GET http://x.y/x HTTP/1.1'' @ CRLF @ lit ''Proxy-Authorization: Basic x'')"
    by (simp add: strip_suffix_Some sample_head_def)
  show "split_crlf (lit ''GET http://x.y/x HTTP/1.1'' @ CRLF @ lit ''Proxy-Authorization: Basic x'')
     = [lit ''GET http://x.y/x HTTP/1.1'', lit ''Proxy-Authorization: Basic x'']"
    by (simp add: lit_def CRLF_def)
  show "split_on 32 (lit ''GET http://x.y/x HTTP/1.1'') = [lit ''GET'', lit ''http://x.y/x'', lit ''HTTP/1.1'']"
    by (simp add: lit_def)
  show "header_line (lit ''Proxy-Authorization: Basic x'') = Ok (lit ''Proxy-Authorization'', lit ''Basic x'')"
    by (simp add: header_line_def split_once_def lit_def trim_blanks_def is_alnum_def is_lower_def is_upper_def HEADER_CHARS_def)
  have "list_all is_scalar sample_head" by (simp add: sample_head_def lit_def CRLF_def is_scalar_def)
  then show "str_from_bytes (str_as_bytes sample_head) = Some sample_head" by (simp add: str_from_bytes_Some)
qed

lemma parse_ip_letter:
  assumes "digit_value 16 c = None" "c \<noteq> 58"
  shows "parse_ip (c # r) = None"
proof -
  have ten: "digit_value 10 c = None" using assms(1) by (auto simp: digit_value_def Let_def split: if_splits option.splits)
  have "read_octets (Suc 3) 0 (c # r) = None"
    unfolding read_octets.simps by (simp add: read_separator_def read_number_def ten)
  then have v4: "read_ipv4 (c # r) = None" unfolding read_ipv4_def by simp
  have "read_groups (Suc 7) 0 (c # r) = ([], False, c # r)"
    unfolding read_groups.simps by (simp add: read_separator_def read_number_def assms(1) v4)
  then have "read_ipv6 (c # r) = None" using assms(2) by (auto simp: read_ipv6_def split: list.splits)
  then show ?thesis by (simp add: parse_ip_def parse_ipv6_def v4)
qed

lemma sample_target: "http_authority (lit ''x.y'') (Some 80) = Ok \<lparr>target_host = Name (lit ''x.y''), target_port = 80\<rparr>"
proof -
  have ip: "parse_ip (lit ''x.y'') = None"
    unfolding lit_def by (simp, rule parse_ip_letter) (simp_all add: digit_value_def is_digit_def is_lower_def)
  have s: "strip_suffix (lit ''x.y'') [46] = None" "strip_prefix (lit ''x.y'') [91] = None"
    by (simp_all add: strip_suffix_def ends_with_def suffix_def lit_def append_eq_Cons_conv strip_prefix_def)
  have "ascii_lower (lit ''x.y'') = lit ''x.y''" "split_on 46 (lit ''x.y'') = [[120], [121]]" "str_len (lit ''x.y'') = 3"
    by (simp_all add: ascii_lower_def lit_def is_upper_def str_len_def utf8_width_def)
  moreover have "list_all share_valid_label [[120], [121]]" "[121] \<notin> set LOCAL_LABELS" "\<not> list_all is_digit [121]"
    by (simp_all add: share_valid_label_def MAX_LABEL_LENGTH_def str_len_def utf8_width_def is_alnum_def is_lower_def
        LOCAL_LABELS_def lit_def is_digit_def)
  moreover have "lit ''x.y'' \<noteq> []" by (simp add: lit_def)
  ultimately have "parse_name (lit ''x.y'') = Ok (Name (lit ''x.y''))"
    by (simp add: parse_name_def s MAX_NAME_LENGTH_def)
  then have "host_parse (lit ''x.y'') = Ok (Name (lit ''x.y''))" by (simp add: host_parse_def s ip)
  moreover have "rsplit_colon (lit ''x.y'') = None" "64 \<notin> set (lit ''x.y'')" "58 \<notin> set (lit ''x.y'')"
    by (simp_all add: rsplit_colon_def split_once_def lit_def)
  ultimately show ?thesis by (simp add: http_authority_def authority_port_def)
qed

lemma sample_request:
  "\<exists>r out. parse_request (\<lambda>t. Some [97, 58, 98]) (str_as_bytes sample_head) = Ok r \<and> request_kind r = Forward out"
proof -
  have "is_upper 71" "is_upper 69" "is_upper 84" by (simp_all add: is_upper_def)
  then have "list_all is_upper (lit ''GET'')" "lit ''GET'' \<noteq> []" "lit ''GET'' \<noteq> lit ''CONNECT''"
    by (simp_all add: lit_def)
  moreover have "parse_authorization (\<lambda>t. Some [97, 58, 98]) [(lit ''Proxy-Authorization'', lit ''Basic x'')] = Ok (Some ([97], [98]))"
    by (simp add: parse_authorization_def eq_ignore_case_def ascii_lower_def lit_def is_upper_def basic_def split_once_def)
  moreover have "strip_prefix_ignore_case (lit ''http://x.y/x'') (lit ''http://'') = Some (lit ''x.y/x'')"
    by (simp add: strip_prefix_ignore_case_def eq_ignore_case_def lit_def)
  moreover have "takeWhile (\<lambda>c. c \<noteq> 47 \<and> c \<noteq> 63) (lit ''x.y/x'') = lit ''x.y''" by (simp add: lit_def)
  ultimately show ?thesis
    using sample_parts sample_target by (simp add: parse_request_def parse_lines_def request_of_def Let_def)
qed

theorem http_forward_is_clean_witness:
  "\<exists>r out lines. parse_request (\<lambda>t. Some [97, 58, 98]) (str_as_bytes sample_head) = Ok r \<and> request_kind r = Forward out
     \<and> list_all (\<lambda>l. \<exists>name v. l = name @ lit '': '' @ v \<and> 58 \<notin> set name \<and> \<not> is_hop name) lines"
proof -
  obtain r out where "parse_request (\<lambda>t. Some [97, 58, 98]) (str_as_bytes sample_head) = Ok r" "request_kind r = Forward out"
    using sample_request by blast
  from http_forward_is_clean [OF this] this show ?thesis by blast
qed

end
