(* ===== verification/Share_Server.thy ===== *)
theory Share_Server
  imports Share_Front "HOL-Library.Multiset"
begin

text \<open>
  The share's sign-in limiter and its server state (crates/ket-share \<open>limiter.rs\<close>,
  \<open>server.rs\<close>). Each critical section of the server is a definition on its state; the
  connections are tasks that run through them in any order, a step relation. Moments
  are nanoseconds.
\<close>

subsection \<open>The sign-in limiter\<close>

definition MAX_FAILURES :: nat where "MAX_FAILURES = 5"
definition MAX_TOTAL_FAILURES :: nat where "MAX_TOTAL_FAILURES = 30"
definition WINDOW :: nat where "WINDOW = 60 * 1000000000"
definition MAX_TRACKED :: nat where "MAX_TRACKED = 1024"

record Failures =
  f_count :: nat
  f_last :: nat

record SignInLimiter =
  l_devices :: "(IpAddr \<times> Failures) list"
  l_recent :: "nat list"

definition limiter_default :: SignInLimiter where
  "limiter_default = \<lparr>l_devices = [], l_recent = []\<rparr>"

definition forget_before :: "nat \<Rightarrow> SignInLimiter \<Rightarrow> SignInLimiter" where
  "forget_before now l = l\<lparr>l_devices := filter (\<lambda>(d, f). now - f_last f < WINDOW) (l_devices l),
     l_recent := filter (\<lambda>at. now - at < WINDOW) (l_recent l)\<rparr>"

definition turns_away :: "IpAddr \<Rightarrow> bool \<Rightarrow> nat \<Rightarrow> SignInLimiter \<Rightarrow> SignInLimiter \<times> bool" where
  "turns_away device signed_in now l = (let l = forget_before now l
     in (l, if (case map_of (l_devices l) device of None \<Rightarrow> False | Some f \<Rightarrow> f_count f \<ge> MAX_FAILURES) then True
            else \<not> signed_in \<and> length (l_recent l) \<ge> MAX_TOTAL_FAILURES))"

text \<open>\<open>HashMap\<close> entries, newest change wherever the key was; removal.\<close>

fun entry_set :: "'k \<Rightarrow> 'v \<Rightarrow> ('k \<times> 'v) list \<Rightarrow> ('k \<times> 'v) list" where
  "entry_set k v [] = [(k, v)]"
| "entry_set k v ((k', v') # r) = (if k' = k then (k, v) # r else (k', v') # entry_set k v r)"

definition entry_remove :: "'k \<Rightarrow> ('k \<times> 'v) list \<Rightarrow> ('k \<times> 'v) list" where
  "entry_remove k xs = filter (\<lambda>(k', v). k' \<noteq> k) xs"

text \<open>\<open>min_by_key\<close>: the first of the least, in the order the map iterates.\<close>

fun oldest_device :: "(IpAddr \<times> Failures) list \<Rightarrow> IpAddr option" where
  "oldest_device [] = None"
| "oldest_device ((d, f) # r) = (if list_all (\<lambda>(_, g). f_last f \<le> f_last g) r then Some d else oldest_device r)"

text \<open>\<open>iter\<close> is the order in which the hash map gives its entries.\<close>

definition limiter_failed :: "((IpAddr \<times> Failures) list \<Rightarrow> (IpAddr \<times> Failures) list) \<Rightarrow> IpAddr \<Rightarrow> nat \<Rightarrow> SignInLimiter
    \<Rightarrow> SignInLimiter" where
  "limiter_failed iter device now l =
    (let l = forget_before now l;
         failures = (case map_of (l_devices l) device of None \<Rightarrow> \<lparr>f_count = 0, f_last = now\<rparr> | Some f \<Rightarrow> f);
         devices = entry_set device \<lparr>f_count = (f_count failures + 1) mod 2 ^ 32, f_last = now\<rparr> (l_devices l);
         recent = (if length (l_recent l) < MAX_TOTAL_FAILURES then l_recent l @ [now] else tl (l_recent l) @ [now])
     in \<lparr>l_devices = (if length devices > MAX_TRACKED then
           (case oldest_device (iter devices) of None \<Rightarrow> devices | Some oldest \<Rightarrow> entry_remove oldest devices)
           else devices),
         l_recent = recent\<rparr>)"

definition limiter_succeeded :: "IpAddr \<Rightarrow> SignInLimiter \<Rightarrow> SignInLimiter" where
  "limiter_succeeded device l = l\<lparr>l_devices := entry_remove device (l_devices l)\<rparr>"

subsection \<open>The server's state\<close>

definition MAX_CONNECTIONS :: nat where "MAX_CONNECTIONS = 256"

record ShareState =
  listening :: bool
  sh_devices :: "IpAddr \<rightharpoonup> nat"
  connections :: nat
  refused_sign_ins :: nat
  limiter :: SignInLimiter

definition share_start :: ShareState where
  "share_start = \<lparr>listening = True, sh_devices = Map.empty, connections = 0, refused_sign_ins = 0, limiter = limiter_default\<rparr>"

text \<open>The accept loop's decision on one connection.\<close>

definition accept_connection :: "IpAddr \<Rightarrow> nat \<Rightarrow> ShareState \<Rightarrow> ShareState \<times> bool" where
  "accept_connection device now st = (
     if connections st \<ge> MAX_CONNECTIONS then (st, False)
     else (case turns_away device (sh_devices st device \<noteq> None) now (limiter st) of (l, away) \<Rightarrow>
       if away then (st\<lparr>limiter := l\<rparr>, False)
       else (st\<lparr>limiter := l, connections := connections st + 1\<rparr>, True)))"

definition connection_ended :: "ShareState \<Rightarrow> ShareState" where
  "connection_ended st = st\<lparr>connections := connections st - 1\<rparr>"

definition signed_in_new :: "IpAddr \<Rightarrow> ShareState \<Rightarrow> ShareState" where
  "signed_in_new device st = st\<lparr>limiter := limiter_succeeded device (limiter st),
     sh_devices := (sh_devices st)(device \<mapsto> (case sh_devices st device of None \<Rightarrow> 0 | Some n \<Rightarrow> n) + 1)\<rparr>"

definition signed_in_drop :: "IpAddr \<Rightarrow> ShareState \<Rightarrow> ShareState" where
  "signed_in_drop device st = (case sh_devices st device of None \<Rightarrow> st
     | Some n \<Rightarrow> st\<lparr>sh_devices := (if n - 1 = 0 then (sh_devices st)(device := None) else (sh_devices st)(device \<mapsto> n - 1))\<rparr>)"

definition note_refusal :: "((IpAddr \<times> Failures) list \<Rightarrow> (IpAddr \<times> Failures) list) \<Rightarrow> Refusal \<Rightarrow> IpAddr \<Rightarrow> nat \<Rightarrow> ShareState
    \<Rightarrow> ShareState" where
  "note_refusal iter refusal device now st = (if refusal = BadCredentials
     then st\<lparr>refused_sign_ins := (refused_sign_ins st + 1) mod 2 ^ 64, limiter := limiter_failed iter device now (limiter st)\<rparr>
     else st)"

definition stop_listening :: "ShareState \<Rightarrow> ShareState" where
  "stop_listening st = st\<lparr>listening := False\<rparr>"

record ShareStats =
  stat_devices :: nat
  stat_connections :: nat
  stat_refused :: nat

definition share_stats :: "ShareState \<Rightarrow> ShareStats" where
  "share_stats st = \<lparr>stat_devices = card (dom (sh_devices st)), stat_connections = connections st,
     stat_refused = refused_sign_ins st\<rparr>"

subsection \<open>Answers\<close>

fun refusal_status :: "Refusal \<Rightarrow> Status" where
  "refusal_status BadCredentials = SignInRequired"
| "refusal_status NoCredentials = SignInRequired"
| "refusal_status (RefusedTarget LocalName) = StatusNotAllowed"
| "refusal_status Unsupported = NotForwarded"
| "refusal_status Malformed = BadRequest"
| "refusal_status (RefusedTarget InvalidTarget) = BadRequest"

fun dial_socks_reply :: "DialFailure \<Rightarrow> Reply" where
  "dial_socks_reply DialNotAllowed = NotAllowed"
| "dial_socks_reply DialNoTunnel = NetworkUnreachable"
| "dial_socks_reply DialUnresolved = HostUnreachable"
| "dial_socks_reply DialUnreachable = HostUnreachable"
| "dial_socks_reply DialTimedOut = ReplyTimedOut"
| "dial_socks_reply DialRefused = ConnectionRefused"

fun dial_http_status :: "DialFailure \<Rightarrow> Status" where
  "dial_http_status DialNotAllowed = StatusNotAllowed"
| "dial_http_status DialNoTunnel = NotConnected"
| "dial_http_status DialTimedOut = GatewayTimeout"
| "dial_http_status DialUnresolved = BadGateway"
| "dial_http_status DialRefused = BadGateway"
| "dial_http_status DialUnreachable = BadGateway"

text \<open>What a connection does to the server's state and to the world: the sign-in it
  causes, the refusal it notes, the connections it opens, the answers it sends.\<close>

datatype served = Dropped | TurnedDown Refusal "u8 list list" | SignedInServed "(IpAddr \<times> u16) list" "u8 list list" bool

text \<open>\<open>serve_socks\<close> on the bytes after the version. The handshake may be given up on
  (\<open>in_time\<close> false); the flag of the result says whether a relay follows.\<close>

definition serve_socks :: "Credentials \<Rightarrow> 's Egress \<Rightarrow> bool \<Rightarrow> (nat \<Rightarrow> bool) \<Rightarrow> nat option \<Rightarrow> u8 list \<Rightarrow> served" where
  "serve_socks c egress in_time write_ok given_up s = (if \<not> in_time then Dropped
     else (case negotiate c write_ok s of
       (w, Err refusal) \<Rightarrow> TurnedDown refusal w
     | (w, Ok (target, rest)) \<Rightarrow> (case dial given_up egress target of
         (tried, Ok site) \<Rightarrow> SignedInServed tried (w @ [socks_reply Succeeded]) True
       | (tried, Err failure) \<Rightarrow> SignedInServed tried (w @ [socks_reply (dial_socks_reply failure)]) False)))"

text \<open>\<open>serve_http\<close>: \<open>site\<close> is what the site's reads give once it is connected,
  \<open>site_write\<close> whether it takes the head and what followed it.\<close>

definition serve_http :: "(rstr \<Rightarrow> u8 list option) \<Rightarrow> Credentials \<Rightarrow> 's Egress \<Rightarrow> bool \<Rightarrow> nat option \<Rightarrow> bool \<Rightarrow> bool \<Rightarrow> u8 list list
    \<Rightarrow> u8 \<Rightarrow> u8 list list \<Rightarrow> served" where
  "serve_http b64 c egress in_time given_up site_write device_write site first chunks = (if \<not> in_time then Dropped
     else (case (case read_head chunks [first] of Err e \<Rightarrow> Err e
         | Ok (head, rest) \<Rightarrow> (case parse_request b64 head of Err e \<Rightarrow> Err e | Ok request \<Rightarrow> Ok (request, rest))) of
       Err refusal \<Rightarrow> TurnedDown refusal [http_response (refusal_status refusal)]
     | Ok (request, rest) \<Rightarrow> (case authorize request c of
         Err refusal \<Rightarrow> TurnedDown refusal [http_response SignInRequired]
       | Ok _ \<Rightarrow> (case dial given_up egress (request_target request) of
           (tried, Err failure) \<Rightarrow> SignedInServed tried [http_response (dial_http_status failure)] False
         | (tried, Ok _) \<Rightarrow> (case request_kind request of
             Tunnel \<Rightarrow> SignedInServed tried [http_response Established] (device_write \<and> site_write)
           | Forward head \<Rightarrow> if \<not> site_write then SignedInServed tried [http_response BadGateway] False
               else (case read_head site [] of Err _ \<Rightarrow> SignedInServed tried [http_response BadGateway] False
                 | Ok (response, body) \<Rightarrow> (case rewrite_response response of
                     None \<Rightarrow> SignedInServed tried [http_response BadGateway] False
                   | Some response \<Rightarrow> SignedInServed tried [response, body] device_write)))))))"

text \<open>\<open>first\<close> is the first byte, if it came in time; \<open>chunks\<close> what the reads after it give.\<close>

definition serve :: "(rstr \<Rightarrow> u8 list option) \<Rightarrow> Credentials \<Rightarrow> 's Egress \<Rightarrow> bool \<Rightarrow> (nat \<Rightarrow> bool) \<Rightarrow> nat option \<Rightarrow> bool \<Rightarrow> bool
    \<Rightarrow> u8 list list \<Rightarrow> u8 option \<Rightarrow> u8 list list \<Rightarrow> served" where
  "serve b64 c egress in_time write_ok given_up site_write device_write site first chunks = (case first of
     None \<Rightarrow> Dropped
   | Some b \<Rightarrow> if b = SOCKS_VERSION then serve_socks c egress in_time write_ok given_up (concat chunks)
       else if 65 \<le> b \<and> b \<le> 90 then serve_http b64 c egress in_time given_up site_write device_write site b chunks
       else Dropped)"

subsection \<open>Connections as tasks\<close>

datatype phase = Handshake | Admitted | Leaving

record ShareSystem =
  share :: ShareState
  tasks :: "(IpAddr \<times> phase) multiset"
  stopped :: bool
  clock :: nat

definition system_start :: ShareSystem where
  "system_start = \<lparr>share = share_start, tasks = {#}, stopped = False, clock = 0\<rparr>"

text \<open>The steps of the accept loop and of the connections' tasks, each one critical
  section of the source. A task whose \<open>serve\<close> is cancelled by the stop signal leaves the
  same way as one that returns.\<close>

inductive share_step :: "ShareSystem \<Rightarrow> ShareSystem \<Rightarrow> bool" where
  accept: "listening (share s) \<Longrightarrow> clock s \<le> now \<Longrightarrow> accept_connection d now (share s) = (st, True)
     \<Longrightarrow> share_step s (s\<lparr>share := st, tasks := add_mset (d, Handshake) (tasks s), clock := now\<rparr>)"
| turn_away: "listening (share s) \<Longrightarrow> clock s \<le> now \<Longrightarrow> accept_connection d now (share s) = (st, False)
     \<Longrightarrow> share_step s (s\<lparr>share := st, clock := now\<rparr>)"
| refuse: "tasks s = add_mset (d, Handshake) rest \<Longrightarrow> clock s \<le> now \<Longrightarrow> (\<And>xs. mset (iter xs) = mset xs)
     \<Longrightarrow> share_step s (s\<lparr>share := note_refusal iter r d now (share s), tasks := add_mset (d, Leaving) rest, clock := now\<rparr>)"
| sign_in: "tasks s = add_mset (d, Handshake) rest
     \<Longrightarrow> share_step s (s\<lparr>share := signed_in_new d (share s), tasks := add_mset (d, Admitted) rest\<rparr>)"
| give_up: "tasks s = add_mset (d, Handshake) rest \<Longrightarrow> share_step s (s\<lparr>tasks := add_mset (d, Leaving) rest\<rparr>)"
| leave: "tasks s = add_mset (d, Admitted) rest
     \<Longrightarrow> share_step s (s\<lparr>share := signed_in_drop d (share s), tasks := add_mset (d, Leaving) rest\<rparr>)"
| finish: "tasks s = add_mset (d, Leaving) rest
     \<Longrightarrow> share_step s (s\<lparr>share := connection_ended (share s), tasks := rest\<rparr>)"
| stop: "share_step s (s\<lparr>stopped := True\<rparr>)"
| close: "stopped s \<Longrightarrow> share_step s (s\<lparr>share := stop_listening (share s)\<rparr>)"

inductive share_reachable :: "ShareSystem \<Rightarrow> bool" where
  start: "share_reachable system_start"
| step: "share_reachable s \<Longrightarrow> share_step s t \<Longrightarrow> share_reachable t"

subsection \<open>The limiter stays within bounds\<close>

lemma keys_entry_set: "set (map fst (entry_set k v xs)) = insert k (set (map fst xs))"
  by (induction k v xs rule: entry_set.induct) (simp_all add: insert_commute)

lemma entry_set_nonempty: "entry_set k v xs \<noteq> []"
  by (cases "(k, v, xs)" rule: entry_set.cases) auto

lemma distinct_entry_set: "distinct (map fst xs) \<Longrightarrow> distinct (map fst (entry_set k v xs))"
  by (induction k v xs rule: entry_set.induct) (auto simp: keys_entry_set [simplified])

lemma set_entry_set: "distinct (map fst xs) \<Longrightarrow> set (entry_set k v xs) = insert (k, v) {x \<in> set xs. fst x \<noteq> k}"
  by (induction k v xs rule: entry_set.induct) (simp, auto simp: image_iff)

lemma length_entry_set: "length (entry_set k v xs) \<le> Suc (length xs)"
  by (induction xs) auto

lemma set_entry_remove: "set (entry_remove k xs) = {x \<in> set xs. fst x \<noteq> k}"
  by (auto simp: entry_remove_def)

lemma distinct_filter_keys: "distinct (map fst xs) \<Longrightarrow> distinct (map fst (filter P xs))"
  by (simp add: distinct_map_filter)

lemma length_entry_remove:
  assumes "distinct (map fst xs)" "k \<in> fst ` set xs"
  shows "length (entry_remove k xs) < length xs"
proof -
  obtain v where "(k, v) \<in> set xs" using assms(2) by auto
  then show ?thesis unfolding entry_remove_def by (intro length_filter_less [of "(k, v)"]) simp_all
qed

lemma tl_member: "x \<in> set (tl xs) \<Longrightarrow> x \<in> set xs"
  by (cases xs) auto

lemma oldest_device_Some: "xs \<noteq> [] \<Longrightarrow> \<exists>d. oldest_device xs = Some d \<and> d \<in> fst ` set xs"
proof (induction xs rule: oldest_device.induct)
  case (2 d f r)
  then show ?case by (cases r) auto
qed simp

definition limiter_ok :: "nat \<Rightarrow> SignInLimiter \<Rightarrow> bool" where
  "limiter_ok now l \<longleftrightarrow> distinct (map fst (l_devices l)) \<and> length (l_devices l) \<le> MAX_TRACKED
     \<and> length (l_recent l) \<le> MAX_TOTAL_FAILURES \<and> (\<forall>(d, f) \<in> set (l_devices l). f_last f \<le> now) \<and> (\<forall>at \<in> set (l_recent l). at \<le> now)"

lemma limiter_ok_mono: "limiter_ok now l \<Longrightarrow> now \<le> now' \<Longrightarrow> limiter_ok now' l"
  by (fastforce simp: limiter_ok_def)

lemma limiter_ok_forget: "limiter_ok now l \<Longrightarrow> limiter_ok now (forget_before at l)"
  by (auto simp: limiter_ok_def forget_before_def distinct_filter_keys intro: le_trans [OF length_filter_le])

lemma limiter_ok_succeeded: "limiter_ok now l \<Longrightarrow> limiter_ok now (limiter_succeeded d l)"
  by (auto simp: limiter_ok_def limiter_succeeded_def entry_remove_def distinct_filter_keys intro: le_trans [OF length_filter_le])

text \<open>The tracked devices after a wrong password: those before, with this one counted.\<close>

definition failures_of :: "IpAddr \<Rightarrow> SignInLimiter \<Rightarrow> nat" where
  "failures_of d l = (case map_of (l_devices l) d of None \<Rightarrow> 0 | Some f \<Rightarrow> f_count f)"

lemma failed_devices:
  assumes "distinct (map fst (l_devices l))" "(d', f) \<in> set (l_devices (limiter_failed iter d now l))"
  shows "d' \<noteq> d \<and> (d', f) \<in> set (l_devices l)
    \<or> d' = d \<and> f = \<lparr>f_count = (failures_of d (forget_before now l) + 1) mod 2 ^ 32, f_last = now\<rparr>"
proof -
  let ?l = "forget_before now l"
  let ?new = "\<lparr>f_count = (failures_of d ?l + 1) mod 2 ^ 32, f_last = now\<rparr>"
  have "(case map_of (l_devices ?l) d of None \<Rightarrow> \<lparr>f_count = 0, f_last = now\<rparr> | Some f \<Rightarrow> f) = f' \<Longrightarrow> f_count f' = failures_of d ?l" for f'
    by (auto simp: failures_of_def split: option.splits)
  then have sub: "set (l_devices (limiter_failed iter d now l)) \<subseteq> set (entry_set d ?new (l_devices ?l))"
    by (auto simp: limiter_failed_def Let_def entry_remove_def split: option.splits if_splits)
  have "distinct (map fst (l_devices ?l))" using assms(1) by (simp add: forget_before_def distinct_filter_keys)
  note eq = set_entry_set [OF this, of d ?new]
  have "(d', f) \<in> insert (d, ?new) {x \<in> set (l_devices ?l). fst x \<noteq> d}"
    using subsetD [OF sub assms(2)] unfolding eq .
  then show ?thesis by (auto simp: forget_before_def)
qed

lemma limiter_ok_failed:
  assumes "limiter_ok now l" "\<And>xs. mset (iter xs) = mset xs"
  shows "limiter_ok now (limiter_failed iter d now l)"
proof -
  let ?l = "forget_before now l"
  have ok: "limiter_ok now ?l" by (rule limiter_ok_forget [OF assms(1)])
  define ds where "ds = entry_set d \<lparr>f_count = (failures_of d ?l + 1) mod 2 ^ 32, f_last = now\<rparr> (l_devices ?l)"
  have ds: "distinct (map fst ds)" "length ds \<le> Suc MAX_TRACKED" "ds \<noteq> []"
    using ok length_entry_set [of d _ "l_devices ?l"]
    by (auto simp: ds_def limiter_ok_def entry_set_nonempty intro: distinct_entry_set le_trans)
  have new: "l_devices (limiter_failed iter d now l) = (if length ds > MAX_TRACKED then
      (case oldest_device (iter ds) of None \<Rightarrow> ds | Some oldest \<Rightarrow> entry_remove oldest ds) else ds)"
    by (auto simp: limiter_failed_def Let_def ds_def failures_of_def split: option.splits)
  have "set (iter ds) = set ds" using assms(2) [of ds] by (metis set_mset_mset)
  then obtain o1 where o1: "oldest_device (iter ds) = Some o1" "o1 \<in> fst ` set ds"
    using oldest_device_Some [of "iter ds"] ds(3) by (metis set_empty)
  have "distinct (map fst (l_devices (limiter_failed iter d now l)))" "length (l_devices (limiter_failed iter d now l)) \<le> MAX_TRACKED"
    using ds(1,2) o1 length_entry_remove [OF ds(1) o1(2)] by (auto simp: new entry_remove_def distinct_filter_keys)
  moreover have "f_last f \<le> now" if "(d', f) \<in> set (l_devices (limiter_failed iter d now l))" for d' f
    using failed_devices [OF _ that] assms(1) by (auto simp: limiter_ok_def)
  moreover have "length (l_recent (limiter_failed iter d now l)) \<le> MAX_TOTAL_FAILURES"
      "\<forall>at \<in> set (l_recent (limiter_failed iter d now l)). at \<le> now"
    using ok by (auto simp: limiter_failed_def Let_def limiter_ok_def MAX_TOTAL_FAILURES_def dest: tl_member)
  ultimately show ?thesis by (auto simp: limiter_ok_def)
qed

subsection \<open>The server's counts are exact\<close>

definition pending :: "IpAddr \<Rightarrow> (IpAddr \<times> phase) multiset \<Rightarrow> nat" where
  "pending d ts = count ts (d, Handshake)"

definition signed_in :: "IpAddr \<Rightarrow> (IpAddr \<times> phase) multiset \<Rightarrow> nat option" where
  "signed_in d ts = (if count ts (d, Admitted) = 0 then None else Some (count ts (d, Admitted)))"

definition system_ok :: "ShareSystem \<Rightarrow> bool" where
  "system_ok s \<longleftrightarrow> connections (share s) = size (tasks s) \<and> size (tasks s) \<le> MAX_CONNECTIONS
     \<and> (\<forall>d. sh_devices (share s) d = signed_in d (tasks s)) \<and> limiter_ok (clock s) (limiter (share s))
     \<and> (\<forall>(d, f) \<in> set (l_devices (limiter (share s))). f_count f + pending d (tasks s) \<le> 260)"

lemma count_simps:
  "p \<noteq> Admitted \<Longrightarrow> signed_in d' (add_mset (d, p) ts) = signed_in d' ts"
  "d' \<noteq> d \<Longrightarrow> signed_in d' (add_mset (d, p) ts) = signed_in d' ts"
  "signed_in d (add_mset (d, Admitted) ts) = Some (case signed_in d ts of None \<Rightarrow> 1 | Some n \<Rightarrow> Suc n)"
  "p \<noteq> Handshake \<Longrightarrow> pending d' (add_mset (d, p) ts) = pending d' ts"
  "d' \<noteq> d \<Longrightarrow> pending d' (add_mset (d, p) ts) = pending d' ts"
  "pending d (add_mset (d, Handshake) ts) = Suc (pending d ts)"
  by (auto simp: signed_in_def pending_def count_eq_zero_iff)

lemma pending_bound: "pending d ts \<le> size ts"
  unfolding pending_def by (metis count_le_replicate_mset_subset_eq size_mset_mono size_replicate_mset order_refl)

lemma system_ok_bound: "system_ok s \<Longrightarrow> (d, f) \<in> set (l_devices (limiter (share s))) \<Longrightarrow> f_count f + pending d (tasks s) \<le> 260"
  by (auto simp: system_ok_def)

lemma give_up_ok:
  assumes "system_ok s" "tasks s = add_mset (d, Handshake) rest" "clock s \<le> now"
  shows "system_ok (s\<lparr>tasks := add_mset (d, Leaving) rest, clock := now\<rparr>)"
proof -
  have "pending d' (add_mset (d, Leaving) rest) \<le> pending d' (tasks s)" for d' by (simp add: assms(2) pending_def)
  then have "f_count f + pending d' (add_mset (d, Leaving) rest) \<le> 260" if "(d', f) \<in> set (l_devices (limiter (share s)))" for d' f
    using system_ok_bound [OF assms(1) that] by (meson add_left_mono le_trans)
  then show ?thesis using assms(1,3) limiter_ok_mono by (auto simp: system_ok_def assms(2) count_simps)
qed

lemma system_ok_start: "system_ok system_start"
  by (simp add: system_ok_def system_start_def share_start_def limiter_default_def limiter_ok_def signed_in_def)

lemma accept_ok:
  assumes "system_ok s" "clock s \<le> now" "accept_connection d now (share s) = (st, accepted)"
  shows "system_ok (s\<lparr>share := st, tasks := (if accepted then add_mset (d, Handshake) (tasks s) else tasks s), clock := now\<rparr>)"
proof -
  obtain l away where t: "turns_away d (sh_devices (share s) d \<noteq> None) now (limiter (share s)) = (l, away)" by fastforce
  then have l: "l = forget_before now (limiter (share s))" by (simp add: turns_away_def Let_def)
  have lok: "limiter_ok now (limiter (share s))" using assms(1,2) limiter_ok_mono by (auto simp: system_ok_def)
  then have fok: "limiter_ok now l" unfolding l by (rule limiter_ok_forget)
  have sub: "set (l_devices l) \<subseteq> set (l_devices (limiter (share s)))" by (auto simp: l forget_before_def)
  show ?thesis
  proof (cases accepted)
    case True
    then have st: "connections (share s) < MAX_CONNECTIONS" "\<not> away" "st = (share s)\<lparr>limiter := l, connections := connections (share s) + 1\<rparr>"
      using assms(3) t by (auto simp: accept_connection_def split: if_splits)
    have "f_count f + pending d' (add_mset (d, Handshake) (tasks s)) \<le> 260" if f: "(d', f) \<in> set (l_devices l)" for d' f
    proof (cases "d' = d")
      case True
      have "distinct (map fst (l_devices l))" using fok by (simp add: limiter_ok_def)
      then have "map_of (l_devices l) d = Some f" using f True by (simp add: map_of_is_SomeI)
      then have "f_count f < MAX_FAILURES" using st(2) t unfolding turns_away_def Let_def l [symmetric] by (auto split: if_splits)
      moreover have "pending d' (add_mset (d, Handshake) (tasks s)) \<le> Suc (size (tasks s))"
        using pending_bound [of d' "add_mset (d, Handshake) (tasks s)"] by simp
      ultimately show ?thesis using st(1) assms(1) by (simp add: system_ok_def MAX_CONNECTIONS_def MAX_FAILURES_def)
    next
      case False
      then have "pending d' (add_mset (d, Handshake) (tasks s)) = pending d' (tasks s)" by (simp add: pending_def)
      then show ?thesis using assms(1) f sub by (auto simp: system_ok_def)
    qed
    then show ?thesis using True assms(1) st fok by (auto simp: system_ok_def count_simps)
  next
    case False
    then have "st = share s \<or> st = (share s)\<lparr>limiter := l\<rparr>" using assms(3) t by (auto simp: accept_connection_def split: if_splits)
    then show ?thesis using False assms(1) fok lok sub by (auto simp: system_ok_def)
  qed
qed

lemma refuse_ok:
  assumes "system_ok s" "tasks s = add_mset (d, Handshake) rest" "clock s \<le> now" "\<And>xs. mset (iter xs) = mset xs"
  shows "system_ok (s\<lparr>share := note_refusal iter r d now (share s), tasks := add_mset (d, Leaving) rest, clock := now\<rparr>)"
proof -
  let ?l = "limiter (share s)" and ?ts = "add_mset (d, Leaving) rest"
  have lok: "limiter_ok now ?l" using assms(1,3) limiter_ok_mono by (auto simp: system_ok_def)
  have pend: "pending d (tasks s) = Suc (pending d ?ts)" "d' \<noteq> d \<Longrightarrow> pending d' (tasks s) = pending d' ?ts"
    "signed_in d' (tasks s) = signed_in d' ?ts" for d'
    by (simp_all add: assms(2) count_simps)
  have "f_count f + pending d' ?ts \<le> 260" if f: "(d', f) \<in> set (l_devices (limiter_failed iter d now ?l))" for d' f
  proof -
    have dist: "distinct (map fst (l_devices ?l))" using lok by (simp add: limiter_ok_def)
    have mem: "(d, g) \<in> set (l_devices ?l)" if "map_of (l_devices (forget_before now ?l)) d = Some g" for g
      using map_of_SomeD [OF that] by (auto simp: forget_before_def)
    have known: "failures_of d (forget_before now ?l) + pending d (tasks s) \<le> 260"
      using assms(1) pending_bound [of d "tasks s"] mem
      by (fastforce simp: failures_of_def system_ok_def MAX_CONNECTIONS_def split: option.splits)
    from failed_devices [OF dist f] show ?thesis
    proof
      assume "d' \<noteq> d \<and> (d', f) \<in> set (l_devices ?l)"
      then show ?thesis using assms(1) pend(2) [of d'] by (auto simp: system_ok_def)
    next
      assume "d' = d \<and> f = \<lparr>f_count = (failures_of d (forget_before now ?l) + 1) mod 2 ^ 32, f_last = now\<rparr>"
      then show ?thesis using known pend(1) by simp
    qed
  qed
  then show ?thesis
    using give_up_ok [OF assms(1-3)] limiter_ok_failed [OF lok assms(4), of d]
    by (auto simp: system_ok_def note_refusal_def)
qed

lemma sign_in_ok:
  assumes "system_ok s" "tasks s = add_mset (d, Handshake) rest"
  shows "system_ok (s\<lparr>share := signed_in_new d (share s), tasks := add_mset (d, Admitted) rest\<rparr>)"
proof -
  let ?ts = "add_mset (d, Admitted) rest"
  have "sh_devices (signed_in_new d (share s)) d' = signed_in d' ?ts" for d'
    using assms(1) by (cases "d' = d") (auto simp: signed_in_new_def system_ok_def assms(2) count_simps split: option.splits)
  moreover have "f_count f + pending d' ?ts \<le> 260" if "(d', f) \<in> set (l_devices (limiter_succeeded d (limiter (share s))))" for d' f
  proof -
    have "d' \<noteq> d" "(d', f) \<in> set (l_devices (limiter (share s)))"
      using that by (auto simp: limiter_succeeded_def set_entry_remove)
    then show ?thesis using assms(1) by (auto simp: system_ok_def assms(2) count_simps)
  qed
  moreover have "connections (signed_in_new d (share s)) = connections (share s)"
    "limiter (signed_in_new d (share s)) = limiter_succeeded d (limiter (share s))"
    by (simp_all add: signed_in_new_def)
  ultimately show ?thesis using assms(1) limiter_ok_succeeded by (auto simp: system_ok_def assms(2))
qed

lemma leave_ok:
  assumes "system_ok s" "tasks s = add_mset (d, Admitted) rest"
  shows "system_ok (s\<lparr>share := signed_in_drop d (share s), tasks := add_mset (d, Leaving) rest\<rparr>)"
proof -
  have dev: "sh_devices (share s) d = Some (case signed_in d rest of None \<Rightarrow> 1 | Some n \<Rightarrow> Suc n)"
    using assms(1) by (simp add: system_ok_def assms(2) count_simps)
  have pos: "signed_in d rest = Some n \<Longrightarrow> 0 < n" for n by (auto simp: signed_in_def split: if_splits)
  have "sh_devices (signed_in_drop d (share s)) d' = signed_in d' (add_mset (d, Leaving) rest)" for d'
    using assms(1) dev pos
    by (cases "d' = d"; cases "signed_in d rest") (auto simp: signed_in_drop_def system_ok_def assms(2) count_simps)
  moreover have "limiter (signed_in_drop d (share s)) = limiter (share s)" "connections (signed_in_drop d (share s)) = connections (share s)"
    by (auto simp: signed_in_drop_def split: option.splits)
  ultimately show ?thesis using assms(1) by (auto simp: system_ok_def assms(2) count_simps)
qed

lemma share_step_ok: "share_step s t \<Longrightarrow> system_ok s \<Longrightarrow> system_ok t"
proof (induction rule: share_step.induct)
  case (accept s now d st)
  then show ?case using accept_ok [of s now d st True] by simp
next
  case (turn_away s now d st)
  then show ?case using accept_ok [of s now d st False] by simp
next
  case (refuse s d rest now iter r)
  then show ?case using refuse_ok by blast
next
  case (sign_in s d rest)
  then show ?case using sign_in_ok by blast
next
  case (give_up s d rest)
  then show ?case using give_up_ok [of s d rest "clock s"] by simp
next
  case (leave s d rest)
  then show ?case using leave_ok by blast
next
  case (finish s d rest)
  then show ?case by (auto simp: system_ok_def connection_ended_def count_simps)
next
  case (stop s)
  then show ?case by (simp add: system_ok_def)
next
  case (close s)
  then show ?case by (simp add: system_ok_def stop_listening_def)
qed

lemma reachable_ok: "share_reachable s \<Longrightarrow> system_ok s"
  by (induction rule: share_reachable.induct) (auto intro: system_ok_start share_step_ok)

subsection \<open>Properties\<close>

text \<open>
  C36: however connections come, sign in, fail and end in parallel, the share's books are
  right. The connection count is that of the open connections and at most 256, each
  device's count is that of its signed-in connections, the limiter tracks at most 1024
  devices once each and at most 30 recent failures, and a device's failure count never
  passes 260, far below where the 32-bit counter would wrap.
\<close>

theorem share_books_are_right:
  assumes "share_reachable s"
  shows "connections (share s) = size (tasks s) \<and> size (tasks s) \<le> 256
    \<and> (\<forall>d. sh_devices (share s) d = (let n = count (tasks s) (d, Admitted) in if n = 0 then None else Some n))
    \<and> length (l_devices (limiter (share s))) \<le> 1024 \<and> distinct (map fst (l_devices (limiter (share s))))
    \<and> length (l_recent (limiter (share s))) \<le> 30 \<and> (\<forall>(d, f) \<in> set (l_devices (limiter (share s))). f_count f \<le> 260)"
  using reachable_ok [OF assms]
  by (auto simp: system_ok_def limiter_ok_def signed_in_def Let_def MAX_CONNECTIONS_def MAX_TRACKED_def MAX_TOTAL_FAILURES_def)

definition sample_system :: ShareSystem where
  "sample_system = system_start\<lparr>share := share_start\<lparr>connections := 1\<rparr>, tasks := {#(V4 7, Handshake)#}, clock := 5\<rparr>"

lemma sample_reachable: "share_reachable sample_system"
proof -
  have "accept_connection (V4 7) 5 (share system_start) = (share_start\<lparr>connections := 1\<rparr>, True)"
    by (simp add: accept_connection_def system_start_def share_start_def turns_away_def forget_before_def limiter_default_def
        MAX_CONNECTIONS_def MAX_TOTAL_FAILURES_def)
  then have "share_step system_start (system_start\<lparr>share := share_start\<lparr>connections := 1\<rparr>,
      tasks := add_mset (V4 7, Handshake) (tasks system_start), clock := 5\<rparr>)"
    by (intro share_step.accept) (simp_all add: system_start_def share_start_def)
  then show ?thesis using share_reachable.intros by (auto simp: sample_system_def system_start_def)
qed

theorem share_books_are_right_witness:
  "connections (share sample_system) = 1 \<and> size (tasks sample_system) = connections (share sample_system)"
  using share_books_are_right [OF sample_reachable] by (simp add: sample_system_def)

lemma task_leaves:
  assumes "tasks s = add_mset (d, p) rest"
  shows "\<exists>t. share_step\<^sup>*\<^sup>* s t \<and> tasks t = rest \<and> stopped t = stopped s \<and> listening (share t) = listening (share s)"
proof -
  have fin: "\<exists>t. share_step\<^sup>*\<^sup>* u t \<and> tasks t = rest \<and> stopped t = stopped u \<and> listening (share t) = listening (share u)"
    if "tasks u = add_mset (d, Leaving) rest" for u
    using share_step.finish [OF that] by (intro exI conjI, rule r_into_rtranclp) (auto simp: connection_ended_def)
  show ?thesis
  proof (cases p)
    case Handshake
    then have step: "share_step s (s\<lparr>tasks := add_mset (d, Leaving) rest\<rparr>)" using assms share_step.give_up by simp
    then show ?thesis using fin [of "s\<lparr>tasks := add_mset (d, Leaving) rest\<rparr>"] converse_rtranclp_into_rtranclp [of share_step] by fastforce
  next
    case Admitted
    let ?u = "s\<lparr>share := signed_in_drop d (share s), tasks := add_mset (d, Leaving) rest\<rparr>"
    have step: "share_step s ?u" using assms Admitted share_step.leave by simp
    moreover have "listening (share ?u) = listening (share s)" by (auto simp: signed_in_drop_def split: option.splits)
    ultimately show ?thesis using fin [of ?u] converse_rtranclp_into_rtranclp [of share_step] by fastforce
  next
    case Leaving
    then show ?thesis using fin assms by blast
  qed
qed

lemma tasks_drain:
  "\<exists>t. share_step\<^sup>*\<^sup>* s t \<and> tasks t = {#} \<and> stopped t = stopped s \<and> listening (share t) = listening (share s)"
proof (induction "tasks s" arbitrary: s rule: multiset_induct)
  case empty
  then show ?case by auto
next
  case (add x rest)
  obtain d p where x: "x = (d, p)" by (cases x)
  obtain u where u: "share_step\<^sup>*\<^sup>* s u" "tasks u = rest" "stopped u = stopped s" "listening (share u) = listening (share s)"
    using task_leaves [of s d p rest] add(2) x by auto
  obtain t where "share_step\<^sup>*\<^sup>* u t" "tasks t = {#}" "stopped t = stopped u" "listening (share t) = listening (share u)"
    using add(1) [of u] u(2) by auto
  then show ?case using u by (meson rtranclp_trans)
qed


fun fail_at :: "((IpAddr \<times> Failures) list \<Rightarrow> (IpAddr \<times> Failures) list) \<Rightarrow> IpAddr \<Rightarrow> nat list \<Rightarrow> SignInLimiter \<Rightarrow> SignInLimiter" where
  "fail_at iter d [] l = l"
| "fail_at iter d (t # ts) l = fail_at iter d ts (limiter_failed iter d t l)"

fun close_together :: "nat list \<Rightarrow> bool" where
  "close_together (a # b # r) = (a \<le> b \<and> b - a < WINDOW \<and> close_together (b # r))"
| "close_together _ = True"

lemma length_entry_set_known: "k \<in> fst ` set xs \<Longrightarrow> length (entry_set k v xs) = length xs"
  by (induction k v xs rule: entry_set.induct) auto

lemma map_of_entry_set: "map_of (entry_set k v xs) k = Some v"
  by (induction k v xs rule: entry_set.induct) auto

definition room_for :: "IpAddr \<Rightarrow> SignInLimiter \<Rightarrow> bool" where
  "room_for d l \<longleftrightarrow> length (l_devices l) < MAX_TRACKED \<or> length (l_devices l) = MAX_TRACKED \<and> d \<in> fst ` set (l_devices l)"

lemma failed_known:
  assumes "room_for d l"
  shows "map_of (l_devices (limiter_failed iter d t l)) d
      = Some \<lparr>f_count = (failures_of d (forget_before t l) + 1) mod 2 ^ 32, f_last = t\<rparr>"
    and "room_for d (limiter_failed iter d t l)"
proof -
  let ?l = "forget_before t l"
  define ds where "ds = entry_set d \<lparr>f_count = (failures_of d ?l + 1) mod 2 ^ 32, f_last = t\<rparr> (l_devices ?l)"
  have "length ds \<le> MAX_TRACKED"
  proof (cases "d \<in> fst ` set (l_devices ?l)")
    case True
    then have "length ds = length (l_devices ?l)" by (simp add: ds_def length_entry_set_known)
    also have "\<dots> \<le> length (l_devices l)" by (simp add: forget_before_def)
    finally show ?thesis using assms by (auto simp: room_for_def)
  next
    case False
    have "length (l_devices ?l) < MAX_TRACKED"
    proof (cases "length (l_devices l) < MAX_TRACKED")
      case True
      then show ?thesis by (simp add: forget_before_def le_less_trans [OF length_filter_le])
    next
      case full: False
      then obtain f where f: "(d, f) \<in> set (l_devices l)" "length (l_devices l) = MAX_TRACKED" using assms by (auto simp: room_for_def)
      then have "\<not> t - f_last f < WINDOW" using False by (force simp: forget_before_def)
      then show ?thesis
        using f length_filter_less [of "(d, f)" "l_devices l" "\<lambda>(d, f). t - f_last f < WINDOW"] by (simp add: forget_before_def)
    qed
    then show ?thesis unfolding ds_def by (intro le_trans [OF length_entry_set]) simp
  qed
  then have new: "l_devices (limiter_failed iter d t l) = ds"
    by (auto simp: limiter_failed_def Let_def ds_def failures_of_def split: option.splits)
  show "map_of (l_devices (limiter_failed iter d t l)) d
      = Some \<lparr>f_count = (failures_of d (forget_before t l) + 1) mod 2 ^ 32, f_last = t\<rparr>"
    unfolding new by (simp add: ds_def map_of_entry_set)
  have "d \<in> fst ` set ds" by (simp add: ds_def keys_entry_set [simplified])
  then show "room_for d (limiter_failed iter d t l)" using \<open>length ds \<le> MAX_TRACKED\<close> by (auto simp: room_for_def new)
qed

lemma forget_keeps:
  assumes "distinct (map fst (l_devices l))" "map_of (l_devices l) d = Some f" "t - f_last f < WINDOW"
  shows "map_of (l_devices (forget_before t l)) d = Some f"
proof -
  have "(d, f) \<in> set (l_devices (forget_before t l))" using map_of_SomeD [OF assms(2)] assms(3) by (simp add: forget_before_def)
  then show ?thesis using assms(1) by (simp add: map_of_is_SomeI forget_before_def distinct_filter_keys)
qed

lemma fail_at_counts:
  assumes "map_of (l_devices l) d = Some f" "room_for d l" "limiter_ok (f_last f) l" "\<And>xs. mset (iter xs) = mset xs"
    "close_together (f_last f # ts)" "f_count f + length ts < 2 ^ 32"
  shows "\<exists>g. map_of (l_devices (fail_at iter d ts l)) d = Some g \<and> f_count g = f_count f + length ts
    \<and> f_last g = last (f_last f # ts) \<and> limiter_ok (f_last g) (fail_at iter d ts l)"
  using assms(1-3,5,6)
proof (induction ts arbitrary: l f)
  case (Cons t ts)
  define l' where "l' = limiter_failed iter d t l"
  define f' where "f' = \<lparr>f_count = f_count f + 1, f_last = t\<rparr>"
  have t: "f_last f \<le> t" "t - f_last f < WINDOW" "close_together (t # ts)" using Cons.prems(4) by auto
  have ok: "limiter_ok t l" using Cons.prems(3) t(1) limiter_ok_mono by blast
  have "failures_of d (forget_before t l) = f_count f"
    using forget_keeps [of l d f t] Cons.prems(1) ok t(2) by (simp add: failures_of_def limiter_ok_def)
  then have f': "map_of (l_devices l') d = Some f'"
    using failed_known(1) [OF Cons.prems(2), of iter t] Cons.prems(5) by (simp add: l'_def f'_def)
  have "\<exists>g. map_of (l_devices (fail_at iter d ts l')) d = Some g \<and> f_count g = f_count f' + length ts
      \<and> f_last g = last (f_last f' # ts) \<and> limiter_ok (f_last g) (fail_at iter d ts l')"
    using f' failed_known(2) [OF Cons.prems(2), of iter t] limiter_ok_failed [OF ok assms(4)] t(3) Cons.prems(5)
    by (intro Cons.IH) (simp_all add: l'_def f'_def)
  then show ?case by (simp add: l'_def f'_def)
qed simp

text \<open>
  C38: five wrong passwords lock a device out. When a device gets the password wrong five
  times or more with less than a minute between one try and the next, and the share had
  room to track it, then for a minute after the last try its connections are turned
  away, signed in or not.
\<close>

theorem five_failures_lock_out:
  assumes "limiter_ok (hd ts) l" "room_for d l" "\<And>xs. mset (iter xs) = mset xs" "failures_of d l \<le> 260"
    and "MAX_FAILURES \<le> length ts" "length ts \<le> 1000000" "close_together ts" "last ts \<le> now" "now < last ts + WINDOW"
  shows "snd (turns_away d is_in now (fail_at iter d ts l))"
proof -
  obtain t r where ts: "ts = t # r" using assms(5) by (cases ts) (auto simp: MAX_FAILURES_def)
  define l' where "l' = limiter_failed iter d t l"
  have le: "failures_of d (forget_before t l) \<le> 260"
  proof (cases "map_of (l_devices (forget_before t l)) d")
    case (Some f)
    then have "(d, f) \<in> set (l_devices l)" using map_of_SomeD [OF Some] by (auto simp: forget_before_def)
    then have "map_of (l_devices l) d = Some f" using assms(1) by (simp add: limiter_ok_def map_of_is_SomeI)
    then show ?thesis using assms(4) Some by (simp add: failures_of_def)
  qed (simp add: failures_of_def)
  obtain f where f: "map_of (l_devices l') d = Some f" "1 \<le> f_count f" "f_count f \<le> 261" "f_last f = t"
    using failed_known(1) [OF assms(2), of iter t] le by (simp add: l'_def)
  obtain g where g: "map_of (l_devices (fail_at iter d r l')) d = Some g" "f_count g = f_count f + length r"
      "f_last g = last (t # r)" "limiter_ok (f_last g) (fail_at iter d r l')"
    using fail_at_counts [of l' d f iter r] f assms(3,6,7) failed_known(2) [OF assms(2), of iter t]
      limiter_ok_failed [of t l iter d] assms(1,3) by (auto simp: l'_def ts)
  have "map_of (l_devices (forget_before now (fail_at iter d r l'))) d = Some g"
    using g assms(8,9) by (intro forget_keeps) (auto simp: ts limiter_ok_def)
  moreover have "MAX_FAILURES \<le> f_count g" using g(2) f(2) assms(5) by (simp add: ts)
  ultimately show ?thesis by (simp add: turns_away_def ts l'_def)
qed

theorem five_failures_lock_out_witness:
  "snd (turns_away (V4 7) True 100 (fail_at (\<lambda>xs. xs) (V4 7) [10, 20, 30, 40, 50] limiter_default))"
  by (rule five_failures_lock_out)
    (simp_all add: limiter_ok_def limiter_default_def room_for_def failures_of_def MAX_FAILURES_def WINDOW_def MAX_TRACKED_def)

definition stopped_system :: ShareSystem where
  "stopped_system = sample_system\<lparr>stopped := True\<rparr>"


subsection \<open>What is served\<close>

text \<open>What shows that a device signed in: the SOCKS message, or the decoded header.\<close>

definition presented_password :: "(rstr \<Rightarrow> u8 list option) \<Rightarrow> Credentials \<Rightarrow> u8 \<Rightarrow> u8 list list \<Rightarrow> bool" where
  "presented_password b64 c b chunks \<longleftrightarrow>
     (\<exists>methods rest. b = SOCKS_VERSION \<and> concat chunks = field methods @ sign_in_message c @ rest)
   \<or> (\<exists>head rest r. read_head chunks [b] = Ok (head, rest) \<and> parse_request b64 head = Ok r
        \<and> authorization r = Some (str_as_bytes (username c), str_as_bytes (password c)))"

lemma negotiate_presented:
  "negotiate c ok s = (w, Ok (target, r)) \<Longrightarrow> \<exists>methods rest. s = field methods @ sign_in_message c @ rest"
  by (auto simp: negotiate_def socks_methods_Ok socks_sign_in_Ok split: prod.splits sum.splits)

lemma authorize_Ok: "authorize r c = Ok u \<longleftrightarrow> authorization r = Some (str_as_bytes (username c), str_as_bytes (password c))"
  by (auto simp: authorize_def credentials_match_def split: option.splits if_splits)

lemma dial_public:
  assumes "dial given_up egress target = (tried, result)"
  shows "\<forall>(a, q) \<in> set tried. public_address a \<or> stand_in (synthetic_range egress) a"
proof -
  obtain t r where run: "dial_attempt egress target = (t, r)" by (cases "dial_attempt egress target")
  then show ?thesis
    using assms dial_attempt_tries [OF run] by (cases given_up) (auto simp: dial_def dest!: in_set_takeD)
qed


definition sample_credentials :: Credentials where
  "sample_credentials = \<lparr>username = lit ''ket'', password = lit ''pw''\<rparr>"

lemma sample_served:
  "serve (\<lambda>t. None) sample_credentials sample_egress True (\<lambda>_. True) None True True [] (Some 5)
     [[1, 2], sign_in_message sample_credentials, [5, 1, 0, 1, 9, 9, 9, 9, 0, 80]]
   = SignedInServed [(V4 (ipv4_of 9 9 9 9), 80)] [[5, 2], [1, 0], socks_reply Succeeded] True"
proof -
  have request: "socks_request [5, 1, 0, 1, 9, 9, 9, 9, 0, 80]
      = ([], Ok (\<lparr>target_host = Address (V4 (ipv4_of 9 9 9 9)), target_port = 80\<rparr>, []))"
    by (simp add: socks_request_def read_exact_def SOCKS_VERSION_def SOCKS_CONNECT_def socks_host_def SOCKS_IPV4_def
        from_be_bytes_def ipv4_of_def)
  have fits: "fits_field (username sample_credentials)" "fits_field (password sample_credentials)"
    by (simp_all add: sample_credentials_def fits_field_def lit_def str_len_def utf8_width_def)
  have "socks_methods True ([1, 2] @ r) = ([[SOCKS_VERSION, PASSWORD_METHOD]], Ok r)" for r
    by (simp add: socks_methods_def read_u8_def read_exact_def PASSWORD_METHOD_def)
  moreover have "socks_sign_in sample_credentials True (sign_in_message sample_credentials @ r) = ([[PASSWORD_VERSION, 0]], Ok r)" for r
    using fits by (simp add: socks_sign_in_Ok)
  ultimately have "negotiate sample_credentials (\<lambda>_. True) ([1, 2] @ sign_in_message sample_credentials @ [5, 1, 0, 1, 9, 9, 9, 9, 0, 80])
      = ([[5, 2], [1, 0]], Ok (\<lparr>target_host = Address (V4 (ipv4_of 9 9 9 9)), target_port = 80\<rparr>, []))"
    using request by (simp add: negotiate_def SOCKS_VERSION_def PASSWORD_METHOD_def PASSWORD_VERSION_def)
  moreover have "\<not> special_ipv4 (ipv4_of 9 9 9 9)" by (simp add: special_ipv4_def ipv4_octet_def ipv4_of_def)
  then have "dial None sample_egress \<lparr>target_host = Address (V4 (ipv4_of 9 9 9 9)), target_port = 80\<rparr>
      = ([(V4 (ipv4_of 9 9 9 9), 80)], Ok 5)"
    by (simp add: dial_def dial_attempt_def dial_addresses_def sample_egress_def allowed_iff public_address_def MAX_ADDRESSES_TRIED_def)
  ultimately show ?thesis by (simp add: serve_def serve_socks_def SOCKS_VERSION_def)
qed


end
