(* ===== verification/Client_Contract.thy ===== *)
theory Client_Contract
  imports Complex_Main Model Update_Policy Cbor
begin

text \<open>
  What a client and a server tell each other (\<open>contract.rs\<close> of crates/ket-core), the
  client's errors (\<open>error.rs\<close> of crates/ket-client-core) and the checks a client makes of
  everything a server sends it (\<open>validation.rs\<close>). Parsing a URL is an argument. A float
  is a finite number, an infinity or not a number, which is all the checks look at.
\<close>

subsection \<open>The session documents\<close>

datatype float_value = Finite rat | Infinite bool | NotANumber

record NodeLocation =
  loc_country_code :: rstr
  loc_country_name :: rstr
  loc_city :: "rstr option"
  loc_latitude :: float_value
  loc_longitude :: float_value

datatype Network = Tcp | Udp | TcpAndUdp

record TransportProfile =
  prof_id :: rstr
  prof_display_name :: rstr
  prof_protocol :: TransportProtocol
  prof_endpoint :: rstr
  prof_port :: nat
  prof_network :: Network
  prof_priority :: nat
  prof_tls_server_name :: "rstr option"
  prof_options :: "(rstr \<times> rstr) list"

datatype HealthState = Healthy | Degraded | Saturated

record NodeStatus =
  node_id :: rstr
  node_display_name :: rstr
  node_public_url :: rstr
  node_location :: NodeLocation
  node_health :: HealthState
  node_active_sessions :: nat
  node_session_capacity :: nat
  node_capacity_percent :: float_value
  node_cpu_load_percent :: "float_value option"
  node_memory_used_bytes :: "nat option"
  node_memory_total_bytes :: "nat option"
  node_uptime_seconds :: "nat option"
  node_observed_at :: nat

record TransportCredential =
  cred_auth :: rstr
  cred_secrets :: "(rstr \<times> rstr) list"

record SessionTransport =
  tr_profile :: TransportProfile
  tr_credential :: "TransportCredential option"

record SessionManifest =
  man_session_token :: rstr
  man_session_expires_at :: nat
  man_access_expires_at :: "nat option"
  man_node :: NodeStatus
  man_transports :: "SessionTransport list"
  man_updates :: "UpdateAdvice option"

record SessionTraffic =
  traffic_available :: bool
  traffic_bytes_sent :: nat
  traffic_bytes_received :: nat
  traffic_online_connections :: nat
  traffic_observed_at :: nat

record SessionStatus =
  st_session_id :: rstr
  st_client_name :: rstr
  st_expires_at :: nat
  st_access_expires_at :: "nat option"
  st_node :: NodeStatus
  st_traffic :: SessionTraffic
  st_updates :: "UpdateAdvice option"
  st_allowance :: "AllowanceStatus option"

subsection \<open>Client errors\<close>

record ClientIssue =
  issue_code :: rstr
  issue_message :: rstr
  issue_retryable :: bool

datatype ClientError = InvalidEndpoint rstr | InvalidClientInput rstr | NotEnrolled | AlreadyConnected
  | Api nat rstr rstr | NetworkError rstr | ResponseTooLarge | InvalidResponse rstr | NoCompatibleTransport
  | PreferredProtocolUnavailable rstr | DnsResolution rstr rstr | TransportError rstr rstr bool | Local rstr
  | InviteFailed CapsuleError | NodeMismatch | SealedControlUnavailable | UpdateRequired ClientUpdate

definition CLIENT_UPDATE_REQUIRED_CODE :: rstr where
  "CLIENT_UPDATE_REQUIRED_CODE = lit ''client_update_required''"

fun capsule_message :: "CapsuleError \<Rightarrow> rstr" where
  "capsule_message Invalid = lit ''invalid invite''"
| "capsule_message TooLarge = lit ''invite is too large''"
| "capsule_message UnsupportedVersion = lit ''unsupported invite version''"
| "capsule_message WrongApplication = lit ''invite belongs to another application''"
| "capsule_message UnsupportedCapability = lit ''unsupported invite capability''"
| "capsule_message InvalidSignature = lit ''invite signature is invalid''"
| "capsule_message Expired = lit ''invite has expired''"
| "capsule_message UnsupportedLocator = lit ''unsupported node locator''"
| "capsule_message UnsafeLocator = lit ''unsafe node locator''"
| "capsule_message InvalidNodeKey = lit ''invalid node key''"
| "capsule_message NodeIdentityMismatch = lit ''node identity does not match the invite''"
| "capsule_message InvalidChecksum = lit ''invite checksum is invalid''"

fun client_error_text :: "ClientError \<Rightarrow> rstr" where
  "client_error_text (InvalidEndpoint m) = lit ''the server address is not valid: '' @ m"
| "client_error_text (InvalidClientInput m) = lit ''input is invalid: '' @ m"
| "client_error_text NotEnrolled = lit ''this device has not joined a server yet''"
| "client_error_text AlreadyConnected = lit ''Ket is already connected''"
| "client_error_text (Api status code message) = lit ''the server refused the request ('' @ code @ lit '')''"
| "client_error_text (NetworkError m) = lit ''Ket could not reach the server: '' @ m"
| "client_error_text ResponseTooLarge = lit ''the server sent a reply that was too large''"
| "client_error_text (InvalidResponse m) = lit ''the server sent a reply Ket could not read: '' @ m"
| "client_error_text NoCompatibleTransport = lit ''none of the server's protocols can be used on this device''"
| "client_error_text (PreferredProtocolUnavailable p) =
     p @ lit '' is not available for this invite; choose Automatic or another protocol''"
| "client_error_text (DnsResolution t m) =
     lit ''transport '' @ t @ lit '': could not look up the server's address ('' @ m @ lit '')''"
| "client_error_text (TransportError t m r) = lit ''transport '' @ t @ lit '' failed: '' @ m"
| "client_error_text (Local m) = lit ''something went wrong on this device: '' @ m"
| "client_error_text (InviteFailed e) = lit ''the invite cannot be used: '' @ capsule_message e"
| "client_error_text NodeMismatch = lit ''the server could not prove it is the node named in the invite''"
| "client_error_text SealedControlUnavailable =
     lit ''the server did not accept an encrypted request; it may need an update''"
| "client_error_text (UpdateRequired u) = lit ''this server requires a newer version of Ket''"

fun is_unauthorized :: "ClientError \<Rightarrow> bool" where
  "is_unauthorized (Api status code message) \<longleftrightarrow> status = 401 \<or> status = 404"
| "is_unauthorized _ \<longleftrightarrow> False"

fun required_update :: "ClientError \<Rightarrow> ClientUpdate option" where
  "required_update (UpdateRequired update) = Some update"
| "required_update _ = None"

definition ends_session :: "ClientError \<Rightarrow> bool" where
  "ends_session e \<longleftrightarrow> is_unauthorized e \<or> required_update e \<noteq> None"

definition new_issue :: "rstr \<Rightarrow> ClientError \<Rightarrow> bool \<Rightarrow> ClientIssue" where
  "new_issue code e retryable = \<lparr>issue_code = code, issue_message = client_error_text e, issue_retryable = retryable\<rparr>"

definition issue :: "ClientError \<Rightarrow> ClientIssue" where
  "issue e = (case e of
     InvalidEndpoint _ \<Rightarrow> new_issue (lit ''invalid_endpoint'') e False
   | InvalidClientInput _ \<Rightarrow> new_issue (lit ''invalid_input'') e False
   | NotEnrolled \<Rightarrow> new_issue (lit ''not_enrolled'') e False
   | AlreadyConnected \<Rightarrow> new_issue (lit ''already_connected'') e False
   | Api status code message \<Rightarrow>
       \<lparr>issue_code = code, issue_message = message, issue_retryable = (status \<ge> 500 \<or> status = 429)\<rparr>
   | NetworkError _ \<Rightarrow> new_issue (lit ''network_unavailable'') e True
   | ResponseTooLarge \<Rightarrow> new_issue (lit ''response_too_large'') e False
   | InvalidResponse _ \<Rightarrow> new_issue (lit ''invalid_server_response'') e False
   | NoCompatibleTransport \<Rightarrow> new_issue (lit ''no_compatible_transport'') e False
   | PreferredProtocolUnavailable _ \<Rightarrow> new_issue (lit ''preferred_protocol_unavailable'') e False
   | DnsResolution _ message \<Rightarrow>
       \<lparr>issue_code = lit ''transport_dns_failed'',
        issue_message = lit ''could not look up the server's address ('' @ message @ lit '')'', issue_retryable = True\<rparr>
   | TransportError _ message retryable \<Rightarrow>
       \<lparr>issue_code = lit ''transport_failed'', issue_message = message, issue_retryable = retryable\<rparr>
   | Local _ \<Rightarrow> new_issue (lit ''local_failure'') e False
   | InviteFailed error \<Rightarrow> new_issue (error_code error) e False
   | NodeMismatch \<Rightarrow> new_issue (lit ''node_identity_mismatch'') e False
   | SealedControlUnavailable \<Rightarrow> new_issue (lit ''sealed_control_unavailable'') e False
   | UpdateRequired _ \<Rightarrow> new_issue CLIENT_UPDATE_REQUIRED_CODE e False)"

fun is_dns_resolution_failure :: "ClientError \<Rightarrow> bool" where
  "is_dns_resolution_failure (DnsResolution t m) \<longleftrightarrow> True"
| "is_dns_resolution_failure _ \<longleftrightarrow> False"

subsection \<open>Checks\<close>

text \<open>A sequence of checks, each ending the function with its error.\<close>

fun run_checks :: "('e + unit) list \<Rightarrow> 'e + unit" where
  "run_checks [] = Ok ()"
| "run_checks (c # cs) = (case c of Err e \<Rightarrow> Err e | Ok _ \<Rightarrow> run_checks cs)"

definition reject_if :: "bool \<Rightarrow> 'e \<Rightarrow> 'e + unit" where
  "reject_if bad e = (if bad then Err e else Ok ())"

definition MAX_NODE_TEXT_CHARS :: nat where "MAX_NODE_TEXT_CHARS = 128"
definition MAX_PUBLIC_URL_CHARS :: nat where "MAX_PUBLIC_URL_CHARS = 2048"
definition MAX_TRANSPORTS :: nat where "MAX_TRANSPORTS = 32"
definition MAX_TRANSPORT_ID_CHARS :: nat where "MAX_TRANSPORT_ID_CHARS = 128"
definition MAX_ENDPOINT_CHARS :: nat where "MAX_ENDPOINT_CHARS = 253"
definition MAX_OPTION_ENTRIES :: nat where "MAX_OPTION_ENTRIES = 32"
definition MAX_OPTION_KEY_CHARS :: nat where "MAX_OPTION_KEY_CHARS = 64"
definition MAX_OPTION_VALUE_CHARS :: nat where "MAX_OPTION_VALUE_CHARS = 2048"
definition MAX_SECRET_ENTRIES :: nat where "MAX_SECRET_ENTRIES = 16"
definition MAX_SECRET_CHARS :: nat where "MAX_SECRET_CHARS = 4096"
definition MAX_OPENVPN_ENCODED_MATERIAL_CHARS :: nat where
  "MAX_OPENVPN_ENCODED_MATERIAL_CHARS = (8 * 1024 + 2) div 3 * 4"

lemmas client_limits = MAX_NODE_TEXT_CHARS_def MAX_PUBLIC_URL_CHARS_def MAX_TRANSPORTS_def
  MAX_TRANSPORT_ID_CHARS_def MAX_ENDPOINT_CHARS_def MAX_OPTION_ENTRIES_def MAX_OPTION_KEY_CHARS_def
  MAX_OPTION_VALUE_CHARS_def MAX_SECRET_ENTRIES_def MAX_SECRET_CHARS_def MAX_OPENVPN_ENCODED_MATERIAL_CHARS_def

definition validate_future_expiry :: "nat \<Rightarrow> nat \<Rightarrow> ClientError + unit" where
  "validate_future_expiry expires_at now =
     reject_if (expires_at \<le> now) (InvalidResponse (lit ''session lease is already expired''))"

definition validate_access_expiry :: "nat option \<Rightarrow> nat \<Rightarrow> nat \<Rightarrow> ClientError + unit" where
  "validate_access_expiry access session_expiry now = (case access of None \<Rightarrow> Ok () | Some access_expiry \<Rightarrow> run_checks [
     validate_future_expiry access_expiry now,
     reject_if (session_expiry > access_expiry) (InvalidResponse (lit ''session lease outlives access time''))])"

definition validate_endpoint_name :: "rstr \<Rightarrow> rstr \<Rightarrow> ClientError + unit" where
  "validate_endpoint_name value label = reject_if
     (value = [] \<or> str_len value > MAX_ENDPOINT_CHARS \<or> value \<noteq> trim value
       \<or> list_ex (\<lambda>c. is_control c \<or> is_whitespace c) value) (InvalidResponse label)"

text \<open>\<open>contains("://")\<close> and the other three tests of one character.\<close>

definition contains_scheme :: "rstr \<Rightarrow> bool" where
  "contains_scheme value \<longleftrightarrow> list_ex (\<lambda>i. take 3 (drop i value) = lit ''://'') [0..<length value]"

definition validate_endpoint :: "rstr \<Rightarrow> ClientError + unit" where
  "validate_endpoint value = run_checks [
     validate_endpoint_name value (lit ''transport endpoint''),
     reject_if (contains_scheme value \<or> 47 \<in> set value \<or> 63 \<in> set value \<or> 35 \<in> set value)
       (InvalidResponse (lit ''transport endpoint is invalid''))]"

definition validate_identifier :: "rstr \<Rightarrow> rstr \<Rightarrow> nat \<Rightarrow> ClientError + unit" where
  "validate_identifier value label maximum_chars = reject_if
     (value = [] \<or> length value > maximum_chars
       \<or> \<not> list_all (\<lambda>c. is_alnum c \<or> c = 45 \<or> c = 95 \<or> c = 46) value) (InvalidResponse label)"

definition validate_text :: "rstr \<Rightarrow> rstr \<Rightarrow> nat \<Rightarrow> ClientError + unit" where
  "validate_text value label maximum_chars = reject_if
     (value = [] \<or> value \<noteq> trim value \<or> length value > maximum_chars \<or> list_ex is_control value) (InvalidResponse label)"

definition validate_option_key :: "rstr \<Rightarrow> rstr \<Rightarrow> ClientError + unit" where
  "validate_option_key value label = reject_if
     (value = [] \<or> str_len value > MAX_OPTION_KEY_CHARS
       \<or> \<not> list_all (\<lambda>c. is_lower c \<or> is_digit c \<or> c = 95) value) (InvalidResponse label)"

definition validate_bounded_value :: "rstr \<Rightarrow> rstr \<Rightarrow> nat \<Rightarrow> ClientError + unit" where
  "validate_bounded_value value label maximum_chars =
     reject_if (length value > maximum_chars \<or> list_ex is_control value) (InvalidResponse label)"

definition validate_bounded_secret :: "rstr \<Rightarrow> rstr \<Rightarrow> nat \<Rightarrow> ClientError + unit" where
  "validate_bounded_secret value label maximum_chars =
     reject_if (value = [] \<or> length value > maximum_chars \<or> list_ex is_control value) (InvalidResponse label)"

definition validate_public_url :: "(rstr \<Rightarrow> parsed_url option) \<Rightarrow> rstr \<Rightarrow> ClientError + unit" where
  "validate_public_url url_parse value = run_checks [
     validate_text value (lit ''node public URL'') MAX_PUBLIC_URL_CHARS,
     (case url_parse value of
        None \<Rightarrow> Err (InvalidResponse (lit ''node public URL is invalid''))
      | Some url \<Rightarrow> reject_if
          (\<not> (url_scheme url = lit ''http'' \<or> url_scheme url = lit ''https'') \<or> url_host_str url = None
            \<or> url_username url \<noteq> [] \<or> url_password url \<noteq> None \<or> url_query url \<noteq> None \<or> url_fragment url \<noteq> None)
          (InvalidResponse (lit ''node public URL is invalid'')))]"

text \<open>\<open>is_finite()\<close> and membership in a range of floats.\<close>

fun finite_within :: "rat \<Rightarrow> rat \<Rightarrow> float_value \<Rightarrow> bool" where
  "finite_within lo hi (Finite x) \<longleftrightarrow> lo \<le> x \<and> x \<le> hi"
| "finite_within lo hi (Infinite negative) \<longleftrightarrow> False"
| "finite_within lo hi NotANumber \<longleftrightarrow> False"

definition validate_location :: "NodeLocation \<Rightarrow> ClientError + unit" where
  "validate_location location = run_checks [
     reject_if (str_len (loc_country_code location) \<noteq> 2 \<or> \<not> list_all is_upper (loc_country_code location))
       (InvalidResponse (lit ''node country code is invalid'')),
     validate_text (loc_country_name location) (lit ''node country name'') MAX_NODE_TEXT_CHARS,
     (case loc_city location of None \<Rightarrow> Ok () | Some city \<Rightarrow> validate_text city (lit ''node city'') MAX_NODE_TEXT_CHARS),
     reject_if (\<not> finite_within (- 90) 90 (loc_latitude location)) (InvalidResponse (lit ''node latitude is invalid'')),
     reject_if (\<not> finite_within (- 180) 180 (loc_longitude location)) (InvalidResponse (lit ''node longitude is invalid''))]"

definition memory_consistent :: "nat option \<Rightarrow> nat option \<Rightarrow> bool" where
  "memory_consistent used total_bytes \<longleftrightarrow> (case (used, total_bytes) of
     (None, None) \<Rightarrow> True
   | (Some u, Some t) \<Rightarrow> t > 0 \<and> u \<le> t
   | _ \<Rightarrow> False)"

definition validate_node :: "(rstr \<Rightarrow> parsed_url option) \<Rightarrow> NodeStatus \<Rightarrow> ClientError + unit" where
  "validate_node url_parse node = run_checks [
     validate_identifier (node_id node) (lit ''node ID'') MAX_NODE_TEXT_CHARS,
     validate_text (node_display_name node) (lit ''node display name'') MAX_NODE_TEXT_CHARS,
     validate_public_url url_parse (node_public_url node),
     validate_location (node_location node),
     reject_if (node_session_capacity node = 0 \<or> node_active_sessions node > node_session_capacity node)
       (InvalidResponse (lit ''node session capacity is invalid'')),
     reject_if (\<not> finite_within 0 100 (node_capacity_percent node)) (InvalidResponse (lit ''node capacity percent is invalid'')),
     reject_if (case node_cpu_load_percent node of None \<Rightarrow> False | Some x \<Rightarrow> \<not> finite_within 0 100 x)
       (InvalidResponse (lit ''node CPU load is invalid'')),
     reject_if (\<not> memory_consistent (node_memory_used_bytes node) (node_memory_total_bytes node))
       (InvalidResponse (lit ''node memory telemetry is invalid'')),
     reject_if (node_observed_at node = 0) (InvalidResponse (lit ''node observation time is invalid''))]"

definition validate_traffic :: "SessionTraffic \<Rightarrow> ClientError + unit" where
  "validate_traffic traffic = run_checks [
     reject_if (traffic_observed_at traffic = 0) (InvalidResponse (lit ''traffic observation time is invalid'')),
     reject_if (\<not> traffic_available traffic \<and> (traffic_bytes_sent traffic \<noteq> 0 \<or> traffic_bytes_received traffic \<noteq> 0
         \<or> traffic_online_connections traffic \<noteq> 0))
       (InvalidResponse (lit ''unavailable traffic telemetry is inconsistent''))]"

definition OPENVPN_MATERIAL :: "rstr list" where
  "OPENVPN_MATERIAL = [lit ''ca_certificate_pem_b64'', lit ''stunnel_ca_certificate_pem_b64'', lit ''tls_crypt_key_b64'']"

definition secret_limit :: "TransportProtocol \<Rightarrow> rstr \<Rightarrow> nat" where
  "secret_limit protocol key =
     (if protocol = OpenVpnStunnel \<and> key \<in> set OPENVPN_MATERIAL then MAX_OPENVPN_ENCODED_MATERIAL_CHARS else MAX_SECRET_CHARS)"

definition validate_credential :: "TransportProtocol \<Rightarrow> TransportCredential \<Rightarrow> ClientError + unit" where
  "validate_credential protocol credential = run_checks ([
     validate_bounded_secret (cred_auth credential) (lit ''transport credential'') MAX_SECRET_CHARS,
     reject_if (length (cred_secrets credential) > MAX_SECRET_ENTRIES)
       (InvalidResponse (lit ''transport credential contains too many secrets''))]
   @ concat (map (\<lambda>(key, value). [
       validate_option_key key (lit ''transport secret''),
       validate_bounded_secret value (lit ''transport secret value'') (secret_limit protocol key)]) (cred_secrets credential)))"

definition validate_transport :: "rstr set \<Rightarrow> SessionTransport \<Rightarrow> ClientError + unit" where
  "validate_transport ids transport = (let profile = tr_profile transport in run_checks ([
     validate_identifier (prof_id profile) (lit ''transport ID'') MAX_TRANSPORT_ID_CHARS,
     validate_text (prof_display_name profile) (lit ''transport display name'') MAX_NODE_TEXT_CHARS,
     validate_endpoint (prof_endpoint profile),
     reject_if (prof_port profile = 0 \<or> prof_id profile \<in> ids)
       (InvalidResponse (lit ''server advertised an invalid transport profile'')),
     (case prof_tls_server_name profile of None \<Rightarrow> Ok ()
      | Some server_name \<Rightarrow> validate_endpoint_name server_name (lit ''TLS server name'')),
     reject_if (length (prof_options profile) > MAX_OPTION_ENTRIES)
       (InvalidResponse (lit ''transport profile contains too many options''))]
   @ concat (map (\<lambda>(key, value). [
       validate_option_key key (lit ''transport option''),
       validate_bounded_value value (lit ''transport option value'') MAX_OPTION_VALUE_CHARS]) (prof_options profile))
   @ [case tr_credential transport of None \<Rightarrow> Ok () | Some credential \<Rightarrow> validate_credential (prof_protocol profile) credential]))"

fun validate_transports :: "rstr set \<Rightarrow> SessionTransport list \<Rightarrow> ClientError + unit" where
  "validate_transports ids [] = Ok ()"
| "validate_transports ids (transport # rest) = (case validate_transport ids transport of
     Err e \<Rightarrow> Err e
   | Ok _ \<Rightarrow> validate_transports (insert (prof_id (tr_profile transport)) ids) rest)"

definition validate_manifest :: "(rstr \<Rightarrow> parsed_url option) \<Rightarrow> SessionManifest \<Rightarrow> nat \<Rightarrow> ClientError + unit" where
  "validate_manifest url_parse manifest now = run_checks [
     (case split_session_token (man_session_token manifest) of
        Err _ \<Rightarrow> Err (InvalidResponse (lit ''session token has an invalid shape'')) | Ok _ \<Rightarrow> Ok ()),
     validate_future_expiry (man_session_expires_at manifest) now,
     validate_access_expiry (man_access_expires_at manifest) (man_session_expires_at manifest) now,
     validate_node url_parse (man_node manifest),
     reject_if (man_transports manifest = [] \<or> length (man_transports manifest) > MAX_TRANSPORTS)
       (InvalidResponse (lit ''server advertised an invalid transport count'')),
     validate_transports {} (man_transports manifest)]"

definition validate_status :: "(rstr \<Rightarrow> parsed_url option) \<Rightarrow> SessionStatus \<Rightarrow> rstr \<Rightarrow> rstr \<Rightarrow> nat \<Rightarrow> ClientError + unit" where
  "validate_status url_parse status token expected_client_name now = (case split_session_token token of
     Err _ \<Rightarrow> Err (InvalidResponse (lit ''saved session token has an invalid shape''))
   | Ok parts \<Rightarrow> run_checks [
       reject_if (st_session_id status \<noteq> part_id parts)
         (InvalidResponse (lit ''session status identity does not match enrollment'')),
       validate_text (st_client_name status) (lit ''session client name'') 96,
       reject_if (st_client_name status \<noteq> expected_client_name)
         (InvalidResponse (lit ''session status client name does not match enrollment'')),
       validate_future_expiry (st_expires_at status) now,
       validate_access_expiry (st_access_expires_at status) (st_expires_at status) now,
       validate_node url_parse (st_node status),
       validate_traffic (st_traffic status),
       reject_if (case st_allowance status of None \<Rightarrow> False | Some a \<Rightarrow> \<not> allowance_is_valid (status_allowance a))
         (InvalidResponse (lit ''data allowance is invalid''))])"

subsection \<open>What the checks accept\<close>

lemma run_checks_Ok [simp]: "run_checks cs = Ok () \<longleftrightarrow> list_all (\<lambda>c. c = Ok ()) cs"
  by (induction cs) (auto split: sum.splits)

lemma pair_checks_Ok [simp]:
  "list_all (\<lambda>c. c = Ok ()) (concat (map (\<lambda>(k, v). [f k v, g k v]) xs)) \<longleftrightarrow>
     (\<forall>(k, v) \<in> set xs. f k v = Ok () \<and> g k v = Ok ())"
  by (induction xs) auto

lemma reject_if_Ok [simp]: "reject_if bad e = Ok () \<longleftrightarrow> \<not> bad"
  by (simp add: reject_if_def)

definition clean_text :: "nat \<Rightarrow> rstr \<Rightarrow> bool" where
  "clean_text n s \<longleftrightarrow> s \<noteq> [] \<and> trim s = s \<and> length s \<le> n \<and> list_all (\<lambda>c. \<not> is_control c) s"

definition clean_name :: "nat \<Rightarrow> rstr \<Rightarrow> bool" where
  "clean_name n s \<longleftrightarrow> s \<noteq> [] \<and> length s \<le> n \<and> set s \<subseteq> {c. is_alnum c} \<union> {45, 95, 46}"

definition clean_key :: "rstr \<Rightarrow> bool" where
  "clean_key s \<longleftrightarrow> s \<noteq> [] \<and> length s \<le> 64 \<and> set s \<subseteq> {c. is_lower c \<or> is_digit c} \<union> {95}"

definition clean_host :: "rstr \<Rightarrow> bool" where
  "clean_host s \<longleftrightarrow> s \<noteq> [] \<and> str_len s \<le> 253 \<and> list_all (\<lambda>c. \<not> is_control c \<and> \<not> is_whitespace c) s"

definition lease_ok :: "nat \<Rightarrow> nat option \<Rightarrow> nat \<Rightarrow> bool" where
  "lease_ok now access lease \<longleftrightarrow> now < lease \<and> (\<forall>a. access = Some a \<longrightarrow> lease \<le> a)"

lemma validate_text_Ok [simp]: "validate_text s l n = Ok () \<longleftrightarrow> clean_text n s"
  by (auto simp: validate_text_def clean_text_def list_all_iff list_ex_iff)

lemma validate_identifier_Ok [simp]: "validate_identifier s l n = Ok () \<longleftrightarrow> clean_name n s"
  by (auto simp: validate_identifier_def clean_name_def list_all_iff)

lemma str_len_key: "list_all (\<lambda>c. is_lower c \<or> is_digit c \<or> c = 95) s \<Longrightarrow> str_len s = length s"
  by (rule str_len_ascii) (auto simp: list_all_iff char_class_defs)

lemma validate_option_key_Ok [simp]: "validate_option_key s l = Ok () \<longleftrightarrow> clean_key s"
proof -
  have "validate_option_key s l = Ok () \<longleftrightarrow>
      s \<noteq> [] \<and> str_len s \<le> 64 \<and> list_all (\<lambda>c. is_lower c \<or> is_digit c \<or> c = 95) s"
    by (auto simp: validate_option_key_def client_limits)
  also have "\<dots> \<longleftrightarrow> s \<noteq> [] \<and> length s \<le> 64 \<and> list_all (\<lambda>c. is_lower c \<or> is_digit c \<or> c = 95) s"
    using str_len_key [of s] by metis
  also have "\<dots> \<longleftrightarrow> clean_key s"
    by (auto simp: clean_key_def list_all_iff)
  finally show ?thesis .
qed

lemma trim_without_whitespace: "list_all (\<lambda>c. \<not> is_whitespace c) s \<Longrightarrow> trim s = s"
  using trim_id_iff [of s] by (auto simp: list_all_iff)

lemma validate_endpoint_name_Ok [simp]: "validate_endpoint_name s l = Ok () \<longleftrightarrow> clean_host s"
proof -
  have "validate_endpoint_name s l = Ok () \<longleftrightarrow> clean_host s \<and> trim s = s"
    by (auto simp: validate_endpoint_name_def clean_host_def client_limits list_all_iff list_ex_iff)
  moreover have "clean_host s \<Longrightarrow> trim s = s"
    by (rule trim_without_whitespace) (simp add: clean_host_def list_all_iff)
  ultimately show ?thesis by blast
qed

lemma contains_scheme_slash: "contains_scheme s \<Longrightarrow> 47 \<in> set s"
proof -
  assume "contains_scheme s"
  then obtain i where "take 3 (drop i s) = lit ''://''" by (auto simp: contains_scheme_def list_ex_iff)
  then have "47 \<in> set (take 3 (drop i s))" by (simp add: lit_def)
  then show ?thesis by (meson in_set_dropD in_set_takeD)
qed

lemma validate_endpoint_Ok [simp]: "validate_endpoint s = Ok () \<longleftrightarrow> clean_host s \<and> set s \<inter> {35, 47, 63} = {}"
  using contains_scheme_slash [of s] by (auto simp: validate_endpoint_def)

lemma validate_access_expiry_Ok:
  "validate_future_expiry lease now = Ok () \<and> validate_access_expiry access lease now = Ok () \<longleftrightarrow> lease_ok now access lease"
  by (auto simp: validate_future_expiry_def validate_access_expiry_def lease_ok_def split: option.splits)

definition credential_ok :: "TransportProtocol \<Rightarrow> TransportCredential \<Rightarrow> bool" where
  "credential_ok protocol c \<longleftrightarrow> 1 \<le> length (cred_auth c) \<and> length (cred_auth c) \<le> 4096
     \<and> list_all (\<lambda>x. \<not> is_control x) (cred_auth c) \<and> length (cred_secrets c) \<le> 16
     \<and> (\<forall>(k, v) \<in> set (cred_secrets c). clean_key k \<and> 1 \<le> length v \<and> length v \<le> secret_limit protocol k
          \<and> list_all (\<lambda>x. \<not> is_control x) v)"

definition transport_ok :: "SessionTransport \<Rightarrow> bool" where
  "transport_ok t \<longleftrightarrow> (let p = tr_profile t in
     clean_name 128 (prof_id p) \<and> clean_text 128 (prof_display_name p) \<and> clean_host (prof_endpoint p)
     \<and> set (prof_endpoint p) \<inter> {35, 47, 63} = {} \<and> prof_port p \<noteq> 0
     \<and> (\<forall>n. prof_tls_server_name p = Some n \<longrightarrow> clean_host n)
     \<and> length (prof_options p) \<le> 32
     \<and> (\<forall>(k, v) \<in> set (prof_options p). clean_key k \<and> length v \<le> 2048 \<and> list_all (\<lambda>x. \<not> is_control x) v)
     \<and> (\<forall>c. tr_credential t = Some c \<longrightarrow> credential_ok (prof_protocol p) c))"

lemma no_control: "\<not> list_ex is_control s \<longleftrightarrow> list_all (\<lambda>x. \<not> is_control x) s"
  by (auto simp: list_all_iff list_ex_iff)

lemma nonempty_length: "xs \<noteq> [] \<longleftrightarrow> Suc 0 \<le> length xs"
  by (cases xs) auto

lemma validate_credential_Ok [simp]: "validate_credential p c = Ok () \<longleftrightarrow> credential_ok p c"
  by (auto simp: validate_credential_def credential_ok_def validate_bounded_secret_def client_limits no_control
      nonempty_length)

lemma validate_transport_Ok:
  "validate_transport ids t = Ok () \<longleftrightarrow> transport_ok t \<and> prof_id (tr_profile t) \<notin> ids"
  by (auto simp: validate_transport_def transport_ok_def validate_bounded_value_def client_limits no_control Let_def
      split: option.splits)

lemma validate_transports_Ok:
  "validate_transports ids ts = Ok () \<longleftrightarrow> list_all transport_ok ts
     \<and> distinct (map (prof_id \<circ> tr_profile) ts) \<and> set (map (prof_id \<circ> tr_profile) ts) \<inter> ids = {}"
proof (induction ts arbitrary: ids)
  case (Cons t ts)
  have "validate_transports ids (t # ts) = Ok () \<longleftrightarrow>
      validate_transport ids t = Ok () \<and> validate_transports (insert (prof_id (tr_profile t)) ids) ts = Ok ()"
    by (auto split: sum.splits)
  then show ?case by (auto simp: Cons.IH validate_transport_Ok)
qed simp

definition location_ok :: "NodeLocation \<Rightarrow> bool" where
  "location_ok l \<longleftrightarrow> length (loc_country_code l) = 2 \<and> list_all is_upper (loc_country_code l)
     \<and> clean_text 128 (loc_country_name l) \<and> (\<forall>c. loc_city l = Some c \<longrightarrow> clean_text 128 c)
     \<and> loc_latitude l \<in> Finite ` {- 90..90} \<and> loc_longitude l \<in> Finite ` {- 180..180}"

definition site_ok :: "parsed_url \<Rightarrow> bool" where
  "site_ok u \<longleftrightarrow> url_scheme u \<in> {lit ''http'', lit ''https''} \<and> url_host_str u \<noteq> None \<and> url_username u = []
     \<and> url_password u = None \<and> url_query u = None \<and> url_fragment u = None"

definition node_ok :: "(rstr \<Rightarrow> parsed_url option) \<Rightarrow> NodeStatus \<Rightarrow> bool" where
  "node_ok url_parse n \<longleftrightarrow> clean_name 128 (node_id n) \<and> clean_text 128 (node_display_name n)
     \<and> clean_text 2048 (node_public_url n) \<and> (\<exists>u. url_parse (node_public_url n) = Some u \<and> site_ok u)
     \<and> location_ok (node_location n)
     \<and> 0 < node_session_capacity n \<and> node_active_sessions n \<le> node_session_capacity n
     \<and> node_capacity_percent n \<in> Finite ` {0..100}
     \<and> (\<forall>x. node_cpu_load_percent n = Some x \<longrightarrow> x \<in> Finite ` {0..100})
     \<and> ((node_memory_used_bytes n = None \<and> node_memory_total_bytes n = None)
        \<or> (\<exists>u t. node_memory_used_bytes n = Some u \<and> node_memory_total_bytes n = Some t \<and> 0 < t \<and> u \<le> t))
     \<and> 0 < node_observed_at n"

lemma finite_within_iff [simp]: "finite_within lo hi x \<longleftrightarrow> x \<in> Finite ` {lo..hi}"
  by (cases x) auto

lemma str_len_upper: "list_all is_upper s \<Longrightarrow> str_len s = length s"
  by (rule str_len_ascii) (auto simp: list_all_iff char_class_defs)

lemma validate_location_Ok [simp]: "validate_location l = Ok () \<longleftrightarrow> location_ok l"
proof -
  have "validate_location l = Ok () \<longleftrightarrow> (str_len (loc_country_code l) = 2 \<and> list_all is_upper (loc_country_code l))
     \<and> clean_text 128 (loc_country_name l) \<and> (\<forall>c. loc_city l = Some c \<longrightarrow> clean_text 128 c)
     \<and> loc_latitude l \<in> Finite ` {- 90..90} \<and> loc_longitude l \<in> Finite ` {- 180..180}"
    by (cases "loc_city l") (simp_all add: validate_location_def client_limits del: image_iff)
  also have "\<dots> \<longleftrightarrow> location_ok l"
    unfolding location_ok_def using str_len_upper [of "loc_country_code l"] by metis
  finally show ?thesis .
qed

lemma validate_public_url_Ok [simp]:
  "validate_public_url url_parse s = Ok () \<longleftrightarrow> clean_text 2048 s \<and> (\<exists>u. url_parse s = Some u \<and> site_ok u)"
  by (auto simp: validate_public_url_def site_ok_def client_limits split: option.splits)

lemma memory_consistent_iff [simp]:
  "memory_consistent u t \<longleftrightarrow> (u = None \<and> t = None) \<or> (\<exists>a b. u = Some a \<and> t = Some b \<and> 0 < b \<and> a \<le> b)"
  by (cases u; cases t) (auto simp: memory_consistent_def)

lemma validate_node_Ok [simp]: "validate_node url_parse n = Ok () \<longleftrightarrow> node_ok url_parse n"
  by (cases "node_cpu_load_percent n")
    (auto simp: validate_node_def node_ok_def client_limits)

definition manifest_ok :: "(rstr \<Rightarrow> parsed_url option) \<Rightarrow> nat \<Rightarrow> SessionManifest \<Rightarrow> bool" where
  "manifest_ok url_parse now m \<longleftrightarrow>
     length (man_session_token m) = SESSION_TOKEN_LENGTH \<and> list_all is_alnum (man_session_token m)
     \<and> lease_ok now (man_access_expires_at m) (man_session_expires_at m)
     \<and> node_ok url_parse (man_node m)
     \<and> 1 \<le> length (man_transports m) \<and> length (man_transports m) \<le> 32
     \<and> list_all transport_ok (man_transports m) \<and> distinct (map (prof_id \<circ> tr_profile) (man_transports m))"

lemma token_shape: "(\<exists>p. split_session_token t = Ok p) \<longleftrightarrow> length t = SESSION_TOKEN_LENGTH \<and> list_all is_alnum t"
  using str_len_alnum [of t]
  by (auto simp: split_session_token_def validate_alphanumeric_def)

lemma validate_manifest_Ok: "validate_manifest url_parse m now = Ok () \<longleftrightarrow> manifest_ok url_parse now m"
proof -
  have token: "(case split_session_token (man_session_token m) of Err _ \<Rightarrow> Err x | Ok _ \<Rightarrow> Ok ()) = Ok () \<longleftrightarrow>
      length (man_session_token m) = SESSION_TOKEN_LENGTH \<and> list_all is_alnum (man_session_token m)" for x
    unfolding token_shape [symmetric] by (auto split: sum.splits)
  have count: "\<not> (man_transports m = [] \<or> 32 < length (man_transports m)) \<longleftrightarrow>
      1 \<le> length (man_transports m) \<and> length (man_transports m) \<le> 32"
    by (cases "man_transports m") auto
  show ?thesis
    unfolding manifest_ok_def validate_access_expiry_Ok [symmetric]
    using token count by (auto simp: validate_manifest_def validate_transports_Ok client_limits)
qed

text \<open>Every refusal is an invalid response.\<close>

definition invalid_only :: "ClientError + unit \<Rightarrow> bool" where
  "invalid_only r \<longleftrightarrow> (\<forall>e. r = Err e \<longrightarrow> (\<exists>m. e = InvalidResponse m))"

lemma invalid_only_simps [simp]:
  "invalid_only (Ok ())" "invalid_only (reject_if b (InvalidResponse m))" "invalid_only (Err (InvalidResponse m))"
  by (simp_all add: invalid_only_def reject_if_def)

lemma invalid_only_run: "list_all invalid_only cs \<Longrightarrow> invalid_only (run_checks cs)"
  by (induction cs) (auto simp: invalid_only_def split: sum.splits)

lemma invalid_only_pairs:
  "(\<And>k v. invalid_only (f k v) \<and> invalid_only (g k v)) \<Longrightarrow> list_all invalid_only (concat (map (\<lambda>(k, v). [f k v, g k v]) xs))"
  by (induction xs) auto

lemma invalid_only_leaves:
  "invalid_only (validate_future_expiry a b)" "invalid_only (validate_endpoint_name s l)" "invalid_only (validate_identifier s l n)"
  "invalid_only (validate_text s l n)" "invalid_only (validate_option_key s l)" "invalid_only (validate_bounded_value s l n)"
  "invalid_only (validate_bounded_secret s l n)"
  by (simp_all add: validate_future_expiry_def validate_endpoint_name_def validate_identifier_def validate_text_def
      validate_option_key_def validate_bounded_value_def validate_bounded_secret_def)

lemma invalid_only_access: "invalid_only (validate_access_expiry a b n)"
  by (simp add: validate_access_expiry_def invalid_only_leaves invalid_only_run del: run_checks.simps split: option.splits)

lemma invalid_only_node: "invalid_only (validate_node u node)"
proof -
  have "invalid_only (validate_public_url u x)" "invalid_only (validate_location l)" for x l
    unfolding validate_public_url_def validate_location_def
    by (simp_all add: invalid_only_leaves invalid_only_run del: run_checks.simps split: option.splits)
  then show ?thesis
    unfolding validate_node_def by (simp add: invalid_only_leaves invalid_only_run del: run_checks.simps)
qed

lemma validate_status_invalid: "invalid_only (validate_status u st t n now)"
  unfolding validate_status_def validate_traffic_def
  by (simp add: invalid_only_leaves invalid_only_node invalid_only_access invalid_only_run del: run_checks.simps split: sum.splits)

lemma not_ends_session: "invalid_only r \<Longrightarrow> r = Err e \<Longrightarrow> \<not> ends_session e"
  by (auto simp: invalid_only_def ends_session_def)

text \<open>
  C25: the client keeps an enrolment document exactly when it is well formed. Its token has
  the session token's shape, its lease is not over and does not outlive the access time, the
  node's description is complete and in range, and it names between one and 32 transports
  with distinct IDs, each with a usable endpoint and bounded options and secrets; anything
  else is refused.
\<close>

theorem manifest_accepted_exactly:
  "validate_manifest url_parse m now = Ok () \<longleftrightarrow>
     length (man_session_token m) = SESSION_TOKEN_LENGTH \<and> list_all is_alnum (man_session_token m)
     \<and> lease_ok now (man_access_expires_at m) (man_session_expires_at m)
     \<and> node_ok url_parse (man_node m)
     \<and> 1 \<le> length (man_transports m) \<and> length (man_transports m) \<le> 32
     \<and> list_all transport_ok (man_transports m) \<and> distinct (map (prof_id \<circ> tr_profile) (man_transports m))"
  unfolding validate_manifest_Ok manifest_ok_def ..

end
