(* ===== verification/Client_Strategy.thy ===== *)
theory Client_Strategy
  imports Client_Contract Repository "HOL-Library.List_Lexorder" "HOL-Library.Product_Lexorder"
begin

text \<open>
  Which transport a client tries first (\<open>strategy.rs\<close> of crates/ket-client-core) and how it
  remembers, per network, what worked (\<open>transport_memory.rs\<close>). A \<open>BTreeMap\<close> is the list of
  its entries in key order; texts are ordered as their UTF-8 bytes are, which is the order of
  their characters. The hash function, the JSON encoding, the clock and the random salt are
  arguments, and an argument says which file operations fail.
\<close>

subsection \<open>Ordered maps\<close>

fun bt_insert :: "'k::linorder \<Rightarrow> 'v \<Rightarrow> ('k \<times> 'v) list \<Rightarrow> ('k \<times> 'v) list" where
  "bt_insert k v [] = [(k, v)]"
| "bt_insert k v ((k', v') # r) = (if k < k' then (k, v) # (k', v') # r
     else if k = k' then (k, v) # r else (k', v') # bt_insert k v r)"

definition bt_remove :: "'k \<Rightarrow> ('k \<times> 'v) list \<Rightarrow> ('k \<times> 'v) list" where
  "bt_remove k m = filter (\<lambda>(k', v). k' \<noteq> k) m"

definition bt_ok :: "('k::linorder \<times> 'v) list \<Rightarrow> bool" where
  "bt_ok m \<longleftrightarrow> sorted_wrt (<) (map fst m)"

lemma bt_keys_insert: "fst ` set (bt_insert k v m) = insert k (fst ` set m)"
  by (induction k v m rule: bt_insert.induct) auto

lemma bt_ok_insert [simp]: "bt_ok m \<Longrightarrow> bt_ok (bt_insert k v m)"
proof (induction k v m rule: bt_insert.induct)
  case (2 k v k' v' r)
  have "\<forall>x \<in> fst ` set (bt_insert k v r). k' < x" if "\<not> k < k'" "k \<noteq> k'"
    using 2(2) that by (auto simp: bt_keys_insert bt_ok_def)
  then show ?case using 2 by (auto simp: bt_ok_def)
qed (simp add: bt_ok_def)

lemma bt_lookup_insert [simp]: "bt_ok m \<Longrightarrow> map_of (bt_insert k v m) = (map_of m)(k \<mapsto> v)"
proof (induction k v m rule: bt_insert.induct)
  case (2 k v k' v' r)
  have "bt_ok r" using 2(2) by (simp add: bt_ok_def)
  then show ?case using 2 by (auto simp: fun_upd_twist)
qed simp

lemma bt_length_insert: "k \<in> fst ` set m \<Longrightarrow> bt_ok m \<Longrightarrow> length (bt_insert k v m) = length m"
proof (induction k v m rule: bt_insert.induct)
  case (2 k v k' v' r)
  then show ?case by (cases "k' = k") (auto simp: bt_ok_def)
qed simp

lemma bt_length_insert_le: "length (bt_insert k v m) \<le> Suc (length m)"
  by (induction k v m rule: bt_insert.induct) auto

lemma bt_distinct: "bt_ok m \<Longrightarrow> distinct (map fst m)"
  unfolding bt_ok_def using strict_sorted_iff by blast

lemma bt_ok_remove [simp]: "bt_ok m \<Longrightarrow> bt_ok (bt_remove k m)"
  unfolding bt_ok_def bt_remove_def by (induction m) auto

lemma bt_lookup_remove: "map_of (bt_remove k m) = (map_of m)(k := None)"
  by (induction m) (auto simp: bt_remove_def fun_eq_iff)

lemma bt_length_remove: "k \<in> fst ` set m \<Longrightarrow> length (bt_remove k m) < length m"
  unfolding bt_remove_def
proof -
  assume "k \<in> fst ` set m"
  then obtain v where "(k, v) \<in> set m" by auto
  then show "length (filter (\<lambda>(k', v). k' \<noteq> k) m) < length m" by (rule length_filter_less) simp
qed

subsection \<open>How transports fared\<close>

record SelectionPolicy =
  max_attempts :: nat
  policy_preferred :: "TransportProtocol option"
  failure_cooldown_seconds :: nat

definition default_policy :: SelectionPolicy where
  "default_policy = \<lparr>max_attempts = 3, policy_preferred = None, failure_cooldown_seconds = 15\<rparr>"

definition MAX_RECORDS :: nat where "MAX_RECORDS = 32"

record TransportRecord =
  consecutive_failures :: nat
  last_latency_ms :: "nat option"
  cooldown_until :: nat
  worked :: bool

definition default_record :: TransportRecord where
  "default_record = \<lparr>consecutive_failures = 0, last_latency_ms = None, cooldown_until = 0, worked = False\<rparr>"

type_synonym TransportHistory = "(rstr \<times> TransportRecord) list"

fun bound_records :: "TransportHistory \<Rightarrow> TransportHistory" where
  "bound_records [] = []"
| "bound_records (oldest # rest) = (if length (oldest # rest) > MAX_RECORDS then bound_records rest else oldest # rest)"

definition record_success :: "rstr \<Rightarrow> nat \<Rightarrow> TransportHistory \<Rightarrow> TransportHistory" where
  "record_success tid latency_ms records = bound_records (bt_insert tid
     \<lparr>consecutive_failures = 0, last_latency_ms = Some latency_ms, cooldown_until = 0, worked = True\<rparr> records)"

definition sat_mul64 :: "nat \<Rightarrow> nat \<Rightarrow> nat" where
  "sat_mul64 a b = min (a * b) u64_max"

definition record_failure :: "rstr \<Rightarrow> nat \<Rightarrow> nat \<Rightarrow> TransportHistory \<Rightarrow> TransportHistory" where
  "record_failure tid now base_cooldown_seconds records =
    (let record = (case map_of records tid of None \<Rightarrow> default_record | Some r \<Rightarrow> r);
         failures = sat_add32 (consecutive_failures record) 1;
         multiplier = 2 ^ min (failures - 1) 3;
         until = sat_add64 now (min (sat_mul64 base_cooldown_seconds multiplier) 120)
     in bound_records (bt_insert tid (record\<lparr>consecutive_failures := failures, cooldown_until := until\<rparr>) records))"

subsection \<open>Ranking\<close>

definition rank_key :: "TransportProtocol option \<Rightarrow> TransportHistory \<Rightarrow> nat \<Rightarrow> SessionTransport
    \<Rightarrow> bool \<times> bool \<times> nat \<times> bool \<times> nat \<times> nat \<times> rstr" where
  "rank_key ranking_preference history now transport =
    (let profile = tr_profile transport; record = map_of history (prof_id profile) in
     ((case record of None \<Rightarrow> False | Some r \<Rightarrow> cooldown_until r > now),
      \<not> (case ranking_preference of None \<Rightarrow> False | Some protocol \<Rightarrow> protocol = prof_protocol profile),
      (case record of None \<Rightarrow> 0 | Some r \<Rightarrow> consecutive_failures r),
      \<not> (case record of None \<Rightarrow> False | Some r \<Rightarrow> worked r),
      prof_priority profile,
      (case Option.bind record last_latency_ms of None \<Rightarrow> 500 | Some latency \<Rightarrow> latency),
      prof_id profile))"

definition rank_for :: "SelectionPolicy \<Rightarrow> SessionTransport list \<Rightarrow> (SessionTransport \<Rightarrow> bool) list \<Rightarrow> TransportHistory
    \<Rightarrow> nat \<Rightarrow> TransportProtocol option \<Rightarrow> TransportProtocol set \<Rightarrow> SessionTransport list" where
  "rank_for policy transports adapters history now explicit_protocol automatic_excluded =
    (let ranking_preference = (case explicit_protocol of Some p \<Rightarrow> Some p | None \<Rightarrow> policy_preferred policy);
         candidates = filter (\<lambda>t. list_ex (\<lambda>supports. supports t) adapters
            \<and> (case explicit_protocol of None \<Rightarrow> True | Some p \<Rightarrow> p = prof_protocol (tr_profile t))) transports;
         candidates = (if explicit_protocol = None \<and> list_ex (\<lambda>t. prof_protocol (tr_profile t) \<notin> automatic_excluded) candidates
            then filter (\<lambda>t. prof_protocol (tr_profile t) \<notin> automatic_excluded) candidates else candidates)
     in take (max (max_attempts policy) 1) (sort_key (rank_key ranking_preference history now) candidates))"

definition rank_with_preference :: "SelectionPolicy \<Rightarrow> SessionTransport list \<Rightarrow> (SessionTransport \<Rightarrow> bool) list
    \<Rightarrow> TransportHistory \<Rightarrow> nat \<Rightarrow> TransportProtocol option \<Rightarrow> SessionTransport list" where
  "rank_with_preference policy transports adapters history now preferred =
     rank_for policy transports adapters history now preferred {}"

definition rank :: "SelectionPolicy \<Rightarrow> SessionTransport list \<Rightarrow> (SessionTransport \<Rightarrow> bool) list
    \<Rightarrow> TransportHistory \<Rightarrow> nat \<Rightarrow> SessionTransport list" where
  "rank policy transports adapters history now = rank_with_preference policy transports adapters history now None"

subsection \<open>The memory of networks\<close>

definition MAX_NETWORKS :: nat where "MAX_NETWORKS = 16"
definition MAX_FILE_BYTES :: nat where "MAX_FILE_BYTES = 256 * 1024"

record RememberedNetwork =
  seen_at :: nat
  net_history :: TransportHistory

record MemoryFile =
  mem_salt :: rstr
  mem_networks :: "(rstr \<times> RememberedNetwork) list"

definition default_memory :: MemoryFile where
  "default_memory = \<lparr>mem_salt = [], mem_networks = []\<rparr>"

record memory_json =
  memory_to_vec :: "MemoryFile \<Rightarrow> u8 list option"
  memory_from_slice :: "u8 list \<Rightarrow> MemoryFile option"

definition hex_digit :: "nat \<Rightarrow> uchar" where
  "hex_digit n = (if n < 10 then 48 + n else 87 + n)"

definition hex :: "u8 list \<Rightarrow> rstr" where
  "hex bytes = concat (map (\<lambda>b. [hex_digit (unat b div 16), hex_digit (unat b mod 16)]) bytes)"

definition network_key :: "(u8 list \<Rightarrow> u8 list) \<Rightarrow> rstr \<Rightarrow> rstr \<Rightarrow> rstr" where
  "network_key sha256 salt network = hex (take 16 (sha256 (str_as_bytes salt @ [0] @ str_as_bytes network)))"

definition read_memory :: "memory_json \<Rightarrow> io \<Rightarrow> disk \<Rightarrow> MemoryFile option" where
  "read_memory js io d = (if \<not> io_metadata io then None else (case state_file d of
     None \<Rightarrow> None
   | Some content \<Rightarrow> if length content > MAX_FILE_BYTES then None
       else if \<not> io_read io then None else memory_from_slice js content))"

definition write_memory :: "memory_json \<Rightarrow> io \<Rightarrow> disk \<Rightarrow> MemoryFile \<Rightarrow> disk \<times> bool" where
  "write_memory js io d file = (case memory_to_vec js file of
     None \<Rightarrow> (d, False)
   | Some encoded \<Rightarrow>
     if \<not> io_create_dir io then (d, False)
     else if \<not> io_open io then (d, False)
     else (case io_write io of
       Some k \<Rightarrow> (d\<lparr>temporary_file := Some (take k encoded)\<rparr>, False)
     | None \<Rightarrow> if \<not> io_rename io then (d\<lparr>temporary_file := Some encoded\<rparr>, False)
         else (d\<lparr>state_file := Some encoded, temporary_file := None\<rparr>, True)))"

definition memory_load :: "(u8 list \<Rightarrow> u8 list) \<Rightarrow> memory_json \<Rightarrow> io \<Rightarrow> rstr option \<Rightarrow> disk \<Rightarrow> TransportHistory" where
  "memory_load sha256 js io network d = (case network of
     None \<Rightarrow> []
   | Some network \<Rightarrow>
     (let file = (case read_memory js io d of None \<Rightarrow> default_memory | Some file \<Rightarrow> file)
      in (case map_of (mem_networks file) (network_key sha256 (mem_salt file) network) of
            None \<Rightarrow> [] | Some remembered \<Rightarrow> net_history remembered)))"

text \<open>\<open>min_by_key\<close>: the first of the least in key order.\<close>

fun oldest_network :: "(rstr \<times> RememberedNetwork) list \<Rightarrow> rstr option" where
  "oldest_network [] = None"
| "oldest_network ((k, n) # r) = (if list_all (\<lambda>(_, m). seen_at n \<le> seen_at m) r then Some k else oldest_network r)"

lemma oldest_network_mem: "oldest_network m = Some k \<Longrightarrow> k \<in> fst ` set m"
  by (induction m rule: oldest_network.induct) (auto split: if_splits)

function forget_networks :: "(rstr \<times> RememberedNetwork) list \<Rightarrow> (rstr \<times> RememberedNetwork) list" where
  "forget_networks m = (if length m > MAX_NETWORKS then
     (case oldest_network m of None \<Rightarrow> m | Some oldest \<Rightarrow> forget_networks (bt_remove oldest m)) else m)"
  by pat_completeness auto
termination
  by (relation "measure length") (simp_all add: bt_length_remove oldest_network_mem)

definition memory_save :: "(u8 list \<Rightarrow> u8 list) \<Rightarrow> memory_json \<Rightarrow> io \<Rightarrow> rstr option \<Rightarrow> u8 list \<Rightarrow> nat \<Rightarrow> TransportHistory
    \<Rightarrow> disk \<Rightarrow> disk \<times> bool" where
  "memory_save sha256 js io network random now history d = (case network of
     None \<Rightarrow> (d, False)
   | Some network \<Rightarrow>
     (let file = (case read_memory js io d of None \<Rightarrow> default_memory | Some file \<Rightarrow> file);
          file = (if str_len (mem_salt file) \<noteq> 64 then \<lparr>mem_salt = hex random, mem_networks = []\<rparr> else file);
          networks = bt_insert (network_key sha256 (mem_salt file) network)
            \<lparr>seen_at = now, net_history = history\<rparr> (mem_networks file)
      in write_memory js io d (file\<lparr>mem_networks := forget_networks networks\<rparr>)))"

declare forget_networks.simps [simp del]

subsection \<open>The history stays small\<close>

definition record_ok :: "nat \<Rightarrow> TransportRecord \<Rightarrow> bool" where
  "record_ok now r \<longleftrightarrow> consecutive_failures r \<le> u32_max \<and> cooldown_until r \<le> now + 120"

definition history_ok :: "nat \<Rightarrow> TransportHistory \<Rightarrow> bool" where
  "history_ok now h \<longleftrightarrow> bt_ok h \<and> length h \<le> MAX_RECORDS \<and> (\<forall>r \<in> snd ` set h. record_ok now r)"

lemma bound_records_suffix: "bound_records h = drop (length h - MAX_RECORDS) h"
proof (induction h)
  case (Cons x h)
  show ?case
  proof (cases "length h < MAX_RECORDS")
    case False
    then have "drop (length (x # h) - MAX_RECORDS) (x # h) = drop (length h - MAX_RECORDS) h" by (simp add: Suc_diff_le)
    then show ?thesis using False unfolding bound_records.simps Cons.IH by simp
  qed simp
qed simp

lemma bt_ok_drop: "bt_ok m \<Longrightarrow> bt_ok (drop n m)"
  by (simp add: bt_ok_def drop_map [symmetric] sorted_wrt_drop)

lemma bt_insert_values: "snd ` set (bt_insert k v m) \<subseteq> insert v (snd ` set m)"
  by (induction k v m rule: bt_insert.induct) auto

lemma history_ok_insert:
  assumes "history_ok now h" "record_ok now r"
  shows "history_ok now (bound_records (bt_insert k r h))"
proof -
  have "\<forall>x \<in> snd ` set (bound_records (bt_insert k r h)). record_ok now x"
  proof
    fix x assume "x \<in> snd ` set (bound_records (bt_insert k r h))"
    then have "x \<in> snd ` set (bt_insert k r h)" unfolding bound_records_suffix by (auto dest!: in_set_dropD)
    then have "x \<in> insert r (snd ` set h)" using bt_insert_values [of k r h] by (rule rev_subsetD)
    then show "record_ok now x" using assms by (auto simp: history_ok_def)
  qed
  moreover have "length (bound_records (bt_insert k r h)) \<le> MAX_RECORDS"
    by (simp add: bound_records_suffix)
  ultimately show ?thesis
    using assms(1) by (simp add: history_ok_def bound_records_suffix bt_ok_drop)
qed

lemma history_ok_lookup: "history_ok now h \<Longrightarrow> map_of h k = Some r \<Longrightarrow> record_ok now r"
  unfolding history_ok_def by (force dest: map_of_SomeD)

lemma history_ok_success: "history_ok now h \<Longrightarrow> history_ok now (record_success tid latency h)"
  unfolding record_success_def by (rule history_ok_insert) (simp_all add: record_ok_def)

lemma history_ok_failure:
  assumes "history_ok now h"
  shows "history_ok now (record_failure tid now base h)"
proof -
  define r where "r = (case map_of h tid of None \<Rightarrow> default_record | Some r \<Rightarrow> r)"
  have "sat_add64 now (min x 120) \<le> now + 120" for x
    using sat_add64_le_add [of now "min x 120"] by simp
  then show ?thesis
    unfolding record_failure_def Let_def r_def [symmetric]
    by (intro history_ok_insert assms) (simp add: record_ok_def sat_add32_def)
qed

lemma history_ok_mono: "history_ok now h \<Longrightarrow> now \<le> later \<Longrightarrow> history_ok later h"
  by (fastforce simp: history_ok_def record_ok_def)

lemma history_ok_empty: "history_ok now []"
  by (simp add: history_ok_def bt_ok_def)

subsection \<open>The order of attempts\<close>

definition supported :: "(SessionTransport \<Rightarrow> bool) list \<Rightarrow> SessionTransport \<Rightarrow> bool" where
  "supported adapters t \<longleftrightarrow> (\<exists>supports \<in> set adapters. supports t)"

definition eligible :: "SessionTransport list \<Rightarrow> (SessionTransport \<Rightarrow> bool) list \<Rightarrow> TransportProtocol option
    \<Rightarrow> TransportProtocol set \<Rightarrow> SessionTransport \<Rightarrow> bool" where
  "eligible ts adapters explicit excluded t \<longleftrightarrow> t \<in> set ts \<and> supported adapters t
     \<and> (\<forall>p. explicit = Some p \<longrightarrow> prof_protocol (tr_profile t) = p)
     \<and> (explicit = None \<and> (\<exists>u \<in> set ts. supported adapters u \<and> prof_protocol (tr_profile u) \<notin> excluded)
          \<longrightarrow> prof_protocol (tr_profile t) \<notin> excluded)"

definition preference :: "SelectionPolicy \<Rightarrow> TransportProtocol option \<Rightarrow> TransportProtocol option" where
  "preference policy explicit = (case explicit of Some p \<Rightarrow> Some p | None \<Rightarrow> policy_preferred policy)"

lemma rank_for_candidates:
  obtains c where "rank_for policy ts adapters h now explicit excluded
      = take (max (max_attempts policy) 1) (sort_key (rank_key (preference policy explicit) h now) c)"
    "set c = {t. eligible ts adapters explicit excluded t}"
proof -
  define c0 where "c0 = filter (\<lambda>t. list_ex (\<lambda>supports. supports t) adapters
      \<and> (case explicit of None \<Rightarrow> True | Some p \<Rightarrow> p = prof_protocol (tr_profile t))) ts"
  define c where "c = (if explicit = None \<and> list_ex (\<lambda>t. prof_protocol (tr_profile t) \<notin> excluded) c0
      then filter (\<lambda>t. prof_protocol (tr_profile t) \<notin> excluded) c0 else c0)"
  have c0: "set c0 = {t \<in> set ts. supported adapters t \<and> (\<forall>p. explicit = Some p \<longrightarrow> prof_protocol (tr_profile t) = p)}"
    by (auto simp: c0_def supported_def list_ex_iff split: option.splits)
  have "set c = {t. eligible ts adapters explicit excluded t}"
    unfolding c_def eligible_def by (auto simp: c0 list_ex_iff)
  moreover have "rank_for policy ts adapters h now explicit excluded
      = take (max (max_attempts policy) 1) (sort_key (rank_key (preference policy explicit) h now) c)"
    unfolding rank_for_def Let_def c_def c0_def preference_def ..
  ultimately show ?thesis using that by blast
qed

lemma rank_for_eligible:
  "t \<in> set (rank_for policy ts adapters h now explicit excluded) \<Longrightarrow> eligible ts adapters explicit excluded t"
  by (rule rank_for_candidates [of policy ts adapters h now explicit excluded]) (auto dest: in_set_takeD)

lemma length_rank_for: "length (rank_for policy ts adapters h now explicit excluded) \<le> max (max_attempts policy) 1"
  by (rule rank_for_candidates [of policy ts adapters h now explicit excluded]) auto

lemma sorted_take_least:
  assumes "sorted (map f xs)" "t \<in> set (take n xs)" "u \<in> set xs" "u \<notin> set (take n xs)"
  shows "f t \<le> f u"
proof -
  have "u \<in> set (drop n xs)" using assms(3,4) by (metis Un_iff append_take_drop_id set_append)
  moreover have "sorted (map f (take n xs) @ map f (drop n xs))"
    using assms(1) by (metis append_take_drop_id map_append)
  ultimately show ?thesis using assms(2) by (auto simp: sorted_append)
qed

text \<open>
  C26: a client tries the right transports in the right order. What is ranked is usable on
  this device, of the chosen protocol when one was chosen, and otherwise of a protocol the
  user did not leave out as long as there is one; something is ranked whenever something
  can be used; the ranking is in order of cooling down, preference, failures, success here
  before, the server's priority, latency and ID; and no transport left out by the limit on
  attempts would have come before one that is ranked.
\<close>

theorem ranking_is_right:
  fixes policy ts adapters h now explicit excluded
  defines "r \<equiv> rank_for policy ts adapters h now explicit excluded"
    and "key \<equiv> rank_key (preference policy explicit) h now"
  shows "(\<forall>t \<in> set r. eligible ts adapters explicit excluded t)
    \<and> (r = [] \<longleftrightarrow> (\<forall>t \<in> set ts. \<not> (supported adapters t \<and> (\<forall>p. explicit = Some p \<longrightarrow> prof_protocol (tr_profile t) = p))))
    \<and> length r \<le> max (max_attempts policy) 1
    \<and> sorted (map key r)
    \<and> (\<forall>t \<in> set r. \<forall>u. eligible ts adapters explicit excluded u \<and> u \<notin> set r \<longrightarrow> key t \<le> key u)"
proof -
  obtain c where r: "r = take (max (max_attempts policy) 1) (sort_key key c)"
    and c: "set c = {t. eligible ts adapters explicit excluded t}"
    unfolding r_def key_def by (rule rank_for_candidates)
  have some: "(\<exists>t. eligible ts adapters explicit excluded t) \<longleftrightarrow>
      (\<exists>t \<in> set ts. supported adapters t \<and> (\<forall>p. explicit = Some p \<longrightarrow> prof_protocol (tr_profile t) = p))"
    unfolding eligible_def by blast
  have "c = [] \<longleftrightarrow> set c = {}" by simp
  also have "\<dots> \<longleftrightarrow> \<not> (\<exists>t. eligible ts adapters explicit excluded t)" unfolding c by blast
  finally have empty: "c = [] \<longleftrightarrow> \<not> (\<exists>t. eligible ts adapters explicit excluded t)" .
  have "r = [] \<longleftrightarrow> sort_key key c = []" unfolding r by (auto simp: take_eq_Nil)
  also have "\<dots> \<longleftrightarrow> c = []" by (metis length_0_conv length_sort)
  finally have "r = [] \<longleftrightarrow> c = []" .
  moreover have "sorted (map key r)"
    unfolding r by (metis sorted_sort_key sorted_wrt_take take_map)
  moreover have "key t \<le> key u" if "t \<in> set r" "u \<in> set c" "u \<notin> set r" for t u
    using sorted_take_least [of key "sort_key key c" t "max (max_attempts policy) 1" u] that unfolding r by simp
  moreover have "set r \<subseteq> set c" unfolding r using set_take_subset by fastforce
  moreover have "length r \<le> max (max_attempts policy) 1" unfolding r by simp
  ultimately show ?thesis using empty some c by blast
qed

definition sample_transport :: "rstr \<Rightarrow> TransportProtocol \<Rightarrow> nat \<Rightarrow> SessionTransport" where
  "sample_transport tid protocol priority = \<lparr>tr_profile = \<lparr>prof_id = tid, prof_display_name = tid, prof_protocol = protocol,
     prof_endpoint = tid, prof_port = 443, prof_network = Udp, prof_priority = priority, prof_tls_server_name = None,
     prof_options = []\<rparr>, tr_credential = None\<rparr>"

lemma sample_ranking:
  "rank_for default_policy [sample_transport [97] Hysteria2 10, sample_transport [98] WireGuard 20] [\<lambda>t. True] [] 5 None {Hysteria2}
     = [sample_transport [98] WireGuard 20]"
  by (simp add: rank_for_def default_policy_def sample_transport_def)

theorem ranking_is_right_witness:
  "rank_for default_policy [sample_transport [97] Hysteria2 10, sample_transport [98] WireGuard 20] [\<lambda>t. True] [] 5 None {Hysteria2}
     = [sample_transport [98] WireGuard 20]
   \<and> eligible [sample_transport [97] Hysteria2 10, sample_transport [98] WireGuard 20] [\<lambda>t. True] None {Hysteria2}
       (sample_transport [98] WireGuard 20)"
  using ranking_is_right [of default_policy "[sample_transport [97] Hysteria2 10, sample_transport [98] WireGuard 20]"
      "[\<lambda>t. True]" "[]" 5 None "{Hysteria2}"]
  by (simp add: sample_ranking)

subsection \<open>What is remembered comes back\<close>

text \<open>What serde documents of a derived pair of implementations.\<close>

definition memory_json_faithful :: "memory_json \<Rightarrow> bool" where
  "memory_json_faithful js \<longleftrightarrow>
     (\<forall>file bytes. memory_to_vec js file = Some bytes \<longrightarrow> memory_from_slice js bytes = Some file)"

lemma oldest_network_least:
  "oldest_network m = Some k \<Longrightarrow> \<exists>n. (k, n) \<in> set m \<and> (\<forall>(k', n') \<in> set m. seen_at n \<le> seen_at n')"
proof (induction m rule: oldest_network.induct)
  case (2 k0 n0 r)
  show ?case
  proof (cases "list_all (\<lambda>(_, m). seen_at n0 \<le> seen_at m) r")
    case True
    then have "\<forall>(k', n') \<in> set ((k0, n0) # r). seen_at n0 \<le> seen_at n'" by (auto simp: list_all_iff)
    then show ?thesis using 2(2) True by auto
  next
    case False
    then obtain n where n: "(k, n) \<in> set r" "\<forall>(k', n') \<in> set r. seen_at n \<le> seen_at n'"
      using 2 by auto
    moreover obtain k1 n1 where "(k1, n1) \<in> set r" "seen_at n1 < seen_at n0"
      using False by (force simp: list_all_iff)
    ultimately have "seen_at n \<le> seen_at n0" by force
    then show ?thesis using n by auto
  qed
qed simp

lemma oldest_network_exists: "m \<noteq> [] \<Longrightarrow> oldest_network m \<noteq> None"
proof (induction m rule: oldest_network.induct)
  case (2 k n r)
  then show ?case by (cases r) auto
qed simp

lemma forget_networks_bound: "length (forget_networks m) \<le> MAX_NETWORKS"
proof (induction m rule: forget_networks.induct)
  case (1 m)
  show ?case
  proof (cases "length m > MAX_NETWORKS")
    case True
    then obtain k where "oldest_network m = Some k" using oldest_network_exists [of m] by fastforce
    then show ?thesis using 1 True by (subst forget_networks.simps) simp
  next
    case False
    then show ?thesis by (subst forget_networks.simps) simp
  qed
qed

lemma forget_networks_keeps:
  assumes "map_of m k = Some n" "distinct (map fst m)" "\<forall>(k', n') \<in> set m. k' \<noteq> k \<longrightarrow> seen_at n' < seen_at n"
  shows "map_of (forget_networks m) k = Some n"
  using assms
proof (induction m rule: forget_networks.induct)
  case (1 m)
  show ?case
  proof (cases "length m > MAX_NETWORKS")
    case True
    then obtain old where old: "oldest_network m = Some old" using oldest_network_exists [of m] by fastforce
    have "old \<noteq> k"
    proof
      assume "old = k"
      then obtain n' where "(k, n') \<in> set m" and least: "\<forall>(k', x) \<in> set m. seen_at n' \<le> seen_at x"
        using oldest_network_least [OF old] by auto
      then have "n' = n" using 1(2,3) by (metis map_of_is_SomeI option.inject)
      moreover obtain k1 n1 where "(k1, n1) \<in> set m" "k1 \<noteq> k"
      proof -
        have "card (fst ` set m) = length m" using 1(3) by (metis distinct_card length_map list.set_map)
        then have "\<not> fst ` set m \<subseteq> {k}"
          using True card_mono [of "{k}" "fst ` set m"] by (force simp: MAX_NETWORKS_def)
        then show ?thesis using that by force
      qed
      ultimately show False using least 1(4) by force
    qed
    then have "map_of (bt_remove old m) k = Some n" using 1(2) by (simp add: bt_lookup_remove)
    moreover have "distinct (map fst (bt_remove old m))" using 1(3) by (simp add: bt_remove_def distinct_map_filter)
    moreover have "\<forall>(k', n') \<in> set (bt_remove old m). k' \<noteq> k \<longrightarrow> seen_at n' < seen_at n" using 1(4) by (auto simp: bt_remove_def)
    ultimately show ?thesis using 1(1) [OF True old] old True by (subst forget_networks.simps) simp
  next
    case False
    then show ?thesis using 1(2) by (subst forget_networks.simps) simp
  qed
qed

lemma write_memory_cases:
  assumes "write_memory js io d file = (d', ok)"
  shows "if ok then (\<exists>bytes. memory_to_vec js file = Some bytes \<and> state_file d' = Some bytes) else state_file d' = state_file d"
  using assms by (auto simp: write_memory_def split: option.splits if_splits)

lemma read_memory_cong: "state_file d' = state_file d \<Longrightarrow> read_memory js io d' = read_memory js io d"
  by (simp add: read_memory_def)

definition remembered :: "memory_json \<Rightarrow> io \<Rightarrow> disk \<Rightarrow> MemoryFile" where
  "remembered js io d = (case read_memory js io d of None \<Rightarrow> default_memory | Some file \<Rightarrow> file)"

lemma memory_load_remembered:
  "memory_load sha256 js io (Some network) d =
     (case map_of (mem_networks (remembered js io d)) (network_key sha256 (mem_salt (remembered js io d)) network) of
        None \<Rightarrow> [] | Some r \<Rightarrow> net_history r)"
  by (simp add: memory_load_def remembered_def Let_def)

definition salted :: "u8 list \<Rightarrow> MemoryFile \<Rightarrow> MemoryFile" where
  "salted random file = (if str_len (mem_salt file) \<noteq> 64 then \<lparr>mem_salt = hex random, mem_networks = []\<rparr> else file)"

lemma memory_save_remembered:
  "memory_save sha256 js io (Some network) random now history d = (let file = salted random (remembered js io d)
     in write_memory js io d (file\<lparr>mem_networks := forget_networks (bt_insert (network_key sha256 (mem_salt file) network)
          \<lparr>seen_at = now, net_history = history\<rparr> (mem_networks file))\<rparr>))"
  by (simp add: memory_save_def remembered_def salted_def Let_def)

lemma salted_networks: "set (mem_networks (salted random file)) \<subseteq> set (mem_networks file)"
  "bt_ok (mem_networks file) \<Longrightarrow> bt_ok (mem_networks (salted random file))"
  by (simp_all add: salted_def bt_ok_def)

text \<open>
  C27: what a device learnt about a network is there when it is on that network again. When
  the history was saved, the file is not over its size limit and the clock has moved since
  every other network was last seen, loading on the same network gives exactly the history
  saved; at most 16 networks are kept; and a save that fails, at whatever step, leaves what
  is loaded as it was.
\<close>

theorem memory_remembers:
  assumes "memory_json_faithful js"
    and "bt_ok (mem_networks (remembered js io d))"
    and "\<forall>(k, n) \<in> set (mem_networks (remembered js io d)). seen_at n < now"
    and "memory_save sha256 js io (Some network) random now history d = (d', saved)"
    and "io_metadata later" "io_read later" "io_metadata io" "io_read io"
    and "\<forall>bytes. state_file d' = Some bytes \<longrightarrow> length bytes \<le> MAX_FILE_BYTES"
  shows "memory_load sha256 js later (Some network) d'
      = (if saved then history else memory_load sha256 js io (Some network) d)
    \<and> (saved \<longrightarrow> length (mem_networks (remembered js later d')) \<le> 16)"
proof (cases saved)
  case False
  then have "state_file d' = state_file d"
    using assms(4) write_memory_cases unfolding memory_save_remembered Let_def by fastforce
  then have "remembered js later d' = remembered js io d"
    using assms(5-8) by (cases "state_file d") (simp_all add: remembered_def read_memory_def)
  then show ?thesis using False by (simp add: memory_load_remembered)
next
  case True
  define doc where "doc = salted random (remembered js io d)"
  define key where "key = network_key sha256 (mem_salt doc) network"
  define entry where "entry = \<lparr>seen_at = now, net_history = history\<rparr>"
  define m where "m = bt_insert key entry (mem_networks doc)"
  have m: "bt_ok m" "map_of m key = Some entry"
    using salted_networks(2) [OF assms(2)] by (simp_all add: m_def doc_def)
  have "seen_at n' < now" if "(k', n') \<in> set m" "k' \<noteq> key" for k' n'
  proof -
    have "map_of m k' = Some n'" using that(1) bt_distinct [OF m(1)] by simp
    then have "map_of (mem_networks doc) k' = Some n'"
      using that(2) salted_networks(2) [OF assms(2)] by (simp add: m_def doc_def)
    then have "(k', n') \<in> set (mem_networks (remembered js io d))"
      using salted_networks(1) unfolding doc_def by (meson map_of_SomeD subsetD)
    then show ?thesis using assms(3) by blast
  qed
  then have kept: "map_of (forget_networks m) key = Some entry"
    using forget_networks_keeps [OF m(2) bt_distinct [OF m(1)]] by (auto simp: entry_def)
  have "write_memory js io d (doc\<lparr>mem_networks := forget_networks m\<rparr>) = (d', True)"
    using assms(4) True by (simp add: memory_save_remembered Let_def doc_def key_def m_def entry_def)
  then obtain bytes where "memory_to_vec js (doc\<lparr>mem_networks := forget_networks m\<rparr>) = Some bytes" "state_file d' = Some bytes"
    using write_memory_cases by fastforce
  then have "remembered js later d' = doc\<lparr>mem_networks := forget_networks m\<rparr>"
    using assms(1,5,6,9) by (simp add: remembered_def read_memory_def memory_json_faithful_def)
  then show ?thesis using True kept forget_networks_bound [of m]
    by (simp add: memory_load_remembered key_def entry_def MAX_NETWORKS_def)
qed

definition sample_memory :: MemoryFile where
  "sample_memory = \<lparr>mem_salt = hex [], mem_networks = [(hex [7], \<lparr>seen_at = 9, net_history = [([97], default_record)]\<rparr>)]\<rparr>"

definition sample_memory_json :: memory_json where
  "sample_memory_json = \<lparr>memory_to_vec = (\<lambda>file. if file = sample_memory then Some [3] else None),
     memory_from_slice = (\<lambda>bytes. if bytes = [3] then Some sample_memory else None)\<rparr>"

lemma sample_memory_json_faithful: "memory_json_faithful sample_memory_json"
  by (simp add: memory_json_faithful_def sample_memory_json_def)

lemma sample_memory_save:
  "memory_save (\<lambda>bytes. [7]) sample_memory_json calm (Some [97]) [] 9 [([97], default_record)]
     \<lparr>state_file = None, temporary_file = None\<rparr> = (\<lparr>state_file = Some [3], temporary_file = None\<rparr>, True)"
proof -
  have "forget_networks [(hex [7], \<lparr>seen_at = 9, net_history = [([97], default_record)]\<rparr>)]
      = [(hex [7], \<lparr>seen_at = 9, net_history = [([97], default_record)]\<rparr>)]"
    by (subst forget_networks.simps) (simp add: MAX_NETWORKS_def)
  then show ?thesis
    by (simp add: memory_save_def read_memory_def default_memory_def network_key_def write_memory_def calm_def
        sample_memory_json_def sample_memory_def str_len_def)
qed

theorem memory_remembers_witness:
  "memory_load (\<lambda>bytes. [7]) sample_memory_json calm (Some [97]) \<lparr>state_file = Some [3], temporary_file = None\<rparr>
     = [([97], default_record)]"
proof -
  have "bt_ok (mem_networks (remembered sample_memory_json calm \<lparr>state_file = None, temporary_file = None\<rparr>))"
    "\<forall>(k, n) \<in> set (mem_networks (remembered sample_memory_json calm \<lparr>state_file = None, temporary_file = None\<rparr>)). seen_at n < 9"
    by (simp_all add: remembered_def read_memory_def default_memory_def bt_ok_def)
  from memory_remembers [OF sample_memory_json_faithful this sample_memory_save, of calm] show ?thesis
    by (simp add: calm_def MAX_FILE_BYTES_def)
qed

end
