(* ===== verification/Step_Monad.thy ===== *)
theory Step_Monad
  imports Ket_Prelude "HOL-Library.State_Monad"
begin

text \<open>
  Programs that thread a state through many calls are written in the state monad of the
  library. \<open>after m Q s\<close> says that \<open>Q\<close> holds of the result and the state once \<open>m\<close> has run
  from \<open>s\<close>; its rules take a program apart from the back, so that a lemma about an operation
  is proved by running it symbolically and using the lemmas about the operations it calls.
\<close>

named_theorems after_rules \<open>what holds after a step\<close>

definition after :: "('s, 'a) state \<Rightarrow> ('a \<Rightarrow> 's \<Rightarrow> bool) \<Rightarrow> 's \<Rightarrow> bool" where
  "after m Q s = (case run_state m s of (r, s') \<Rightarrow> Q r s')"

definition reads :: "('s \<Rightarrow> 'a) \<Rightarrow> ('s, 'a) state" where
  "reads f = State (\<lambda>s. (f s, s))"

definition changes :: "('s \<Rightarrow> 's) \<Rightarrow> ('s, unit) state" where
  "changes f = State (\<lambda>s. ((), f s))"

abbreviation done_with :: "'a \<Rightarrow> ('s, 'a) state" where
  "done_with \<equiv> State_Monad.return"

lemma after_return [after_rules, simp]: "after (State_Monad.return x) Q = Q x"
  by (simp add: after_def fun_eq_iff)

lemma after_bind [after_rules, simp]: "after (State_Monad.bind m f) Q = after m (\<lambda>r. after (f r) Q)"
  by (simp add: after_def fun_eq_iff split: prod.splits)

lemma after_reads [after_rules, simp]: "after (reads f) Q s = Q (f s) s"
  by (simp add: after_def reads_def)

lemma after_changes [after_rules, simp]: "after (changes f) Q s = Q () (f s)"
  by (simp add: after_def changes_def)

lemma after_if [after_rules, simp]: "after (if b then m else n) Q s = (if b then after m Q s else after n Q s)"
  by simp

lemma after_mono: "after m Q s \<Longrightarrow> (\<And>r s'. Q r s' \<Longrightarrow> R r s') \<Longrightarrow> after m R s"
  by (auto simp: after_def split: prod.splits)

lemma after_conj: "after m Q s \<Longrightarrow> after m R s \<Longrightarrow> after m (\<lambda>r s'. Q r s' \<and> R r s') s"
  by (auto simp: after_def split: prod.splits)

lemma after_run: "after m Q s \<Longrightarrow> run_state m s = (r, s') \<Longrightarrow> Q r s'"
  by (simp add: after_def)

lemma run_reads [simp]: "run_state (reads f) s = (f s, s)"
  by (simp add: reads_def)

lemma run_changes [simp]: "run_state (changes f) s = ((), f s)"
  by (simp add: changes_def)

text \<open>The operator \<open>?\<close>: an error ends the operation.\<close>

definition try_next :: "('s, 'e + 'a) state \<Rightarrow> ('a \<Rightarrow> ('s, 'e + 'b) state) \<Rightarrow> ('s, 'e + 'b) state" where
  "try_next m f = State_Monad.bind m (\<lambda>r. case r of Err e \<Rightarrow> State_Monad.return (Err e) | Ok a \<Rightarrow> f a)"

lemma after_try_next [after_rules, simp]:
  "after (try_next m f) Q = after m (\<lambda>r s'. case r of Err e \<Rightarrow> Q (Err e) s' | Ok a \<Rightarrow> after (f a) Q s')"
  by (auto simp: try_next_def after_def fun_eq_iff split: prod.splits sum.splits)

end
