(* ===== verification/Tunnel_Protocol.thy ===== *)
theory Tunnel_Protocol
  imports Ip_Text Client_Contract "HOL-Library.Product_Lexorder"
begin

text \<open>
  What an app and the privileged tunnel service say to each other (crates/ket-tunnel-protocol):
  the addresses a user keeps outside the tunnel (\<open>bypass.rs\<close>), the token that lets an app
  in, and the frames messages travel in (\<open>lib.rs\<close>). JSON, the MAC and random bytes are
  arguments.
\<close>

unbundle bit_operations_syntax

subsection \<open>Addresses outside the tunnel\<close>

definition MAX_BYPASS_ENTRIES :: nat where "MAX_BYPASS_ENTRIES = 64"
definition MIN_IPV4_PREFIX :: nat where "MIN_IPV4_PREFIX = 8"
definition MIN_IPV6_PREFIX :: nat where "MIN_IPV6_PREFIX = 16"

record IpPrefix =
  prefix_address :: IpAddr
  prefix_length :: nat

datatype PrefixError = InvalidPrefix | TooWide nat | SpecialPrefix | TooManyPrefixes

fun prefix_error_code :: "PrefixError \<Rightarrow> rstr" where
  "prefix_error_code InvalidPrefix = lit ''invalid''"
| "prefix_error_code (TooWide n) = lit ''too_wide''"
| "prefix_error_code SpecialPrefix = lit ''special''"
| "prefix_error_code TooManyPrefixes = lit ''too_many''"

fun is_ipv4 :: "IpAddr \<Rightarrow> bool" where
  "is_ipv4 (V4 a) = True"
| "is_ipv4 (V6 a) = False"

fun full_length :: "IpAddr \<Rightarrow> nat" where
  "full_length (V4 a) = 32"
| "full_length (V6 a) = 128"

text \<open>\<open>checked_shl(..).unwrap_or(0)\<close>: a shift by the whole width gives zero.\<close>

fun prefix_mask :: "IpAddr \<Rightarrow> nat \<Rightarrow> IpAddr" where
  "prefix_mask (V4 a) l = V4 (a AND (if 32 - l \<ge> 32 then 0 else push_bit (32 - l) (- 1)))"
| "prefix_mask (V6 a) l = V6 (a AND (if 128 - l \<ge> 128 then 0 else push_bit (128 - l) (- 1)))"

definition prefix_host :: "IpAddr \<Rightarrow> IpPrefix" where
  "prefix_host address = \<lparr>prefix_address = address, prefix_length = full_length address\<rparr>"

definition prefix_new :: "IpAddr \<Rightarrow> nat \<Rightarrow> IpPrefix option" where
  "prefix_new address l = (if l \<le> full_length address
     then Some \<lparr>prefix_address = prefix_mask address l, prefix_length = l\<rparr> else None)"

definition prefix_contains :: "IpPrefix \<Rightarrow> IpPrefix \<Rightarrow> bool" where
  "prefix_contains p other \<longleftrightarrow> is_ipv4 (prefix_address p) = is_ipv4 (prefix_address other)
     \<and> prefix_length other \<ge> prefix_length p
     \<and> prefix_mask (prefix_address other) (prefix_length p) = prefix_address p"

definition ipv4_netmask :: "IpPrefix \<Rightarrow> ipv4 option" where
  "ipv4_netmask p = (if is_ipv4 (prefix_address p)
     then Some (if 32 - prefix_length p \<ge> 32 then 0 else push_bit (32 - prefix_length p) (- 1)) else None)"

definition check_bypass :: "IpPrefix \<Rightarrow> PrefixError + unit" where
  "check_bypass p =
    (let special = (case prefix_address p of
           V4 a \<Rightarrow> ipv4_is_loopback a \<or> ipv4_is_multicast a \<or> ipv4_is_unspecified a \<or> ipv4_is_broadcast a
         | V6 a \<Rightarrow> ipv6_is_loopback a \<or> ipv6_is_multicast a \<or> ipv6_is_unspecified a);
         minimum = (if is_ipv4 (prefix_address p) then MIN_IPV4_PREFIX else MIN_IPV6_PREFIX)
     in if prefix_length p < minimum then Err (TooWide minimum)
        else if special then Err SpecialPrefix else Ok ())"

definition prefix_from_str :: "rstr \<Rightarrow> PrefixError + IpPrefix" where
  "prefix_from_str text0 =
    (let (address, l) = (case split_once 47 text0 of Some (a, l) \<Rightarrow> (a, Some l) | None \<Rightarrow> (text0, None))
     in (case parse_ip address of
          None \<Rightarrow> Err InvalidPrefix
        | Some address \<Rightarrow>
          if (case address of V6 a \<Rightarrow> to_ipv4_mapped a \<noteq> None | V4 a \<Rightarrow> False) then Err InvalidPrefix
          else (case (case l of None \<Rightarrow> Ok (full_length address)
                     | Some digits \<Rightarrow> if digits \<noteq> [] \<and> list_all is_digit digits
                         then ok_or (parse_uint 255 digits) InvalidPrefix else Err InvalidPrefix) of
                  Err e \<Rightarrow> Err e
                | Ok l \<Rightarrow> ok_or (prefix_new address l) InvalidPrefix)))"

definition parse_bypass :: "rstr \<Rightarrow> PrefixError + IpPrefix" where
  "parse_bypass text0 = (case prefix_from_str (trim text0) of
     Err e \<Rightarrow> Err e
   | Ok p \<Rightarrow> (case check_bypass p of Err e \<Rightarrow> Err e | Ok _ \<Rightarrow> Ok p))"

type_synonym BypassList = "IpPrefix list"

text \<open>\<open>sort\<close> with the derived order, \<open>dedup\<close>, and the checks in turn.\<close>

definition prefix_key :: "IpPrefix \<Rightarrow> IpAddr \<times> nat" where
  "prefix_key p = (prefix_address p, prefix_length p)"

fun first_refused :: "IpPrefix list \<Rightarrow> PrefixError option" where
  "first_refused [] = None"
| "first_refused (p # r) = (case check_bypass p of Err e \<Rightarrow> Some e | Ok _ \<Rightarrow> first_refused r)"

definition bypass_new :: "IpPrefix list \<Rightarrow> PrefixError + BypassList" where
  "bypass_new entries =
    (let entries = remdups_adj (sort_key prefix_key entries)
     in if length entries > MAX_BYPASS_ENTRIES then Err TooManyPrefixes
        else (case first_refused entries of Some e \<Rightarrow> Err e | None \<Rightarrow> Ok entries))"

definition bypass_deserialize :: "IpPrefix list \<Rightarrow> PrefixError + BypassList" where
  "bypass_deserialize entries =
     (if length entries > MAX_BYPASS_ENTRIES then Err TooManyPrefixes else bypass_new entries)"

record ConnectOptions =
  split_tls_hello :: bool
  bypass :: BypassList

definition default_options :: ConnectOptions where
  "default_options = \<lparr>split_tls_hello = False, bypass = []\<rparr>"

record NetworkReport =
  generation :: nat
  offline :: bool

subsection \<open>What a network covers\<close>

definition word_mask :: "nat \<Rightarrow> 'a::len word \<Rightarrow> 'a word" where
  "word_mask k w = w AND (if k \<ge> LENGTH('a) then 0 else push_bit k (- 1))"

lemma prefix_mask_word: "prefix_mask (V4 a) l = V4 (word_mask (32 - l) a)" "prefix_mask (V6 b) l = V6 (word_mask (128 - l) b)"
  by (simp_all add: word_mask_def)

lemma word_mask_all: "LENGTH('a) \<le> k \<Longrightarrow> word_mask k (w :: 'a::len word) = 0"
  by (simp add: word_mask_def)

lemma unat_word_mask: "unat (word_mask k (w :: 'a::len word)) = unat w div 2 ^ k * 2 ^ k"
proof (cases "LENGTH('a) \<le> k")
  case True
  have "unat w < 2 ^ LENGTH('a)" by (rule unsigned_less)
  also have "\<dots> \<le> 2 ^ k" using True by (simp add: power_increasing)
  finally show ?thesis by (simp add: word_mask_all [OF True])
next
  case False
  have "unat (word_mask k w) = take_bit LENGTH('a) (push_bit k (drop_bit k (unat w)))"
    unfolding word_mask_def if_not_P [OF False] and_top_mask unsigned_push_bit_eq unat_drop_bit_eq ..
  also have "\<dots> = take_bit LENGTH('a) (unat w div 2 ^ k * 2 ^ k)"
    by (simp add: push_bit_eq_mult drop_bit_eq_div)
  also have "\<dots> = unat w div 2 ^ k * 2 ^ k"
  proof (rule take_bit_nat_eq_self)
    have "unat w div 2 ^ k * 2 ^ k \<le> unat w" by (rule div_times_less_eq_dividend)
    also have "\<dots> < 2 ^ LENGTH('a)" by (rule unsigned_less)
    finally show "unat w div 2 ^ k * 2 ^ k < 2 ^ LENGTH('a)" .
  qed
  finally show ?thesis .
qed

lemma word_mask_eq: "word_mask k (v :: 'a::len word) = word_mask k w \<longleftrightarrow> unat v div 2 ^ k = unat w div 2 ^ k"
  unfolding word_unat_eq_iff unat_word_mask by simp

lemma word_mask_idem [simp]: "word_mask k (word_mask k w) = word_mask k w"
  unfolding word_mask_eq unat_word_mask by simp

lemma prefix_mask_idem [simp]: "prefix_mask (prefix_mask a l) l = prefix_mask a l"
  by (cases a) (simp_all add: prefix_mask_word)

lemma full_length_mask [simp]: "full_length (prefix_mask a l) = full_length a" "is_ipv4 (prefix_mask a l) = is_ipv4 a"
  by (cases a; simp)+

text \<open>The invariant of the type: no host bits. Its fields are private, so every value has it.\<close>

definition prefix_ok :: "IpPrefix \<Rightarrow> bool" where
  "prefix_ok p \<longleftrightarrow> prefix_length p \<le> full_length (prefix_address p)
     \<and> prefix_mask (prefix_address p) (prefix_length p) = prefix_address p"

definition covers :: "IpPrefix \<Rightarrow> IpAddr \<Rightarrow> bool" where
  "covers p a \<longleftrightarrow> prefix_mask a (prefix_length p) = prefix_address p"

lemma prefix_ok_new: "prefix_new a l = Some p \<Longrightarrow> prefix_ok p"
  by (auto simp: prefix_new_def prefix_ok_def split: if_splits)

lemma prefix_ok_host: "prefix_ok (prefix_host a)"
  by (cases a) (simp_all add: prefix_ok_def prefix_host_def)

lemma prefix_ok_from_str: "prefix_from_str s = Ok p \<Longrightarrow> prefix_ok p"
  by (auto simp: prefix_from_str_def Let_def ok_or_def prefix_ok_new split: prod.splits option.splits sum.splits if_splits)

lemma prefix_ok_parse: "parse_bypass s = Ok p \<Longrightarrow> prefix_ok p \<and> check_bypass p = Ok ()"
  by (auto simp: parse_bypass_def prefix_ok_from_str split: sum.splits)

lemma covers_family: "covers p a \<Longrightarrow> is_ipv4 a = is_ipv4 (prefix_address p)"
  unfolding covers_def by (metis full_length_mask(2))

lemma covers_V4: "prefix_address p = V4 n \<Longrightarrow> prefix_ok p \<Longrightarrow>
    covers p (V4 a) \<longleftrightarrow> unat a div 2 ^ (32 - prefix_length p) = unat n div 2 ^ (32 - prefix_length p)"
  unfolding covers_def prefix_ok_def prefix_mask_word word_mask_eq [symmetric] by (metis IpAddr.inject(1) prefix_mask_word(1))

lemma covers_V6: "prefix_address p = V6 n \<Longrightarrow> prefix_ok p \<Longrightarrow>
    covers p (V6 a) \<longleftrightarrow> unat a div 2 ^ (128 - prefix_length p) = unat n div 2 ^ (128 - prefix_length p)"
  unfolding covers_def prefix_ok_def prefix_mask_word word_mask_eq [symmetric] by (metis IpAddr.inject(2) prefix_mask_word(2))

lemma coarser_div: "i \<le> j \<Longrightarrow> (a :: nat) div 2 ^ i = b div 2 ^ i \<Longrightarrow> a div 2 ^ j = b div 2 ^ j"
  by (metis add_diff_inverse_nat div_mult2_eq not_less power_add)

lemma first_refused_None: "first_refused ps = None \<longleftrightarrow> list_all (\<lambda>p. check_bypass p = Ok ()) ps"
  by (induction ps) (auto split: sum.splits)

lemma octet0_div: "ipv4_octet 0 a = unat a div 2 ^ 24"
proof -
  have "unat a < 2 ^ 32" using unsigned_less [of a, where ?'a = nat] by simp
  then have "unat a div 16777216 < 256" by (simp add: less_mult_imp_div_less)
  then show ?thesis by (simp add: ipv4_octet_def)
qed

lemma segment0_div: "ipv6_segment 0 a = unat a div 2 ^ 112"
proof -
  have "unat a < 2 ^ 128" using unsigned_less [of a, where ?'a = nat] by simp
  then have "unat a div 2 ^ 112 < 65536" by (simp add: less_mult_imp_div_less)
  then show ?thesis by (simp add: ipv6_segment_def)
qed

definition never_tunnelled :: "IpAddr \<Rightarrow> bool" where
  "never_tunnelled a \<longleftrightarrow> ip_is_loopback a \<or> ip_is_multicast a \<or> ip_is_unspecified a"

lemma check_bypass_V4:
  "prefix_address p = V4 n \<Longrightarrow> check_bypass p = Ok () \<longleftrightarrow>
     8 \<le> prefix_length p \<and> \<not> ipv4_is_loopback n \<and> \<not> ipv4_is_multicast n \<and> n \<noteq> 0 \<and> \<not> ipv4_is_broadcast n"
  by (auto simp: check_bypass_def MIN_IPV4_PREFIX_def ipv4_is_unspecified_def Let_def)

lemma check_bypass_V6:
  "prefix_address p = V6 n \<Longrightarrow> check_bypass p = Ok () \<longleftrightarrow>
     16 \<le> prefix_length p \<and> n \<noteq> 1 \<and> \<not> ipv6_is_multicast n \<and> n \<noteq> 0"
  by (auto simp: check_bypass_def MIN_IPV6_PREFIX_def ipv6_is_unspecified_def ipv6_is_loopback_def Let_def)

lemma masked_zero: "word_mask k (n :: 'a::len word) = n \<Longrightarrow> unat (0 :: 'a::len word) div 2 ^ k = unat n div 2 ^ k \<Longrightarrow> n = 0"
  unfolding word_mask_eq [symmetric] by (simp add: word_mask_def)

lemma masked_one:
  assumes "word_mask k (n :: 'a::len word) = n" "unat (1 :: 'a::len word) div 2 ^ k = unat n div 2 ^ k"
  shows "n = 0 \<or> n = 1"
proof -
  have "unat n = unat n div 2 ^ k * 2 ^ k" using unat_word_mask [of k n] assms(1) by simp
  also have "\<dots> = unat (1 :: 'a word) div 2 ^ k * 2 ^ k" unfolding assms(2) ..
  also have "\<dots> \<le> unat (1 :: 'a word)" by (rule div_times_less_eq_dividend)
  finally have "unat n \<le> 1" by simp
  then have "unat n = 0 \<or> unat n = 1" by linarith
  then show ?thesis by (metis unat_0 unat_1 word_unat_eq_iff)
qed

lemma special_V4:
  assumes "prefix_ok p" "check_bypass p = Ok ()" "prefix_address p = V4 n" "covers p (V4 a)"
  shows "\<not> never_tunnelled (V4 a)"
proof -
  define k where "k = 32 - prefix_length p"
  note n = check_bypass_V4 [OF assms(3), THEN iffD1, OF assms(2)]
  have "k \<le> 24" using n unfolding k_def by linarith
  have same: "unat a div 2 ^ k = unat n div 2 ^ k" using covers_V4 [OF assms(3,1)] assms(4) unfolding k_def by blast
  have "ipv4_octet 0 a = ipv4_octet 0 n"
    unfolding octet0_div by (rule coarser_div [OF \<open>k \<le> 24\<close> same])
  moreover have "word_mask k n = n"
    using assms(1) unfolding prefix_ok_def assms(3) prefix_mask_word k_def by blast
  then have "a \<noteq> 0" using masked_zero [of k n] same n by blast
  ultimately show ?thesis using n
    unfolding never_tunnelled_def ip_is_loopback_def ip_is_multicast_def ip_is_unspecified_def ipv4_is_loopback_def
      ipv4_is_multicast_def ipv4_is_unspecified_def by simp
qed

lemma special_V6:
  assumes "prefix_ok p" "check_bypass p = Ok ()" "prefix_address p = V6 n" "covers p (V6 a)"
  shows "\<not> never_tunnelled (V6 a)"
proof -
  define k where "k = 128 - prefix_length p"
  note n = check_bypass_V6 [OF assms(3), THEN iffD1, OF assms(2)]
  have "k \<le> 112" using n unfolding k_def by linarith
  have same: "unat a div 2 ^ k = unat n div 2 ^ k" using covers_V6 [OF assms(3,1)] assms(4) unfolding k_def by blast
  have "ipv6_segment 0 a = ipv6_segment 0 n"
    unfolding segment0_div by (rule coarser_div [OF \<open>k \<le> 112\<close> same])
  moreover have "word_mask k n = n"
    using assms(1) unfolding prefix_ok_def assms(3) prefix_mask_word k_def by blast
  then have "a \<noteq> 0 \<and> a \<noteq> 1" using masked_zero [of k n] masked_one [of k n] same n by blast
  ultimately show ?thesis using n
    unfolding never_tunnelled_def ip_is_loopback_def ip_is_multicast_def ip_is_unspecified_def ipv6_is_loopback_def
      ipv6_is_multicast_def ipv6_is_unspecified_def by simp
qed

lemma same_block_card: "card {a :: 'a::len word. unat a div 2 ^ k = c} \<le> 2 ^ k"
proof -
  have "unat ` {a :: 'a word. unat a div 2 ^ k = c} \<subseteq> {c * 2 ^ k ..< c * 2 ^ k + 2 ^ k}"
    by (auto simp: div_mult_mod_eq)
      (metis add.commute div_mult_mod_eq mod_less_divisor nat_add_left_cancel_less zero_less_numeral zero_less_power)
  then have "card (unat ` {a :: 'a word. unat a div 2 ^ k = c}) \<le> 2 ^ k"
    using card_mono [of "{c * 2 ^ k ..< c * 2 ^ k + 2 ^ k}"] by simp
  then show ?thesis by (simp add: card_image inj_onI word_unat_eq_iff)
qed

lemma covers_card:
  assumes "prefix_ok p" "check_bypass p = Ok ()"
  shows "card {a. covers p a} \<le> (if is_ipv4 (prefix_address p) then 2 ^ 24 else 2 ^ 112)"
proof (cases "prefix_address p")
  case (V4 n)
  define k where "k = 32 - prefix_length p"
  have k: "k \<le> 24" using check_bypass_V4 [OF V4] assms(2) unfolding k_def by linarith
  have "{a. covers p a} \<subseteq> V4 ` {a. unat a div 2 ^ k = unat n div 2 ^ k}"
  proof
    fix a assume "a \<in> {a. covers p a}"
    then show "a \<in> V4 ` {a. unat a div 2 ^ k = unat n div 2 ^ k}"
      using covers_family [of p a] covers_V4 [OF V4 assms(1)] V4 unfolding k_def by (cases a) auto
  qed
  then have "card {a. covers p a} \<le> card {a :: 32 word. unat a div 2 ^ k = unat n div 2 ^ k}"
    by (rule surj_card_le [OF finite])
  also have "\<dots> \<le> 2 ^ k" by (rule same_block_card)
  also have "\<dots> \<le> 2 ^ 24" by (rule power_increasing [OF k]) simp
  finally show ?thesis using V4 by simp
next
  case (V6 n)
  define k where "k = 128 - prefix_length p"
  have k: "k \<le> 112" using check_bypass_V6 [OF V6] assms(2) unfolding k_def by linarith
  have "{a. covers p a} \<subseteq> V6 ` {a. unat a div 2 ^ k = unat n div 2 ^ k}"
  proof
    fix a assume "a \<in> {a. covers p a}"
    then show "a \<in> V6 ` {a. unat a div 2 ^ k = unat n div 2 ^ k}"
      using covers_family [of p a] covers_V6 [OF V6 assms(1)] V6 unfolding k_def by (cases a) auto
  qed
  then have "card {a. covers p a} \<le> card {a :: 128 word. unat a div 2 ^ k = unat n div 2 ^ k}"
    by (rule surj_card_le [OF finite])
  also have "\<dots> \<le> 2 ^ k" by (rule same_block_card)
  also have "\<dots> \<le> 2 ^ 112" by (rule power_increasing [OF k]) simp
  finally show ?thesis using V6 by simp
qed

lemma covers_special:
  assumes "prefix_ok p" "check_bypass p = Ok ()" "covers p a"
  shows "\<not> never_tunnelled a"
  using covers_family [OF assms(3)] special_V4 [OF assms(1,2)] special_V6 [OF assms(1,2)] assms(3)
  by (cases a; cases "prefix_address p") auto

lemma prefix_key_inject: "prefix_key p = prefix_key q \<longleftrightarrow> p = (q :: IpPrefix)"
  by (auto simp: prefix_key_def)

lemma sorted_remdups_strict: "sorted (xs :: 'a::linorder list) \<Longrightarrow> sorted_wrt (<) (remdups_adj xs)"
  by (induction xs rule: remdups_adj.induct) auto

lemma strictly_sorted_prefixes: "sorted_wrt (<) (map prefix_key (remdups_adj (sort_key prefix_key ps)))"
proof -
  have eq: "map prefix_key (remdups_adj xs) = remdups_adj (map prefix_key xs)" for xs
    by (rule remdups_adj_map_injective [symmetric]) (simp add: inj_def prefix_key_inject)
  show ?thesis unfolding eq by (rule sorted_remdups_strict) simp
qed

text \<open>
  C28: a bypass list cannot empty the tunnel. Whatever networks an app sends, an accepted
  list has at most 64 distinct networks in order, exactly those sent, none of them covers a
  loopback, multicast or unspecified address, and each takes at most a 256th of the IPv4
  addresses or a 65536th of the IPv6 addresses out of the tunnel.
\<close>

theorem bypass_stays_narrow:
  assumes "list_all prefix_ok entries" "bypass_deserialize entries = Ok l"
  shows "set l = set entries \<and> sorted_wrt (<) (map prefix_key l) \<and> length l \<le> 64
    \<and> (\<forall>p \<in> set l. (\<forall>a. covers p a \<longrightarrow> \<not> never_tunnelled a)
         \<and> card {a. covers p a} * (if is_ipv4 (prefix_address p) then 2 ^ 8 else 2 ^ 16)
             \<le> (if is_ipv4 (prefix_address p) then 2 ^ 32 else 2 ^ 128))"
proof -
  have l: "l = remdups_adj (sort_key prefix_key entries)" "length l \<le> 64" "list_all (\<lambda>p. check_bypass p = Ok ()) l"
    using assms(2) unfolding first_refused_None [symmetric]
    by (auto simp: bypass_deserialize_def bypass_new_def MAX_BYPASS_ENTRIES_def Let_def split: if_splits option.splits)
  have members: "set l = set entries" unfolding l(1) by simp
  moreover have "(\<forall>a. covers p a \<longrightarrow> \<not> never_tunnelled a)
         \<and> card {a. covers p a} * (if is_ipv4 (prefix_address p) then 2 ^ 8 else 2 ^ 16)
             \<le> (if is_ipv4 (prefix_address p) then 2 ^ 32 else 2 ^ 128)" if "p \<in> set l" for p
  proof -
    have p: "prefix_ok p" "check_bypass p = Ok ()"
      using that l(3) assms(1) members by (auto simp: list_all_iff)
    then show ?thesis using covers_special [OF p] covers_card [OF p] by (simp split: if_splits)
  qed
  ultimately show ?thesis using strictly_sorted_prefixes [of entries] l(1,2) by simp
qed

definition sample_prefix :: IpPrefix where
  "sample_prefix = \<lparr>prefix_address = V4 0xCB007100, prefix_length = 24\<rparr>"

lemma sample_prefix_ok: "prefix_ok sample_prefix"
  by (simp add: prefix_ok_def sample_prefix_def mask_numeral)

lemma sample_bypass: "bypass_deserialize [sample_prefix, sample_prefix] = Ok [sample_prefix]"
proof -
  have "check_bypass sample_prefix = Ok ()"
    using check_bypass_V4 [of sample_prefix "0xCB007100"]
    by (simp add: sample_prefix_def ipv4_is_loopback_def ipv4_is_multicast_def ipv4_octet_def ipv4_is_broadcast_def)
  then show ?thesis by (simp add: bypass_deserialize_def bypass_new_def MAX_BYPASS_ENTRIES_def)
qed

theorem bypass_stays_narrow_witness:
  "bypass_deserialize [sample_prefix, sample_prefix] = Ok [sample_prefix] \<and> \<not> covers sample_prefix (V4 0x7F000005)"
  using bypass_stays_narrow [of "[sample_prefix, sample_prefix]" "[sample_prefix]"] sample_prefix_ok sample_bypass
  by (auto simp: never_tunnelled_def ip_is_loopback_def ipv4_is_loopback_def ipv4_octet_def)

end
