(* ===== verification/Engine.thy ===== *)
theory Engine
  imports Step_Monad Tunnel_Protocol
begin

text \<open>
  The interface of the transport engines (\<open>transport.rs\<close> of crates/ket-client-core): how an
  adapter probes and connects, and what a running tunnel offers. The engines drive processes
  and sockets of the system, so they are arguments: functions on a world of any type. The
  model notes each call that starts or stops a tunnel, and what the server and the route
  check answered, newest first. The locale \<open>tunnel_holder\<close> is the contract of whoever holds
  tunnels, the client and the tunnel service: one tunnel at a time, and none lost.
\<close>

subsection \<open>Tunnels and adapters\<close>

record ProbeReport =
  resolved_addresses :: "(IpAddr \<times> nat) list"
  probe_elapsed_ms :: nat

datatype TunnelStatus = TunnelConnected | TunnelStopped | TunnelFailed rstr

text \<open>A tunnel: which one it is, and \<open>transport_id\<close>.\<close>

record ActiveTunnel =
  tunnel_handle :: nat
  tunnel_transport_id :: rstr

record StartedTunnel =
  started_tunnel :: ActiveTunnel
  handshake_latency_ms :: nat

record 'w TransportAdapter =
  adapter_supports :: "SessionTransport \<Rightarrow> bool"
  adapter_probe :: "SessionTransport \<Rightarrow> 'w \<Rightarrow> (ClientError + ProbeReport) \<times> 'w"
  adapter_connect :: "SessionTransport \<Rightarrow> ProbeReport \<Rightarrow> ConnectOptions \<Rightarrow> 'w \<Rightarrow> (ClientError + StartedTunnel) \<times> 'w"

record 'w Tunnels =
  tunnel_status :: "ActiveTunnel \<Rightarrow> 'w \<Rightarrow> TunnelStatus"
  tunnel_network :: "ActiveTunnel \<Rightarrow> 'w \<Rightarrow> NetworkReport"
  tunnel_stop :: "ActiveTunnel \<Rightarrow> 'w \<Rightarrow> (ClientError + unit) \<times> 'w"

subsection \<open>Calls\<close>

datatype call = Started ActiveTunnel | Stopped ActiveTunnel | StopFailed ActiveTunnel ClientError | Tried rstr
  | Answered "ClientError option" | Released rstr "ClientError option" | RouteChecked bool

record 'w world =
  env :: 'w
  calls :: "call list"

definition ask :: "('w \<Rightarrow> 'a \<times> 'w) \<Rightarrow> ('w world, 'a) state" where
  "ask f = State (\<lambda>s. case f (env s) of (r, w) \<Rightarrow> (r, s\<lparr>env := w\<rparr>))"

definition noted :: "call \<Rightarrow> ('w world, unit) state" where
  "noted c = changes (\<lambda>s. s\<lparr>calls := c # calls s\<rparr>)"

definition engine_connect :: "'w TransportAdapter \<Rightarrow> SessionTransport \<Rightarrow> ProbeReport \<Rightarrow> ConnectOptions
    \<Rightarrow> ('w world, ClientError + StartedTunnel) state" where
  "engine_connect adapter transport probe options = do {
     r \<leftarrow> ask (adapter_connect adapter transport probe options);
     (case r of Err e \<Rightarrow> done_with () | Ok started \<Rightarrow> noted (Started (started_tunnel started)));
     done_with r }"

definition engine_stop :: "'w Tunnels \<Rightarrow> ActiveTunnel \<Rightarrow> ('w world, ClientError + unit) state" where
  "engine_stop tunnels t = do {
     r \<leftarrow> ask (tunnel_stop tunnels t);
     noted (case r of Err e \<Rightarrow> StopFailed t e | Ok _ \<Rightarrow> Stopped t);
     done_with r }"

subsection \<open>Which tunnels run\<close>

fun running :: "call list \<Rightarrow> ActiveTunnel list" where
  "running [] = []"
| "running (Started t # cs) = t # running cs"
| "running (Stopped t # cs) = remove1 t (running cs)"
| "running (_ # cs) = running cs"

text \<open>A tunnel is started only when none runs, and only a running one is stopped.\<close>

fun one_at_a_time :: "call list \<Rightarrow> bool" where
  "one_at_a_time [] \<longleftrightarrow> True"
| "one_at_a_time (Started t # cs) \<longleftrightarrow> running cs = [] \<and> one_at_a_time cs"
| "one_at_a_time (Stopped t # cs) \<longleftrightarrow> running cs = [t] \<and> one_at_a_time cs"
| "one_at_a_time (_ # cs) \<longleftrightarrow> one_at_a_time cs"

definition accounted :: "call list \<Rightarrow> ActiveTunnel list \<Rightarrow> bool" where
  "accounted cs held \<longleftrightarrow> one_at_a_time cs \<and> running cs = held"

lemma accounted_simps [simp]:
  "accounted [] [] = True"
  "accounted (Tried i # cs) held = accounted cs held"
  "accounted (Answered a # cs) held = accounted cs held"
  "accounted (Released k a # cs) held = accounted cs held"
  "accounted (RouteChecked b # cs) held = accounted cs held"
  "accounted (StopFailed t e # cs) held = accounted cs held"
  by (simp_all add: accounted_def)

lemma accounted_started: "accounted cs [] \<Longrightarrow> accounted (Started t # cs) [t]"
  by (simp add: accounted_def)

lemma accounted_stopped: "accounted cs [t] \<Longrightarrow> accounted (Stopped t # cs) []"
  by (simp add: accounted_def)

lemma after_ask [after_rules, simp]:
  "after (ask f) Q s \<longleftrightarrow> Q (fst (f (env s))) (s\<lparr>env := snd (f (env s))\<rparr>)"
  by (simp add: after_def ask_def split: prod.splits)

lemma after_noted [after_rules, simp]: "after (noted c) Q s \<longleftrightarrow> Q () (s\<lparr>calls := c # calls s\<rparr>)"
  by (simp add: noted_def)

locale tunnel_holder =
  fixes start :: 's
    and step :: "'op \<Rightarrow> 's \<Rightarrow> 's"
    and ok :: "'s \<Rightarrow> bool"
    and held :: "'s \<Rightarrow> ActiveTunnel list"
    and log :: "'s \<Rightarrow> call list"
  assumes start_ok: "ok start"
    and step_ok: "ok s \<Longrightarrow> ok (step op s)"
    and ok_accounted: "ok s \<Longrightarrow> accounted (log s) (held s)"
    and one_held: "ok s \<Longrightarrow> length (held s) \<le> 1"
begin

lemma run_ok: "ok s \<Longrightarrow> ok (fold step ops s)"
  by (induction ops arbitrary: s) (simp_all add: step_ok)

lemma never_lost: "accounted (log (fold step ops start)) (held (fold step ops start))"
  by (rule ok_accounted [OF run_ok [OF start_ok]])

lemma at_most_one: "length (running (log (fold step ops start))) \<le> 1"
  using never_lost [of ops] one_held [OF run_ok [OF start_ok], of ops] by (simp add: accounted_def)

end

end
