(* ===== verification/Client_Machine.thy ===== *)
theory Client_Machine
  imports Client_Strategy Engine
begin

text \<open>
  The client (\<open>client.rs\<close> and \<open>state.rs\<close> of crates/ket-client-core): enrolling, connecting
  with fallback, keeping the connection and the lease, and leaving. The record \<open>KetClient\<close>
  has what a client is given: the control plane, the transport adapters, the route check, the
  transport memory and the clock, all functions on the world. The record \<open>Client\<close> is what it
  changes: the runtime state, the snapshot apps see, the cancellation counter and the world.
  Every operation holds the lock \<open>operation\<close> from start to end, so operations run one after
  another; a cancellation by another task is seen when the world says so.
\<close>

subsection \<open>What apps see\<close>

datatype ClientPhase = Disconnected | Enrolling | Enrolled | Probing | Connecting | Connected | Reconnecting
  | Disconnecting | PhaseError

record TransportSummary =
  sum_id :: rstr
  sum_display_name :: rstr
  sum_protocol :: TransportProtocol
  sum_network :: Network

definition transport_summary :: "TransportProfile \<Rightarrow> TransportSummary" where
  "transport_summary profile = \<lparr>sum_id = prof_id profile, sum_display_name = prof_display_name profile,
     sum_protocol = prof_protocol profile, sum_network = prof_network profile\<rparr>"

datatype FallbackStage = ProbeStage | ConnectStage | ConnectedStage

record TransportFallback =
  fb_transport :: TransportSummary
  fb_issue :: ClientIssue
  fb_stage :: FallbackStage
  fb_elapsed_ms :: "nat option"

record ClientSnapshot =
  sn_phase :: ClientPhase
  sn_node :: "NodeStatus option"
  sn_available_transports :: "TransportSummary list"
  sn_preferred_protocol :: "TransportProtocol option"
  sn_active_transport :: "TransportSummary option"
  sn_traffic :: "SessionTraffic option"
  sn_allowance :: "AllowanceStatus option"
  sn_handshake_latency_ms :: "nat option"
  sn_session_expires_at :: "nat option"
  sn_access_expires_at :: "nat option"
  sn_connected_at :: "nat option"
  sn_reconnect_attempt :: nat
  sn_issue :: "ClientIssue option"
  sn_fallbacks :: "TransportFallback list"
  sn_server_version :: "rstr option"
  sn_client_update :: "ClientUpdate option"
  sn_updated_at :: nat

definition default_snapshot :: ClientSnapshot where
  "default_snapshot = \<lparr>sn_phase = Disconnected, sn_node = None, sn_available_transports = [], sn_preferred_protocol = None,
     sn_active_transport = None, sn_traffic = None, sn_allowance = None, sn_handshake_latency_ms = None,
     sn_session_expires_at = None, sn_access_expires_at = None, sn_connected_at = None, sn_reconnect_attempt = 0,
     sn_issue = None, sn_fallbacks = [], sn_server_version = None, sn_client_update = None, sn_updated_at = 0\<rparr>"

definition apply_advice :: "UpdateAdvice option \<Rightarrow> ClientSnapshot \<Rightarrow> ClientSnapshot" where
  "apply_advice advice sn = (case advice of None \<Rightarrow> sn
     | Some a \<Rightarrow> sn\<lparr>sn_server_version := Some (adv_server_version a), sn_client_update := Some (adv_client a)\<rparr>)"

subsection \<open>What a client is and holds\<close>

definition MAX_FALLBACKS :: nat where "MAX_FALLBACKS = 8"

record ProbeIdentity =
  pid_endpoint :: rstr
  pid_port :: nat
  pid_protocol :: TransportProtocol
  pid_tls_server_name :: "rstr option"

definition probe_identity :: "SessionTransport \<Rightarrow> ProbeIdentity" where
  "probe_identity t = \<lparr>pid_endpoint = prof_endpoint (tr_profile t), pid_port = prof_port (tr_profile t),
     pid_protocol = prof_protocol (tr_profile t), pid_tls_server_name = prof_tls_server_name (tr_profile t)\<rparr>"

record CachedProbe =
  cached_identity :: ProbeIdentity
  cached_report :: ProbeReport

record RuntimeState =
  rt_session :: "SessionManifest option"
  rt_renew_at :: "nat option"
  rt_control_failures :: nat
  rt_tunnel :: "ActiveTunnel option"
  rt_connection_requested :: bool
  rt_preferred_protocol :: "TransportProtocol option"
  rt_connect_options :: ConnectOptions
  rt_history :: TransportHistory
  rt_probes :: "rstr \<rightharpoonup> CachedProbe"
  rt_network_generation :: nat
  rt_memory :: "nat option"
  rt_automatic_excluded :: "TransportProtocol set"

definition new_runtime :: RuntimeState where
  "new_runtime = \<lparr>rt_session = None, rt_renew_at = None, rt_control_failures = 0, rt_tunnel = None,
     rt_connection_requested = False, rt_preferred_protocol = None, rt_connect_options = default_options, rt_history = [],
     rt_probes = Map.empty, rt_network_generation = 0, rt_memory = None, rt_automatic_excluded = {}\<rparr>"

record 'w KetClient =
  kc_client_name :: rstr
  kc_create_session :: "rstr \<Rightarrow> rstr \<Rightarrow> 'w \<Rightarrow> (ClientError + SessionManifest) \<times> 'w"
  kc_session_status :: "rstr \<Rightarrow> 'w \<Rightarrow> (ClientError + SessionStatus) \<times> 'w"
  kc_renew_session :: "rstr \<Rightarrow> 'w \<Rightarrow> (ClientError + SessionStatus) \<times> 'w"
  kc_release_session :: "rstr \<Rightarrow> 'w \<Rightarrow> (ClientError + unit) \<times> 'w"
  kc_adapters :: "'w TransportAdapter list"
  kc_policy :: SelectionPolicy
  kc_tunnels :: "'w Tunnels"
  kc_is_healthy :: "'w \<Rightarrow> bool \<times> 'w"
  kc_memory_load :: "nat \<Rightarrow> 'w \<Rightarrow> TransportHistory \<times> 'w"
  kc_memory_save :: "nat \<Rightarrow> TransportHistory \<Rightarrow> 'w \<Rightarrow> unit \<times> 'w"
  kc_unix_time :: "'w \<Rightarrow> nat \<times> 'w"
  kc_elapsed_ms :: "'w \<Rightarrow> nat \<times> 'w"
  kc_cancelled :: "'w \<Rightarrow> bool \<times> 'w"
  kc_url_parse :: "rstr \<Rightarrow> parsed_url option"

record 'w Client =
  cl_runtime :: RuntimeState
  cl_snapshot :: ClientSnapshot
  cl_cancellation :: nat
  cl_world :: "'w world"

definition client_name_of :: "rstr \<Rightarrow> ClientError + rstr" where
  "client_name_of name = (let name = trim name in
     if name = [] \<or> length name > 96
     then Err (InvalidClientInput (lit ''client name must contain between 1 and 96 characters'')) else Ok name)"

definition client_new :: "nat \<Rightarrow> 'w world \<Rightarrow> 'w Client" where
  "client_new now w = \<lparr>cl_runtime = new_runtime, cl_snapshot = default_snapshot\<lparr>sn_updated_at := now\<rparr>, cl_cancellation = 0,
     cl_world = w\<rparr>"

subsection \<open>Steps\<close>

definition on_world :: "('w world, 'a) state \<Rightarrow> ('w Client, 'a) state" where
  "on_world m = State (\<lambda>s. case run_state m (cl_world s) of (r, w) \<Rightarrow> (r, s\<lparr>cl_world := w\<rparr>))"

definition runtime :: "(RuntimeState \<Rightarrow> 'a) \<Rightarrow> ('w Client, 'a) state" where
  "runtime f = reads (\<lambda>s. f (cl_runtime s))"

definition set_runtime :: "(RuntimeState \<Rightarrow> RuntimeState) \<Rightarrow> ('w Client, unit) state" where
  "set_runtime f = changes (\<lambda>s. s\<lparr>cl_runtime := f (cl_runtime s)\<rparr>)"

definition client_time :: "'w KetClient \<Rightarrow> ('w Client, nat) state" where
  "client_time cf = on_world (ask (kc_unix_time cf))"

definition update_snapshot :: "'w KetClient \<Rightarrow> (ClientSnapshot \<Rightarrow> ClientSnapshot) \<Rightarrow> ('w Client, unit) state" where
  "update_snapshot cf f = do {
     now \<leftarrow> client_time cf;
     changes (\<lambda>s. s\<lparr>cl_snapshot := (f (cl_snapshot s))\<lparr>sn_updated_at := now\<rparr>\<rparr>) }"

definition answer_snapshot :: "('w Client, ClientError + ClientSnapshot) state" where
  "answer_snapshot = reads (\<lambda>s. Ok (cl_snapshot s))"

definition client_fail :: "'w KetClient \<Rightarrow> ClientError \<Rightarrow> ('w Client, unit) state" where
  "client_fail cf error = update_snapshot cf (\<lambda>sn. (case required_update error of
       None \<Rightarrow> sn | Some update \<Rightarrow> sn\<lparr>sn_client_update := Some update\<rparr>)\<lparr>sn_phase := PhaseError, sn_issue := Some (issue error)\<rparr>)"

definition stop_and_retain_on_failure :: "'w KetClient \<Rightarrow> ActiveTunnel \<Rightarrow> ('w Client, ClientError + unit) state" where
  "stop_and_retain_on_failure cf tunnel = do {
     r \<leftarrow> on_world (engine_stop (kc_tunnels cf) tunnel);
     (case r of
        Ok _ \<Rightarrow> done_with ()
      | Err e \<Rightarrow> set_runtime (\<lambda>rt. if rt_tunnel rt = None then rt\<lparr>rt_tunnel := Some tunnel\<rparr> else rt));
     done_with r }"

definition renewal_deadline :: "nat \<Rightarrow> nat \<Rightarrow> nat" where
  "renewal_deadline now expires_at = sat_add64 now ((expires_at - now) div 2)"

definition validate_access_code :: "rstr \<Rightarrow> ClientError + unit" where
  "validate_access_code code = (if str_len code = ACCESS_CODE_LENGTH \<and> list_all is_alnum code then Ok ()
     else Err (InvalidClientInput (lit ''access code must contain exactly '' @ decimal ACCESS_CODE_LENGTH
       @ lit '' ASCII letters or digits'')))"

fun protocol_label :: "TransportProtocol \<Rightarrow> rstr" where
  "protocol_label Hysteria2 = lit ''Hysteria 2''"
| "protocol_label Ikev2 = lit ''IKEv2''"
| "protocol_label OpenVpnStunnel = lit ''OpenVPN TLS''"
| "protocol_label Shadowsocks2022 = lit ''Shadowsocks 2022''"
| "protocol_label Stealth = lit ''HTTPS Stealth''"
| "protocol_label VlessXtlsReality = lit ''VLESS + REALITY''"
| "protocol_label WireGuard = lit ''WireGuard TLS''"
| "protocol_label XorScrambled = lit ''Hysteria XOR''"

subsection \<open>Enrolling\<close>

definition client_release :: "'w KetClient \<Rightarrow> rstr \<Rightarrow> ('w Client, ClientError + unit) state" where
  "client_release cf token = on_world (do {
     r \<leftarrow> ask (kc_release_session cf token);
     noted (Released token (case r of Err e \<Rightarrow> Some e | Ok _ \<Rightarrow> None));
     done_with r })"

definition enrolled_with :: "'w KetClient \<Rightarrow> SessionManifest \<Rightarrow> ('w Client, ClientError + ClientSnapshot) state" where
  "enrolled_with cf manifest = do {
     now \<leftarrow> client_time cf;
     set_runtime (\<lambda>rt. rt\<lparr>rt_renew_at := Some (renewal_deadline now (man_session_expires_at manifest)), rt_session := Some manifest\<rparr>);
     update_snapshot cf (\<lambda>sn. apply_advice (man_updates manifest) (sn\<lparr>sn_phase := Enrolled, sn_node := Some (man_node manifest),
       sn_available_transports := map (\<lambda>t. transport_summary (tr_profile t))
         (filter (\<lambda>t. list_ex (\<lambda>a. adapter_supports a t) (kc_adapters cf)) (man_transports manifest)),
       sn_session_expires_at := Some (man_session_expires_at manifest), sn_access_expires_at := man_access_expires_at manifest,
       sn_issue := None\<rparr>));
     answer_snapshot }"

definition refuse_session :: "'w KetClient \<Rightarrow> SessionManifest \<Rightarrow> ClientError \<Rightarrow> ('w Client, ClientError + ClientSnapshot) state" where
  "refuse_session cf manifest error = do {
     (case split_session_token (man_session_token manifest) of
        Err _ \<Rightarrow> done_with (Ok ()) | Ok _ \<Rightarrow> client_release cf (man_session_token manifest));
     client_fail cf error;
     done_with (Err error) }"

definition session_created :: "'w KetClient \<Rightarrow> ClientError + SessionManifest \<Rightarrow> ('w Client, ClientError + ClientSnapshot) state" where
  "session_created cf created = (case created of
     Err e \<Rightarrow> do { client_fail cf e; done_with (Err e) }
   | Ok manifest \<Rightarrow> do {
       now \<leftarrow> client_time cf;
       (case validate_manifest (kc_url_parse cf) manifest now of
          Err e \<Rightarrow> refuse_session cf manifest e
        | Ok _ \<Rightarrow> enrolled_with cf manifest) })"

definition enroll :: "'w KetClient \<Rightarrow> rstr \<Rightarrow> ('w Client, ClientError + ClientSnapshot) state" where
  "enroll cf access_code = (case validate_access_code access_code of Err e \<Rightarrow> done_with (Err e) | Ok _ \<Rightarrow> do {
     session \<leftarrow> runtime rt_session;
     if session \<noteq> None then
       done_with (Err (InvalidClientInput (lit ''disconnect the current enrollment before entering a new code'')))
     else do {
       update_snapshot cf (\<lambda>sn. sn\<lparr>sn_phase := Enrolling, sn_issue := None, sn_reconnect_attempt := 0\<rparr>);
       created \<leftarrow> on_world (ask (kc_create_session cf access_code (kc_client_name cf)));
       session_created cf created } })"

subsection \<open>Settings\<close>

definition set_connect_options :: "ConnectOptions \<Rightarrow> ('w Client, unit) state" where
  "set_connect_options options = set_runtime (\<lambda>rt. rt\<lparr>rt_connect_options := options\<rparr>)"

definition set_transport_memory :: "nat \<Rightarrow> ('w Client, unit) state" where
  "set_transport_memory memory = set_runtime (\<lambda>rt. rt\<lparr>rt_memory := Some memory\<rparr>)"

definition set_automatic_exclusions :: "TransportProtocol set \<Rightarrow> ('w Client, unit) state" where
  "set_automatic_exclusions excluded = set_runtime (\<lambda>rt. rt\<lparr>rt_automatic_excluded := excluded\<rparr>)"

subsection \<open>The lease\<close>

definition apply_status :: "'w KetClient \<Rightarrow> SessionStatus \<Rightarrow> bool \<Rightarrow> ('w Client, unit) state" where
  "apply_status cf status renewed = do {
     set_runtime (\<lambda>rt. rt\<lparr>rt_session := map_option (\<lambda>session. session\<lparr>man_node := st_node status,
       man_session_expires_at := st_expires_at status, man_access_expires_at := st_access_expires_at status\<rparr>) (rt_session rt)\<rparr>);
     (if renewed then do {
        now \<leftarrow> client_time cf;
        set_runtime (\<lambda>rt. rt\<lparr>rt_renew_at := Some (renewal_deadline now (st_expires_at status))\<rparr>) }
      else done_with ());
     set_runtime (\<lambda>rt. rt\<lparr>rt_control_failures := 0\<rparr>);
     update_snapshot cf (\<lambda>sn. apply_advice (st_updates status) (sn\<lparr>sn_node := Some (st_node status),
       sn_traffic := Some (st_traffic status), sn_allowance := st_allowance status,
       sn_session_expires_at := Some (st_expires_at status), sn_access_expires_at := st_access_expires_at status,
       sn_issue := None\<rparr>)) }"

definition surface :: "'w KetClient \<Rightarrow> bool \<Rightarrow> ClientError \<Rightarrow> ('w Client, ClientError + ClientSnapshot) state" where
  "surface cf surface_errors error = do {
     (if surface_errors then update_snapshot cf (\<lambda>sn. sn\<lparr>sn_issue := Some (issue error)\<rparr>) else done_with ());
     done_with (Err error) }"

definition forget_session :: "('w Client, unit) state" where
  "forget_session = set_runtime (\<lambda>rt. rt\<lparr>rt_session := None, rt_renew_at := None, rt_control_failures := 0,
     rt_probes := Map.empty\<rparr>)"

definition take_tunnel :: "('w Client, ActiveTunnel option) state" where
  "take_tunnel = do {
     tunnel \<leftarrow> runtime rt_tunnel;
     set_runtime (\<lambda>rt. rt\<lparr>rt_tunnel := None\<rparr>);
     done_with tunnel }"

definition stop_taken :: "'w KetClient \<Rightarrow> ActiveTunnel option \<Rightarrow> ('w Client, ClientError + unit) state" where
  "stop_taken cf tunnel = (case tunnel of None \<Rightarrow> done_with (Ok ()) | Some t \<Rightarrow> stop_and_retain_on_failure cf t)"

definition session_closed :: "'w KetClient \<Rightarrow> ClientError \<Rightarrow> ClientError + unit \<Rightarrow> ('w Client, ClientError + ClientSnapshot) state" where
  "session_closed cf error stopped = (case stopped of
     Err cleanup_error \<Rightarrow> do {
       update_snapshot cf (\<lambda>sn. sn\<lparr>sn_phase := PhaseError, sn_issue := Some (issue cleanup_error)\<rparr>);
       done_with (Err cleanup_error) }
   | Ok _ \<Rightarrow> do {
       forget_session;
       update_snapshot cf (\<lambda>sn. (case required_update error of None \<Rightarrow> sn
           | Some update \<Rightarrow> sn\<lparr>sn_client_update := Some update\<rparr>)\<lparr>sn_phase := PhaseError, sn_active_transport := None,
         sn_available_transports := [], sn_preferred_protocol := None, sn_traffic := None, sn_allowance := None,
         sn_session_expires_at := None, sn_access_expires_at := None, sn_connected_at := None,
         sn_handshake_latency_ms := None, sn_reconnect_attempt := 0, sn_issue := Some (issue error)\<rparr>);
       done_with (Err error) })"

definition session_over :: "'w KetClient \<Rightarrow> ClientError \<Rightarrow> ('w Client, ClientError + ClientSnapshot) state" where
  "session_over cf error = do {
     set_runtime (\<lambda>rt. rt\<lparr>rt_connection_requested := False, rt_preferred_protocol := None\<rparr>);
     tunnel \<leftarrow> take_tunnel;
     stopped \<leftarrow> stop_taken cf tunnel;
     session_closed cf error stopped }"

definition ask_session :: "'w KetClient \<Rightarrow> bool \<Rightarrow> rstr \<Rightarrow> ('w Client, ClientError + SessionStatus) state" where
  "ask_session cf renew token = on_world (do {
     r \<leftarrow> ask (if renew then kc_renew_session cf token else kc_session_status cf token);
     noted (Answered (case r of Err e \<Rightarrow> Some e | Ok _ \<Rightarrow> None));
     done_with r })"

definition session_answered :: "'w KetClient \<Rightarrow> bool \<Rightarrow> bool \<Rightarrow> rstr \<Rightarrow> ClientError + SessionStatus
    \<Rightarrow> ('w Client, ClientError + ClientSnapshot) state" where
  "session_answered cf renew surface_errors token status = (case status of
     Ok status \<Rightarrow> do {
       now \<leftarrow> client_time cf;
       (case validate_status (kc_url_parse cf) status token (kc_client_name cf) now of
          Err e \<Rightarrow> surface cf surface_errors e
        | Ok _ \<Rightarrow> do { apply_status cf status renew; answer_snapshot }) }
   | Err e \<Rightarrow> if ends_session e then session_over cf e else surface cf surface_errors e)"

definition refresh_locked :: "'w KetClient \<Rightarrow> bool \<Rightarrow> bool \<Rightarrow> ('w Client, ClientError + ClientSnapshot) state" where
  "refresh_locked cf renew surface_errors = do {
     session \<leftarrow> runtime rt_session;
     (case session of
        None \<Rightarrow> done_with (Err NotEnrolled)
      | Some session \<Rightarrow> do {
          status \<leftarrow> ask_session cf renew (man_session_token session);
          session_answered cf renew surface_errors (man_session_token session) status }) }"

definition renew_due :: "'w KetClient \<Rightarrow> ('w Client, bool) state" where
  "renew_due cf = do {
     deadline \<leftarrow> runtime rt_renew_at;
     (case deadline of None \<Rightarrow> done_with False
      | Some deadline \<Rightarrow> do { now \<leftarrow> client_time cf; done_with (now \<ge> deadline) }) }"

definition renew_before_connect_locked :: "'w KetClient \<Rightarrow> ('w Client, ClientError + unit) state" where
  "renew_before_connect_locked cf = do {
     now \<leftarrow> client_time cf;
     session \<leftarrow> runtime rt_session;
     deadline \<leftarrow> runtime rt_renew_at;
     (case session of
        None \<Rightarrow> done_with (Err NotEnrolled)
      | Some session \<Rightarrow>
        if \<not> (case deadline of None \<Rightarrow> False | Some deadline \<Rightarrow> now \<ge> deadline) then done_with (Ok ())
        else do {
          r \<leftarrow> refresh_locked cf True False;
          (case r of
             Ok _ \<Rightarrow> done_with (Ok ())
           | Err e \<Rightarrow> (case e of
               NetworkError m \<Rightarrow> do {
                 now \<leftarrow> client_time cf;
                 if now < man_session_expires_at session
                 then do { update_snapshot cf (\<lambda>sn. sn\<lparr>sn_issue := None\<rparr>); done_with (Ok ()) }
                 else done_with (Err e) }
             | _ \<Rightarrow> done_with (Err e))) }) }"

subsection \<open>Connecting\<close>

definition finish_cancelled_connection :: "'w KetClient \<Rightarrow> ('w Client, ClientError + ClientSnapshot) state" where
  "finish_cancelled_connection cf = do {
     set_runtime (\<lambda>rt. rt\<lparr>rt_connection_requested := False\<rparr>);
     update_snapshot cf (\<lambda>sn. sn\<lparr>sn_phase := Enrolled, sn_active_transport := None, sn_connected_at := None,
       sn_handshake_latency_ms := None, sn_reconnect_attempt := 0, sn_issue := None\<rparr>);
     answer_snapshot }"

definition save_memory :: "'w KetClient \<Rightarrow> ('w Client, unit) state" where
  "save_memory cf = do {
     memory \<leftarrow> runtime rt_memory;
     history \<leftarrow> runtime rt_history;
     (case memory of None \<Rightarrow> done_with () | Some m \<Rightarrow> on_world (ask (kc_memory_save cf m history))) }"

definition cool_down :: "'w KetClient \<Rightarrow> rstr \<Rightarrow> ('w Client, unit) state" where
  "cool_down cf transport_id = do {
     now \<leftarrow> client_time cf;
     set_runtime (\<lambda>rt. rt\<lparr>rt_history :=
       record_failure transport_id now (failure_cooldown_seconds (kc_policy cf)) (rt_history rt)\<rparr>);
     save_memory cf }"

definition note_fallback :: "'w KetClient \<Rightarrow> TransportFallback \<Rightarrow> ('w Client, unit) state" where
  "note_fallback cf fallback = update_snapshot cf (\<lambda>sn. let fallbacks = sn_fallbacks sn @ [fallback]
     in sn\<lparr>sn_fallbacks := drop (length fallbacks - MAX_FALLBACKS) fallbacks\<rparr>)"

definition client_record_failure :: "'w KetClient \<Rightarrow> TransportSummary \<Rightarrow> ClientError \<Rightarrow> FallbackStage \<Rightarrow> ('w Client, unit) state" where
  "client_record_failure cf transport error stage = do {
     cool_down cf (sum_id transport);
     elapsed \<leftarrow> on_world (ask (kc_elapsed_ms cf));
     note_fallback cf \<lparr>fb_transport = transport, fb_issue = issue error, fb_stage = stage,
       fb_elapsed_ms = Some (min elapsed u64_max)\<rparr> }"

definition record_lost_tunnel :: "'w KetClient \<Rightarrow> rstr \<Rightarrow> rstr \<Rightarrow> rstr \<Rightarrow> ('w Client, unit) state" where
  "record_lost_tunnel cf transport_id code message = do {
     cool_down cf transport_id;
     transport \<leftarrow> reads (\<lambda>s. sn_active_transport (cl_snapshot s));
     (case transport of
        None \<Rightarrow> done_with ()
      | Some transport \<Rightarrow> if sum_id transport = transport_id
          then note_fallback cf \<lparr>fb_transport = transport,
            fb_issue = \<lparr>issue_code = code, issue_message = message, issue_retryable = True\<rparr>,
            fb_stage = ConnectedStage, fb_elapsed_ms = None\<rparr>
          else done_with ()) }"

definition cached_probe :: "SessionTransport \<Rightarrow> ClientError \<Rightarrow> ('w Client, ProbeReport option) state" where
  "cached_probe transport error = (if \<not> is_dns_resolution_failure error then done_with None
     else runtime (\<lambda>rt. case rt_probes rt (prof_id (tr_profile transport)) of
       None \<Rightarrow> None
     | Some cached \<Rightarrow> if cached_identity cached = probe_identity transport then Some (cached_report cached) else None))"

definition cache_probe :: "SessionTransport \<Rightarrow> ProbeReport \<Rightarrow> ('w Client, unit) state" where
  "cache_probe transport report = set_runtime (\<lambda>rt. rt\<lparr>rt_probes := (rt_probes rt)(prof_id (tr_profile transport) \<mapsto>
     \<lparr>cached_identity = probe_identity transport, cached_report = report\<rparr>)\<rparr>)"

text \<open>One transport: what connecting ends with, or the error after which the next one is tried.\<close>

datatype attempt = Finished "ClientError + ClientSnapshot" | NextAfter ClientError

definition tunnel_up :: "'w KetClient \<Rightarrow> SessionTransport \<Rightarrow> ProbeReport \<Rightarrow> StartedTunnel \<Rightarrow> ('w Client, ClientError + ClientSnapshot) state" where
  "tunnel_up cf transport probe started = (let latency = min (handshake_latency_ms started) u64_max in do {
     cache_probe transport probe;
     set_runtime (\<lambda>rt. rt\<lparr>rt_history := record_success (prof_id (tr_profile transport)) latency (rt_history rt)\<rparr>);
     save_memory cf;
     w \<leftarrow> reads (\<lambda>s. env (cl_world s));
     set_runtime (\<lambda>rt. rt\<lparr>rt_network_generation := generation (tunnel_network (kc_tunnels cf) (started_tunnel started) w),
       rt_tunnel := Some (started_tunnel started)\<rparr>);
     now \<leftarrow> client_time cf;
     update_snapshot cf (\<lambda>sn. sn\<lparr>sn_phase := Connected, sn_active_transport := Some (transport_summary (tr_profile transport)),
       sn_handshake_latency_ms := Some latency, sn_connected_at := Some now, sn_reconnect_attempt := 0, sn_issue := None\<rparr>);
     answer_snapshot })"

definition cancelled_attempt :: "'w KetClient \<Rightarrow> ('w Client, attempt) state" where
  "cancelled_attempt cf = do { r \<leftarrow> finish_cancelled_connection cf; done_with (Finished r) }"

definition failed_attempt :: "'w KetClient \<Rightarrow> SessionTransport \<Rightarrow> FallbackStage \<Rightarrow> ClientError \<Rightarrow> ('w Client, attempt) state" where
  "failed_attempt cf transport stage error = do {
     client_record_failure cf (transport_summary (tr_profile transport)) error stage;
     done_with (NextAfter error) }"

definition stop_cancelled :: "'w KetClient \<Rightarrow> ActiveTunnel \<Rightarrow> ('w Client, attempt) state" where
  "stop_cancelled cf tunnel = do {
     r \<leftarrow> stop_and_retain_on_failure cf tunnel;
     (case r of
        Err e \<Rightarrow> do { client_fail cf e; done_with (Finished (Err e)) }
      | Ok _ \<Rightarrow> cancelled_attempt cf) }"

definition tunnel_started :: "'w KetClient \<Rightarrow> SessionTransport \<Rightarrow> ProbeReport \<Rightarrow> ClientError + StartedTunnel \<Rightarrow> ('w Client, attempt) state" where
  "tunnel_started cf transport probe outcome = (case outcome of
     Err e \<Rightarrow> failed_attempt cf transport ConnectStage e
   | Ok started \<Rightarrow> do {
       cancelled \<leftarrow> on_world (ask (kc_cancelled cf));
       if cancelled then stop_cancelled cf (started_tunnel started)
       else do { r \<leftarrow> tunnel_up cf transport probe started; done_with (Finished r) } })"

definition connect_attempt :: "'w KetClient \<Rightarrow> bool \<Rightarrow> ConnectOptions \<Rightarrow> 'w TransportAdapter \<Rightarrow> SessionTransport \<Rightarrow> ProbeReport
    \<Rightarrow> ('w Client, attempt) state" where
  "connect_attempt cf reconnecting options adapter transport probe = do {
     update_snapshot cf (\<lambda>sn. sn\<lparr>sn_phase := if reconnecting then Reconnecting else Connecting\<rparr>);
     cancelled \<leftarrow> on_world (ask (kc_cancelled cf));
     if cancelled then cancelled_attempt cf
     else do {
       outcome \<leftarrow> on_world (engine_connect adapter transport probe options);
       tunnel_started cf transport probe outcome } }"

definition probe_answered :: "'w KetClient \<Rightarrow> bool \<Rightarrow> ConnectOptions \<Rightarrow> 'w TransportAdapter \<Rightarrow> SessionTransport \<Rightarrow> ClientError + ProbeReport
    \<Rightarrow> ('w Client, attempt) state" where
  "probe_answered cf reconnecting options adapter transport probed = (case probed of
     Ok probe \<Rightarrow> connect_attempt cf reconnecting options adapter transport probe
   | Err e \<Rightarrow> do {
       cached \<leftarrow> cached_probe transport e;
       (case cached of
          Some probe \<Rightarrow> connect_attempt cf reconnecting options adapter transport probe
        | None \<Rightarrow> failed_attempt cf transport ProbeStage e) })"

definition probe_attempt :: "'w KetClient \<Rightarrow> bool \<Rightarrow> ConnectOptions \<Rightarrow> nat \<Rightarrow> 'w TransportAdapter \<Rightarrow> SessionTransport
    \<Rightarrow> ('w Client, attempt) state" where
  "probe_attempt cf reconnecting options index adapter transport = do {
     update_snapshot cf (\<lambda>sn. sn\<lparr>sn_phase := if reconnecting then Reconnecting else Probing,
       sn_active_transport := Some (transport_summary (tr_profile transport)),
       sn_reconnect_attempt := if reconnecting then (index + 1) mod 2 ^ 32 else 0, sn_issue := None\<rparr>);
     on_world (noted (Tried (prof_id (tr_profile transport))));
     cancelled \<leftarrow> on_world (ask (kc_cancelled cf));
     if cancelled then cancelled_attempt cf
     else do {
       probed \<leftarrow> on_world (ask (adapter_probe adapter transport));
       probe_answered cf reconnecting options adapter transport probed } }"

text \<open>The loop over the candidates. That an adapter is missing is a panic, which the ranking excludes.\<close>

fun try_transports :: "'w KetClient \<Rightarrow> bool \<Rightarrow> ConnectOptions \<Rightarrow> nat \<Rightarrow> SessionTransport list \<Rightarrow> ClientError option
    \<Rightarrow> ('w Client, ClientError + ClientSnapshot) state" where
  "try_transports cf reconnecting options index [] last_error =
    (let error = (case last_error of None \<Rightarrow> NoCompatibleTransport | Some e \<Rightarrow> e)
     in do { client_fail cf error; done_with (Err error) })"
| "try_transports cf reconnecting options index (transport # rest) last_error =
    (case find (\<lambda>a. adapter_supports a transport) (kc_adapters cf) of
       None \<Rightarrow> do { client_fail cf NoCompatibleTransport; done_with (Err NoCompatibleTransport) }
     | Some adapter \<Rightarrow> do {
         r \<leftarrow> probe_attempt cf reconnecting options index adapter transport;
         (case r of
            Finished result \<Rightarrow> done_with result
          | NextAfter e \<Rightarrow> try_transports cf reconnecting options (Suc index) rest (Some e)) })"

definition candidates_now :: "'w KetClient \<Rightarrow> SessionManifest \<Rightarrow> ('w Client, SessionTransport list) state" where
  "candidates_now cf session = do {
     now \<leftarrow> client_time cf;
     runtime (\<lambda>rt. rank_for (kc_policy cf) (man_transports session) (map adapter_supports (kc_adapters cf)) (rt_history rt) now
       (rt_preferred_protocol rt) (rt_automatic_excluded rt)) }"

definition missing_preference :: "SessionManifest \<Rightarrow> RuntimeState \<Rightarrow> TransportProtocol option" where
  "missing_preference session rt = (case rt_preferred_protocol rt of None \<Rightarrow> None
     | Some p \<Rightarrow> if list_ex (\<lambda>t. prof_protocol (tr_profile t) = p) (man_transports session) then None else Some p)"

definition load_memory :: "'w KetClient \<Rightarrow> ('w Client, unit) state" where
  "load_memory cf = do {
     memory \<leftarrow> runtime rt_memory;
     (case memory of None \<Rightarrow> done_with ()
      | Some m \<Rightarrow> do {
          history \<leftarrow> on_world (ask (kc_memory_load cf m));
          set_runtime (\<lambda>rt. rt\<lparr>rt_history := history\<rparr>) }) }"

definition connect_candidates :: "'w KetClient \<Rightarrow> bool \<Rightarrow> ConnectOptions \<Rightarrow> TransportProtocol option \<Rightarrow> SessionTransport list
    \<Rightarrow> ('w Client, ClientError + ClientSnapshot) state" where
  "connect_candidates cf reconnecting options missing candidates =
    (if candidates = [] then
       (let error = (case missing of Some p \<Rightarrow> PreferredProtocolUnavailable (protocol_label p) | None \<Rightarrow> NoCompatibleTransport)
        in do { client_fail cf error; done_with (Err error) })
     else try_transports cf reconnecting options 0 candidates None)"

definition clear_fallbacks :: "'w KetClient \<Rightarrow> bool \<Rightarrow> ('w Client, unit) state" where
  "clear_fallbacks cf reconnecting =
     (if reconnecting then done_with () else update_snapshot cf (\<lambda>sn. sn\<lparr>sn_fallbacks := []\<rparr>))"

definition connect_session :: "'w KetClient \<Rightarrow> bool \<Rightarrow> SessionManifest \<Rightarrow> ('w Client, ClientError + ClientSnapshot) state" where
  "connect_session cf reconnecting session = do {
     candidates \<leftarrow> candidates_now cf session;
     missing \<leftarrow> runtime (missing_preference session);
     options \<leftarrow> runtime rt_connect_options;
     clear_fallbacks cf reconnecting;
     connect_candidates cf reconnecting options missing candidates }"

definition connect_ready :: "'w KetClient \<Rightarrow> bool \<Rightarrow> ('w Client, ClientError + ClientSnapshot) state" where
  "connect_ready cf reconnecting = do {
     load_memory cf;
     session \<leftarrow> runtime rt_session;
     (case session of None \<Rightarrow> done_with (Err NotEnrolled) | Some session \<Rightarrow> connect_session cf reconnecting session) }"

definition connect_locked :: "'w KetClient \<Rightarrow> bool \<Rightarrow> ('w Client, ClientError + ClientSnapshot) state" where
  "connect_locked cf reconnecting = do {
     tunnel \<leftarrow> runtime rt_tunnel;
     w \<leftarrow> reads (\<lambda>s. env (cl_world s));
     if (case tunnel of None \<Rightarrow> False | Some t \<Rightarrow> tunnel_status (kc_tunnels cf) t w = TunnelConnected)
     then done_with (Err AlreadyConnected)
     else do {
       stale \<leftarrow> take_tunnel;
       try_next (stop_taken cf stale) (\<lambda>_. connect_ready cf reconnecting) } }"

text \<open>\<open>connect_requested\<close> is \<open>connect_with_protocol\<close> once the request is noted.\<close>

definition connect_requested :: "'w KetClient \<Rightarrow> ('w Client, ClientError + ClientSnapshot) state" where
  "connect_requested cf = do {
     renewed \<leftarrow> renew_before_connect_locked cf;
     (case renewed of
        Err e \<Rightarrow> do {
          set_runtime (\<lambda>rt. rt\<lparr>rt_connection_requested := False\<rparr>);
          done_with (Err e) }
      | Ok _ \<Rightarrow> do {
          r \<leftarrow> connect_locked cf False;
          (case r of Err e \<Rightarrow> set_runtime (\<lambda>rt. rt\<lparr>rt_connection_requested := False\<rparr>) | Ok _ \<Rightarrow> done_with ());
          done_with r }) }"

definition connect_with_protocol :: "'w KetClient \<Rightarrow> TransportProtocol option \<Rightarrow> ('w Client, ClientError + ClientSnapshot) state" where
  "connect_with_protocol cf preferred = do {
     session \<leftarrow> runtime rt_session;
     if session = None then done_with (Err NotEnrolled)
     else do {
       set_runtime (\<lambda>rt. rt\<lparr>rt_connection_requested := True, rt_preferred_protocol := preferred\<rparr>);
       update_snapshot cf (\<lambda>sn. sn\<lparr>sn_preferred_protocol := preferred\<rparr>);
       connect_requested cf } }"

definition reconnect_refreshed :: "'w KetClient \<Rightarrow> ClientError \<Rightarrow> ClientError + ClientSnapshot \<Rightarrow> ('w Client, ClientError + ClientSnapshot) state" where
  "reconnect_refreshed cf connection_error refresh =
    (if (case refresh of Err e \<Rightarrow> ends_session e | Ok _ \<Rightarrow> False) then done_with refresh
     else do { client_fail cf connection_error; done_with (Err connection_error) })"

definition reconnect_failed :: "'w KetClient \<Rightarrow> ClientError \<Rightarrow> ('w Client, ClientError + ClientSnapshot) state" where
  "reconnect_failed cf connection_error = do {
     renew \<leftarrow> renew_due cf;
     refresh \<leftarrow> refresh_locked cf renew False;
     reconnect_refreshed cf connection_error refresh }"

definition reconnect_locked :: "'w KetClient \<Rightarrow> ('w Client, ClientError + ClientSnapshot) state" where
  "reconnect_locked cf = do {
     r \<leftarrow> connect_locked cf True;
     (case r of Ok sn \<Rightarrow> done_with (Ok sn) | Err connection_error \<Rightarrow> reconnect_failed cf connection_error) }"

subsection \<open>Keeping the connection\<close>

definition route_lost :: "'w KetClient \<Rightarrow> ActiveTunnel \<Rightarrow> ('w Client, ClientError + ClientSnapshot) state" where
  "route_lost cf t = do {
     set_runtime (\<lambda>rt. rt\<lparr>rt_control_failures := 0, rt_tunnel := None\<rparr>);
     try_next (stop_and_retain_on_failure cf t) (\<lambda>_. do {
       record_lost_tunnel cf (tunnel_transport_id t) (lit ''route_unhealthy'')
         (lit ''the protected route stopped reaching the server'');
       reconnect_locked cf }) }"

definition check_route :: "'w KetClient \<Rightarrow> ActiveTunnel \<Rightarrow> ('w Client, ClientError + ClientSnapshot) state" where
  "check_route cf t = do {
     healthy \<leftarrow> on_world (ask (kc_is_healthy cf));
     on_world (noted (RouteChecked healthy));
     if healthy then do { update_snapshot cf (\<lambda>sn. sn\<lparr>sn_issue := None\<rparr>); answer_snapshot }
     else route_lost cf t }"

definition server_unreachable :: "'w KetClient \<Rightarrow> ClientError \<Rightarrow> ('w Client, ClientError + ClientSnapshot) state" where
  "server_unreachable cf error = do {
     set_runtime (\<lambda>rt. rt\<lparr>rt_control_failures := min (rt_control_failures rt + 1) 255\<rparr>);
     tunnel \<leftarrow> runtime rt_tunnel;
     requested \<leftarrow> runtime rt_connection_requested;
     failures \<leftarrow> runtime rt_control_failures;
     w \<leftarrow> reads (\<lambda>s. env (cl_world s));
     (case (if requested then tunnel else None) of
        None \<Rightarrow> done_with (Err error)
      | Some t \<Rightarrow>
        if offline (tunnel_network (kc_tunnels cf) t w)
        then do { update_snapshot cf (\<lambda>sn. sn\<lparr>sn_issue := Some (issue error)\<rparr>); answer_snapshot }
        else if \<not> failures \<ge> 2
        then do { update_snapshot cf (\<lambda>sn. sn\<lparr>sn_issue := None\<rparr>); answer_snapshot }
        else check_route cf t) }"

definition maintain_session :: "'w KetClient \<Rightarrow> ('w Client, ClientError + ClientSnapshot) state" where
  "maintain_session cf = do {
     renew \<leftarrow> renew_due cf;
     r \<leftarrow> refresh_locked cf renew False;
     (case r of
        Ok sn \<Rightarrow> done_with (Ok sn)
      | Err e \<Rightarrow> (case e of NetworkError m \<Rightarrow> server_unreachable cf e | _ \<Rightarrow> done_with (Err e))) }"

definition tunnel_gone :: "'w KetClient \<Rightarrow> ('w Client, ClientError + ClientSnapshot) state" where
  "tunnel_gone cf = do {
     session \<leftarrow> runtime rt_session;
     update_snapshot cf (\<lambda>sn. sn\<lparr>sn_phase := if session \<noteq> None then Enrolled else Disconnected, sn_active_transport := None,
       sn_connected_at := None, sn_handshake_latency_ms := None, sn_reconnect_attempt := 0, sn_issue := None\<rparr>);
     if session = None then answer_snapshot else maintain_session cf }"

fun lost_message :: "TunnelStatus \<Rightarrow> rstr" where
  "lost_message (TunnelFailed message) = message"
| "lost_message _ = lit ''the connection stopped''"

definition tunnel_lost :: "'w KetClient \<Rightarrow> bool \<Rightarrow> ActiveTunnel \<Rightarrow> rstr \<Rightarrow> ('w Client, ClientError + ClientSnapshot) state" where
  "tunnel_lost cf requested t message = do {
     set_runtime (\<lambda>rt. rt\<lparr>rt_tunnel := None\<rparr>);
     try_next (stop_and_retain_on_failure cf t) (\<lambda>_.
       if requested then do {
         record_lost_tunnel cf (tunnel_transport_id t) (lit ''transport_lost'') message;
         reconnect_locked cf }
       else tunnel_gone cf) }"

definition maintain_once :: "'w KetClient \<Rightarrow> ('w Client, ClientError + ClientSnapshot) state" where
  "maintain_once cf = do {
     tunnel \<leftarrow> runtime rt_tunnel;
     w \<leftarrow> reads (\<lambda>s. env (cl_world s));
     requested \<leftarrow> runtime rt_connection_requested;
     (case tunnel of
        None \<Rightarrow> if requested then reconnect_locked cf else maintain_session cf
      | Some t \<Rightarrow> (case tunnel_status (kc_tunnels cf) t w of
          TunnelConnected \<Rightarrow> maintain_session cf
        | status \<Rightarrow> tunnel_lost cf requested t (lost_message status))) }"

subsection \<open>Leaving\<close>

definition cancel_connection_attempt :: "('w Client, unit) state" where
  "cancel_connection_attempt = changes (\<lambda>s. s\<lparr>cl_cancellation := (cl_cancellation s + 1) mod 2 ^ 64\<rparr>)"

definition left_snapshot :: "ClientSnapshot \<Rightarrow> ClientSnapshot" where
  "left_snapshot sn = sn\<lparr>sn_phase := Disconnected, sn_node := None, sn_active_transport := None, sn_available_transports := [],
     sn_preferred_protocol := None, sn_traffic := None, sn_allowance := None, sn_session_expires_at := None,
     sn_access_expires_at := None, sn_issue := None\<rparr>"

definition session_released :: "'w KetClient \<Rightarrow> ClientError + unit \<Rightarrow> ('w Client, ClientError + ClientSnapshot) state" where
  "session_released cf released = (case released of
     Err e \<Rightarrow> if is_unauthorized e then done_with None else done_with (Some e)
   | Ok _ \<Rightarrow> done_with None) \<bind> (\<lambda>release_error. case release_error of
     Some e \<Rightarrow> do {
       update_snapshot cf (\<lambda>sn. sn\<lparr>sn_phase := PhaseError, sn_issue := Some (issue e)\<rparr>);
       done_with (Err e) }
   | None \<Rightarrow> do {
       forget_session;
       update_snapshot cf (\<lambda>sn. (left_snapshot sn)\<lparr>sn_connected_at := None, sn_handshake_latency_ms := None,
         sn_reconnect_attempt := 0\<rparr>);
       answer_snapshot })"

definition leave_server :: "'w KetClient \<Rightarrow> rstr option \<Rightarrow> ('w Client, ClientError + ClientSnapshot) state" where
  "leave_server cf token = do {
     update_snapshot cf (\<lambda>sn. sn\<lparr>sn_active_transport := None, sn_connected_at := None, sn_handshake_latency_ms := None,
       sn_reconnect_attempt := 0\<rparr>);
     released \<leftarrow> (case token of None \<Rightarrow> done_with (Ok ()) | Some token \<Rightarrow> client_release cf token);
     session_released cf released }"

definition tunnel_left :: "'w KetClient \<Rightarrow> rstr option \<Rightarrow> ClientError + unit \<Rightarrow> ('w Client, ClientError + ClientSnapshot) state" where
  "tunnel_left cf token stopped = (case stopped of
     Err e \<Rightarrow> do {
       update_snapshot cf (\<lambda>sn. sn\<lparr>sn_phase := PhaseError, sn_issue := Some (issue e)\<rparr>);
       done_with (Err e) }
   | Ok _ \<Rightarrow> leave_server cf token)"

definition disconnect_held :: "'w KetClient \<Rightarrow> ActiveTunnel option \<Rightarrow> rstr option \<Rightarrow> ('w Client, ClientError + ClientSnapshot) state" where
  "disconnect_held cf tunnel token =
    (if tunnel = None \<and> token = None then do { update_snapshot cf left_snapshot; answer_snapshot }
     else do {
       update_snapshot cf (\<lambda>sn. sn\<lparr>sn_phase := Disconnecting, sn_issue := None\<rparr>);
       stopped \<leftarrow> stop_taken cf tunnel;
       tunnel_left cf token stopped })"

definition disconnect :: "'w KetClient \<Rightarrow> ('w Client, ClientError + ClientSnapshot) state" where
  "disconnect cf = do {
     cancel_connection_attempt;
     set_runtime (\<lambda>rt. rt\<lparr>rt_connection_requested := False, rt_preferred_protocol := None\<rparr>);
     tunnel \<leftarrow> take_tunnel;
     token \<leftarrow> runtime (\<lambda>rt. map_option man_session_token (rt_session rt));
     disconnect_held cf tunnel token }"

definition show_stopped :: "'w KetClient \<Rightarrow> bool \<Rightarrow> ('w Client, ClientError + ClientSnapshot) state" where
  "show_stopped cf has_session = do {
     update_snapshot cf (\<lambda>sn. sn\<lparr>sn_phase := if has_session then Enrolled else Disconnected, sn_active_transport := None,
       sn_connected_at := None, sn_handshake_latency_ms := None, sn_reconnect_attempt := 0, sn_issue := None\<rparr>);
     answer_snapshot }"

definition tunnel_halted :: "'w KetClient \<Rightarrow> bool \<Rightarrow> ClientError + unit \<Rightarrow> ('w Client, ClientError + ClientSnapshot) state" where
  "tunnel_halted cf has_session stopped = (case stopped of
     Err e \<Rightarrow> do {
       update_snapshot cf (\<lambda>sn. sn\<lparr>sn_phase := PhaseError, sn_issue := Some (issue e)\<rparr>);
       done_with (Err e) }
   | Ok _ \<Rightarrow> show_stopped cf has_session)"

definition stop_held :: "'w KetClient \<Rightarrow> ActiveTunnel option \<Rightarrow> bool \<Rightarrow> ('w Client, ClientError + ClientSnapshot) state" where
  "stop_held cf tunnel has_session = (case tunnel of
     None \<Rightarrow> show_stopped cf has_session
   | Some t \<Rightarrow> do {
       update_snapshot cf (\<lambda>sn. sn\<lparr>sn_phase := Disconnecting, sn_issue := None\<rparr>);
       stopped \<leftarrow> stop_and_retain_on_failure cf t;
       tunnel_halted cf has_session stopped })"

definition stop_tunnel :: "'w KetClient \<Rightarrow> ('w Client, ClientError + ClientSnapshot) state" where
  "stop_tunnel cf = do {
     cancel_connection_attempt;
     set_runtime (\<lambda>rt. rt\<lparr>rt_connection_requested := False, rt_control_failures := 0\<rparr>);
     tunnel \<leftarrow> take_tunnel;
     has_session \<leftarrow> runtime (\<lambda>rt. rt_session rt \<noteq> None);
     stop_held cf tunnel has_session }"

subsection \<open>Another network\<close>

definition network_moved :: "'w KetClient \<Rightarrow> ('w Client, bool) state" where
  "network_moved cf = do {
     tunnel \<leftarrow> runtime rt_tunnel;
     known \<leftarrow> runtime rt_network_generation;
     w \<leftarrow> reads (\<lambda>s. env (cl_world s));
     (case tunnel of
        None \<Rightarrow> done_with False
      | Some t \<Rightarrow> (let report = tunnel_network (kc_tunnels cf) t w in
          if offline report \<or> generation report = known then done_with False
          else do {
            set_runtime (\<lambda>rt. rt\<lparr>rt_network_generation := generation report\<rparr>);
            done_with True })) }"

definition verify_after_network_change :: "'w KetClient \<Rightarrow> ('w Client, ClientError + ClientSnapshot) state" where
  "verify_after_network_change cf = do {
     tunnel \<leftarrow> runtime (\<lambda>rt. if rt_connection_requested rt then rt_tunnel rt else None);
     w \<leftarrow> reads (\<lambda>s. env (cl_world s));
     (case tunnel of
        None \<Rightarrow> answer_snapshot
      | Some t \<Rightarrow> if offline (tunnel_network (kc_tunnels cf) t w) then answer_snapshot
          else do {
            healthy \<leftarrow> on_world (ask (kc_is_healthy cf));
            on_world (noted (RouteChecked healthy));
            if healthy then answer_snapshot
            else do {
              current \<leftarrow> take_tunnel;
              try_next (stop_taken cf current) (\<lambda>_. reconnect_locked cf) } }) }"

subsection \<open>Operations in any order\<close>

datatype client_op = Enroll rstr | Connect "TransportProtocol option" | Refresh | Renew | Maintain | MaintenanceTick
  | NetworkTick | VerifyNetwork | Disconnect | StopTunnel | SetOptions ConnectOptions | SetMemory nat
  | SetExclusions "TransportProtocol set"

definition ignored :: "('s, 'a) state \<Rightarrow> ('s, unit) state" where
  "ignored m = do { _ \<leftarrow> m; done_with () }"

text \<open>\<open>connect\<close>, \<open>refresh\<close>, \<open>renew\<close> and the two branches of the loop in \<open>spawn_maintenance\<close>.\<close>

fun client_do :: "'w KetClient \<Rightarrow> client_op \<Rightarrow> ('w Client, unit) state" where
  "client_do cf (Enroll code) = ignored (enroll cf code)"
| "client_do cf (Connect preferred) = ignored (connect_with_protocol cf preferred)"
| "client_do cf Refresh = ignored (refresh_locked cf False True)"
| "client_do cf Renew = ignored (refresh_locked cf True True)"
| "client_do cf Maintain = ignored (maintain_once cf)"
| "client_do cf MaintenanceTick = do {
     session \<leftarrow> runtime rt_session;
     if session \<noteq> None then ignored (maintain_once cf) else done_with () }"
| "client_do cf NetworkTick = do {
     moved \<leftarrow> network_moved cf;
     if moved then ignored (verify_after_network_change cf) else done_with () }"
| "client_do cf VerifyNetwork = ignored (verify_after_network_change cf)"
| "client_do cf Disconnect = ignored (disconnect cf)"
| "client_do cf StopTunnel = ignored (stop_tunnel cf)"
| "client_do cf (SetOptions options) = set_connect_options options"
| "client_do cf (SetMemory memory) = set_transport_memory memory"
| "client_do cf (SetExclusions excluded) = set_automatic_exclusions excluded"

definition client_step :: "'w KetClient \<Rightarrow> client_op \<Rightarrow> 'w Client \<Rightarrow> 'w Client" where
  "client_step cf op s = snd (run_state (client_do cf op) s)"

end
