(* ===== verification/Client_Invariant.thy ===== *)
theory Client_Invariant
  imports Client_Machine
begin

text \<open>
  What holds of a client whatever is asked of it and however the server, the engines and the
  network behave: its books are right, no tunnel is lost, and what it shows is true.
\<close>

subsection \<open>The invariant\<close>

definition session_kept :: "SessionManifest \<Rightarrow> bool" where
  "session_kept m \<longleftrightarrow> (\<exists>parts. split_session_token (man_session_token m) = Ok parts)
     \<and> list_all transport_ok (man_transports m) \<and> distinct (map (prof_id \<circ> tr_profile) (man_transports m))"

definition held_of :: "RuntimeState \<Rightarrow> ActiveTunnel list" where
  "held_of rt = (case rt_tunnel rt of None \<Rightarrow> [] | Some t \<Rightarrow> [t])"

definition core_of :: "RuntimeState \<Rightarrow> ClientSnapshot \<Rightarrow> call list \<Rightarrow> bool" where
  "core_of rt sn cs \<longleftrightarrow> accounted cs (held_of rt)
     \<and> (rt_tunnel rt \<noteq> None \<longrightarrow> rt_session rt \<noteq> None)
     \<and> (rt_connection_requested rt \<longrightarrow> rt_session rt \<noteq> None)
     \<and> (rt_renew_at rt = None \<longleftrightarrow> rt_session rt = None)
     \<and> sn_session_expires_at sn = map_option man_session_expires_at (rt_session rt)
     \<and> sn_access_expires_at sn = Option.bind (rt_session rt) man_access_expires_at
     \<and> (\<forall>m. rt_session rt = Some m \<longrightarrow> session_kept m)
     \<and> rt_control_failures rt \<le> 255 \<and> length (sn_fallbacks sn) \<le> 8"

definition idle_of :: "RuntimeState \<Rightarrow> ClientSnapshot \<Rightarrow> bool" where
  "idle_of rt sn \<longleftrightarrow> (case sn_phase sn of
       Disconnected \<Rightarrow> rt_session rt = None
     | Enrolled \<Rightarrow> rt_session rt \<noteq> None \<and> rt_tunnel rt = None
     | Connected \<Rightarrow> rt_tunnel rt \<noteq> None \<and> sn_active_transport sn \<noteq> None
     | PhaseError \<Rightarrow> True
     | _ \<Rightarrow> False)"

abbreviation log_of :: "'w Client \<Rightarrow> call list" where "log_of s \<equiv> calls (cl_world s)"

definition core :: "'w Client \<Rightarrow> bool" where
  "core s \<longleftrightarrow> core_of (cl_runtime s) (cl_snapshot s) (log_of s)"

definition idle :: "'w Client \<Rightarrow> bool" where
  "idle s \<longleftrightarrow> idle_of (cl_runtime s) (cl_snapshot s)"

definition client_ok :: "'w Client \<Rightarrow> bool" where
  "client_ok s \<longleftrightarrow> core s \<and> idle s"

text \<open>Nothing that matters for the phase changed.\<close>

definition stable :: "'w Client \<Rightarrow> 'w Client \<Rightarrow> bool" where
  "stable s s' \<longleftrightarrow> sn_phase (cl_snapshot s') = sn_phase (cl_snapshot s)
     \<and> sn_active_transport (cl_snapshot s') = sn_active_transport (cl_snapshot s)
     \<and> rt_tunnel (cl_runtime s') = rt_tunnel (cl_runtime s)
     \<and> (rt_session (cl_runtime s') = None \<longleftrightarrow> rt_session (cl_runtime s) = None)
     \<and> rt_connection_requested (cl_runtime s') = rt_connection_requested (cl_runtime s)"

lemma idle_stable: "idle s \<Longrightarrow> stable s s' \<Longrightarrow> idle s'"
  by (auto simp: idle_def idle_of_def stable_def split: ClientPhase.splits)

lemma idle_error: "sn_phase (cl_snapshot s) = PhaseError \<Longrightarrow> idle s"
  by (simp add: idle_def idle_of_def)

lemma after_on_world [simp]: "after (on_world m) Q s = after m (\<lambda>r w. Q r (s\<lparr>cl_world := w\<rparr>)) (cl_world s)"
  by (simp add: after_def on_world_def split: prod.splits)

lemma after_runtime [simp]: "after (runtime f) Q s = Q (f (cl_runtime s)) s"
  by (simp add: runtime_def)

lemma after_answer_snapshot [simp]: "after answer_snapshot Q s = Q (Ok (cl_snapshot s)) s"
  by (simp add: answer_snapshot_def)

lemma answer_snapshot_after: "after answer_snapshot Q = (\<lambda>s. Q (Ok (cl_snapshot s)) s)"
  by (simp add: fun_eq_iff)

text \<open>
  Steps described by what they do to the runtime state, the snapshot and the log; the world
  may be any other one.
\<close>

definition becomes :: "'w Client \<Rightarrow> RuntimeState \<Rightarrow> ClientSnapshot \<Rightarrow> call list \<Rightarrow> bool" where
  "becomes s rt sn cs \<longleftrightarrow> cl_runtime s = rt \<and> cl_snapshot s = sn \<and> log_of s = cs"

lemma after_set_runtime:
  "(\<And>s'. becomes s' (f (cl_runtime s)) (cl_snapshot s) (log_of s) \<Longrightarrow> Q () s') \<Longrightarrow> after (set_runtime f) Q s"
  by (simp add: set_runtime_def becomes_def)

lemma after_client_time:
  "(\<And>now s'. becomes s' (cl_runtime s) (cl_snapshot s) (log_of s) \<Longrightarrow> Q now s') \<Longrightarrow> after (client_time cf) Q s"
  by (simp add: client_time_def becomes_def)

lemma after_ask_world:
  "(\<And>r s'. becomes s' (cl_runtime s) (cl_snapshot s) (log_of s) \<Longrightarrow> Q r s') \<Longrightarrow> after (on_world (ask f)) Q s"
  by (simp add: becomes_def)

lemma after_noted_world:
  "(\<And>s'. becomes s' (cl_runtime s) (cl_snapshot s) (c # log_of s) \<Longrightarrow> Q () s') \<Longrightarrow> after (on_world (noted c)) Q s"
  by (simp add: becomes_def)

lemma after_update_snapshot:
  assumes "\<And>now s'. becomes s' (cl_runtime s) ((f (cl_snapshot s))\<lparr>sn_updated_at := now\<rparr>) (log_of s) \<Longrightarrow> Q () s'"
  shows "after (update_snapshot cf f) Q s"
  unfolding update_snapshot_def after_bind
  by (rule after_client_time) (use assms in \<open>simp add: becomes_def\<close>)

lemma after_engine_connect:
  assumes "\<And>e s'. becomes s' (cl_runtime s) (cl_snapshot s) (log_of s) \<Longrightarrow> Q (Err e) s'"
    and "\<And>x s'. becomes s' (cl_runtime s) (cl_snapshot s) (Started (started_tunnel x) # log_of s) \<Longrightarrow> Q (Ok x) s'"
  shows "after (on_world (engine_connect a t p opts)) Q s"
proof -
  obtain r w where "adapter_connect a t p opts (env (cl_world s)) = (r, w)" by fastforce
  then show ?thesis using assms by (cases r) (simp_all add: engine_connect_def becomes_def)
qed

lemma after_stop_and_retain:
  assumes "rt_tunnel (cl_runtime s) = None" "accounted (log_of s) [t]"
    and "\<And>s'. becomes s' (cl_runtime s) (cl_snapshot s) (log_of s') \<Longrightarrow> accounted (log_of s') [] \<Longrightarrow> Q (Ok ()) s'"
    and "\<And>e s'. becomes s' ((cl_runtime s)\<lparr>rt_tunnel := Some t\<rparr>) (cl_snapshot s) (log_of s') \<Longrightarrow> accounted (log_of s') [t] \<Longrightarrow> Q (Err e) s'"
  shows "after (stop_and_retain_on_failure cf t) Q s"
proof -
  obtain r w where r: "tunnel_stop (kc_tunnels cf) t (env (cl_world s)) = (r, w)" by fastforce
  show ?thesis
    using assms by (cases r) (simp_all add: stop_and_retain_on_failure_def engine_stop_def r accounted_stopped becomes_def set_runtime_def)
qed

lemma core_of_irrelevant [simp]:
  "core_of (rt\<lparr>rt_history := h\<rparr>) sn cs = core_of rt sn cs"
  "core_of (rt\<lparr>rt_probes := p\<rparr>) sn cs = core_of rt sn cs"
  "core_of (rt\<lparr>rt_network_generation := g\<rparr>) sn cs = core_of rt sn cs"
  "core_of (rt\<lparr>rt_preferred_protocol := pp\<rparr>) sn cs = core_of rt sn cs"
  "core_of (rt\<lparr>rt_connect_options := co\<rparr>) sn cs = core_of rt sn cs"
  "core_of (rt\<lparr>rt_memory := me\<rparr>) sn cs = core_of rt sn cs"
  "core_of (rt\<lparr>rt_automatic_excluded := ex\<rparr>) sn cs = core_of rt sn cs"
  "core_of rt (sn\<lparr>sn_phase := ph\<rparr>) cs = core_of rt sn cs"
  "core_of rt (sn\<lparr>sn_node := no\<rparr>) cs = core_of rt sn cs"
  "core_of rt (sn\<lparr>sn_available_transports := av\<rparr>) cs = core_of rt sn cs"
  "core_of rt (sn\<lparr>sn_preferred_protocol := pp\<rparr>) cs = core_of rt sn cs"
  "core_of rt (sn\<lparr>sn_active_transport := ac\<rparr>) cs = core_of rt sn cs"
  "core_of rt (sn\<lparr>sn_traffic := tr\<rparr>) cs = core_of rt sn cs"
  "core_of rt (sn\<lparr>sn_allowance := al\<rparr>) cs = core_of rt sn cs"
  "core_of rt (sn\<lparr>sn_handshake_latency_ms := ha\<rparr>) cs = core_of rt sn cs"
  "core_of rt (sn\<lparr>sn_connected_at := ca\<rparr>) cs = core_of rt sn cs"
  "core_of rt (sn\<lparr>sn_reconnect_attempt := ra\<rparr>) cs = core_of rt sn cs"
  "core_of rt (sn\<lparr>sn_issue := isu\<rparr>) cs = core_of rt sn cs"
  "core_of rt (sn\<lparr>sn_server_version := sv\<rparr>) cs = core_of rt sn cs"
  "core_of rt (sn\<lparr>sn_client_update := cu\<rparr>) cs = core_of rt sn cs"
  "core_of rt (sn\<lparr>sn_updated_at := ua\<rparr>) cs = core_of rt sn cs"
  by (simp_all add: core_of_def held_of_def)

lemma core_of_calls [simp]:
  "core_of rt sn (Tried i # cs) = core_of rt sn cs"
  "core_of rt sn (Answered a # cs) = core_of rt sn cs"
  "core_of rt sn (Released k a # cs) = core_of rt sn cs"
  "core_of rt sn (RouteChecked b # cs) = core_of rt sn cs"
  "core_of rt sn (StopFailed t e # cs) = core_of rt sn cs"
  by (simp_all add: core_of_def)

lemma apply_advice_fields [simp]:
  "sn_phase (apply_advice a sn) = sn_phase sn"
  "sn_active_transport (apply_advice a sn) = sn_active_transport sn"
  "sn_session_expires_at (apply_advice a sn) = sn_session_expires_at sn"
  "sn_access_expires_at (apply_advice a sn) = sn_access_expires_at sn"
  "sn_fallbacks (apply_advice a sn) = sn_fallbacks sn"
  "core_of rt (apply_advice a sn) cs = core_of rt sn cs"
  by (simp_all add: apply_advice_def split: option.splits)

lemma after_client_fail:
  assumes "\<And>s' sn. becomes s' (cl_runtime s) sn (log_of s) \<Longrightarrow> sn_phase sn = PhaseError \<Longrightarrow>
      core_of (cl_runtime s) sn (log_of s) = core s \<Longrightarrow> Q () s'"
  shows "after (client_fail cf e) Q s"
  unfolding client_fail_def
  by (rule after_update_snapshot, rule assms, assumption) (auto simp: core_def split: option.splits)

subsection \<open>Refreshing\<close>

definition in_error :: "'w Client \<Rightarrow> bool" where
  "in_error s \<longleftrightarrow> sn_phase (cl_snapshot s) = PhaseError \<and> \<not> rt_connection_requested (cl_runtime s)"

definition refreshed :: "'w Client \<Rightarrow> ClientError + 'a \<Rightarrow> 'w Client \<Rightarrow> bool" where
  "refreshed s r s' \<longleftrightarrow> core s' \<and> (stable s s' \<or> in_error s')
     \<and> (case r of Ok _ \<Rightarrow> stable s s' | Err e \<Rightarrow> ends_session e \<longrightarrow> in_error s')"

lemma accounted_held: "core s \<Longrightarrow> accounted (log_of s) (held_of (cl_runtime s))"
  by (simp add: core_def core_of_def)

lemma after_take_and_stop:
  assumes "core s"
    and "\<And>s'. becomes s' ((cl_runtime s)\<lparr>rt_tunnel := None\<rparr>) (cl_snapshot s) (log_of s') \<Longrightarrow> accounted (log_of s') [] \<Longrightarrow> Q (Ok ()) s'"
    and "\<And>e s' t. rt_tunnel (cl_runtime s) = Some t \<Longrightarrow> becomes s' (cl_runtime s) (cl_snapshot s) (log_of s') \<Longrightarrow>
      accounted (log_of s') [t] \<Longrightarrow> Q (Err e) s'"
  shows "after take_tunnel (\<lambda>t. after (stop_taken cf t) Q) s"
proof (cases "rt_tunnel (cl_runtime s)")
  case None
  then show ?thesis using assms(2) accounted_held [OF assms(1)]
    by (simp add: take_tunnel_def stop_taken_def held_of_def set_runtime_def becomes_def)
next
  case (Some t)
  have same: "(cl_runtime s)\<lparr>rt_tunnel := Some t\<rparr> = cl_runtime s" using Some by simp
  have "after (stop_and_retain_on_failure cf t) Q (s\<lparr>cl_runtime := (cl_runtime s)\<lparr>rt_tunnel := None\<rparr>\<rparr>)"
    by (rule after_stop_and_retain)
      (use accounted_held [OF assms(1)] Some assms(2,3) same in \<open>simp_all add: held_of_def\<close>)
  then show ?thesis by (simp add: take_tunnel_def stop_taken_def Some set_runtime_def)
qed

lemma session_over_spec:
  assumes "core s"
  shows "after (session_over cf e) (\<lambda>r s'. core s' \<and> in_error s' \<and> (\<exists>e'. r = Err e')) s"
proof -
  have "after take_tunnel (\<lambda>t. after (stop_taken cf t) (\<lambda>r. after (session_closed cf e r)
      (\<lambda>r s'. core s' \<and> in_error s' \<and> (\<exists>e'. r = Err e')))) s0"
    if "core s0" "\<not> rt_connection_requested (cl_runtime s0)" for s0 :: "'a Client"
    by (rule after_take_and_stop [OF that(1)])
      (use that in \<open>auto simp: session_closed_def forget_session_def becomes_def core_def core_of_def held_of_def in_error_def
        intro!: after_update_snapshot after_set_runtime split: option.splits\<close>)
  note stop = this
  show ?thesis
    unfolding session_over_def after_bind
    by (rule after_set_runtime, rule stop) (use assms in \<open>auto simp: becomes_def core_def core_of_def held_of_def\<close>)
qed

lemma surface_spec: "core s \<Longrightarrow> \<not> ends_session e \<Longrightarrow> after (surface cf b e) (refreshed s) s"
  by (auto simp: surface_def refreshed_def becomes_def core_def stable_def intro!: after_update_snapshot)

lemma apply_status_spec:
  assumes "core s" "rt_session (cl_runtime s) \<noteq> None"
  shows "after (apply_status cf status renewed) (\<lambda>_ s'. core s' \<and> stable s s') s"
  using assms
  by (auto simp: apply_status_def becomes_def core_def core_of_def held_of_def stable_def session_kept_def
      intro!: after_update_snapshot after_set_runtime after_client_time)

lemma ask_session_spec:
  "(\<And>r s'. becomes s' (cl_runtime s) (cl_snapshot s) (Answered (case r of Err e \<Rightarrow> Some e | Ok _ \<Rightarrow> None) # log_of s) \<Longrightarrow> Q r s')
    \<Longrightarrow> after (ask_session cf renew token) Q s"
  by (simp add: ask_session_def becomes_def)

lemma refreshed_from:
  "refreshed s' r t \<Longrightarrow> becomes s' (cl_runtime s) (cl_snapshot s) cs \<Longrightarrow> refreshed s r t"
  by (auto simp: refreshed_def stable_def becomes_def split: sum.splits)

lemma session_answered_spec:
  assumes "core s" "rt_session (cl_runtime s) \<noteq> None"
  shows "after (session_answered cf renew surf token status) (refreshed s) s"
proof (cases status)
  case (Inl e)
  have "after (session_over cf e) (refreshed s) s"
    by (rule after_mono [OF session_over_spec [OF assms(1)]]) (auto simp: refreshed_def split: sum.splits)
  then show ?thesis using surface_spec [OF assms(1)] by (simp add: session_answered_def Inl)
next
  case (Inr st)
  have "after (case validate_status (kc_url_parse cf) st token (kc_client_name cf) now of
          Err e \<Rightarrow> surface cf surf e
        | Ok _ \<Rightarrow> do { apply_status cf st renew; answer_snapshot }) (refreshed s) s'"
    if b: "becomes s' (cl_runtime s) (cl_snapshot s) (log_of s)" for s' now
  proof (cases "validate_status (kc_url_parse cf) st token (kc_client_name cf) now")
    case v: (Inl e)
    have "core s'" using b assms(1) by (simp add: becomes_def core_def)
    from surface_spec [OF this not_ends_session [OF validate_status_invalid v]]
    have "after (surface cf surf e) (refreshed s) s'"
      by (rule after_mono) (rule refreshed_from [OF _ b])
    then show ?thesis by (simp add: v)
  next
    case v: (Inr u)
    have "after (apply_status cf st renew) (\<lambda>_ t. core t \<and> stable s' t) s'"
      using b assms by (intro apply_status_spec) (auto simp: becomes_def core_def)
    then have "after (apply_status cf st renew) (\<lambda>_. after answer_snapshot (refreshed s)) s'"
      by (rule after_mono) (use b in \<open>auto simp: refreshed_def stable_def becomes_def\<close>)
    then show ?thesis by (simp add: v)
  qed
  then show ?thesis by (auto simp: session_answered_def Inr intro: after_client_time)
qed

lemma refresh_spec:
  fixes s :: "'w Client"
  assumes "core s"
  shows "after (refresh_locked cf renew surf) (refreshed s) s"
proof (cases "rt_session (cl_runtime s)")
  case None
  then show ?thesis using assms by (simp add: refresh_locked_def refreshed_def stable_def ends_session_def)
next
  case (Some session)
  have "after (ask_session cf renew token) (\<lambda>r. after (session_answered cf renew surf token r) (refreshed s)) s" for token
  proof (rule ask_session_spec)
    fix r :: "ClientError + SessionStatus" and s' :: "'w Client"
    assume b: "becomes s' (cl_runtime s) (cl_snapshot s) (Answered (case r of Err e \<Rightarrow> Some e | Ok _ \<Rightarrow> None) # log_of s)"
    then have "core s'" "rt_session (cl_runtime s') \<noteq> None" using assms Some by (auto simp: core_def becomes_def)
    from session_answered_spec [OF this] show "after (session_answered cf renew surf token r) (refreshed s) s'"
      by (rule after_mono) (rule refreshed_from [OF _ b])
  qed
  then show ?thesis by (simp add: refresh_locked_def Some)
qed

subsection \<open>Connecting\<close>

definition quiet :: "('w Client, 'a) state \<Rightarrow> bool" where
  "quiet m \<longleftrightarrow> (\<forall>s. core s \<longrightarrow> after m (\<lambda>_ s'. core s' \<and> stable s s') s)"

lemma stable_refl [simp]: "stable s s"
  by (simp add: stable_def)

lemma stable_trans: "stable s t \<Longrightarrow> stable t u \<Longrightarrow> stable s u"
  by (simp add: stable_def)

lemma quiet_bind: "quiet m \<Longrightarrow> (\<And>r. quiet (f r)) \<Longrightarrow> quiet (m \<bind> f)"
  unfolding quiet_def after_bind
  by (blast intro: after_mono stable_trans)

lemma quiet_return: "quiet (done_with x)"
  by (simp add: quiet_def)

lemma quiet_ask: "quiet (on_world (ask f))"
  by (auto simp: quiet_def becomes_def core_def stable_def intro!: after_ask_world)

lemma quiet_time: "quiet (client_time cf)"
  by (auto simp: quiet_def becomes_def core_def stable_def intro!: after_client_time)

lemma quiet_runtime: "quiet (runtime f)"
  by (simp add: quiet_def)

lemma quiet_reads: "quiet (reads f)"
  by (simp add: quiet_def)

lemma quiet_set_runtime:
  assumes "\<And>rt sn cs. core_of (f rt) sn cs = core_of rt sn cs"
    and "\<And>rt. rt_tunnel (f rt) = rt_tunnel rt \<and> rt_session (f rt) = rt_session rt
      \<and> rt_connection_requested (f rt) = rt_connection_requested rt"
  shows "quiet (set_runtime f)"
  using assms by (auto simp: quiet_def becomes_def core_def stable_def intro!: after_set_runtime)

lemma quiet_save_memory: "quiet (save_memory cf)"
  unfolding save_memory_def by (intro quiet_bind quiet_runtime) (simp add: quiet_return quiet_ask split: option.splits)

lemma quiet_load_memory: "quiet (load_memory cf)"
  unfolding load_memory_def
  by (intro quiet_bind quiet_runtime)
    (auto simp: quiet_return quiet_ask split: option.splits intro!: quiet_bind quiet_set_runtime)

lemma quiet_cool_down: "quiet (cool_down cf i)"
  unfolding cool_down_def by (intro quiet_bind quiet_time quiet_set_runtime quiet_save_memory) simp_all

lemma quiet_note_fallback: "quiet (note_fallback cf x)"
  unfolding note_fallback_def
  by (auto simp: quiet_def becomes_def core_def core_of_def stable_def Let_def MAX_FALLBACKS_def intro!: after_update_snapshot)

lemma quiet_record_failure: "quiet (client_record_failure cf t e stage)"
  unfolding client_record_failure_def by (intro quiet_bind quiet_cool_down quiet_ask quiet_note_fallback)

lemma quiet_record_lost: "quiet (record_lost_tunnel cf i c m)"
  unfolding record_lost_tunnel_def
  by (intro quiet_bind quiet_cool_down quiet_reads) (simp add: quiet_return quiet_note_fallback split: option.splits)

lemma quiet_cached_probe: "quiet (cached_probe t e)"
  by (simp add: cached_probe_def quiet_return quiet_runtime)

lemma quiet_cache_probe: "quiet (cache_probe t p)"
  unfolding cache_probe_def by (rule quiet_set_runtime) simp_all

lemma quiet_clear_fallbacks: "quiet (update_snapshot cf (\<lambda>sn. sn\<lparr>sn_fallbacks := []\<rparr>))"
  by (auto simp: quiet_def becomes_def core_def core_of_def stable_def intro!: after_update_snapshot)

lemma after_quiet: "quiet m \<Longrightarrow> core s \<Longrightarrow> (\<And>r s'. core s' \<Longrightarrow> stable s s' \<Longrightarrow> Q r s') \<Longrightarrow> after m Q s"
  unfolding quiet_def by (blast intro: after_mono)

definition ready :: "'w Client \<Rightarrow> bool" where
  "ready s \<longleftrightarrow> core s \<and> rt_tunnel (cl_runtime s) = None \<and> rt_session (cl_runtime s) \<noteq> None"

lemma ready_core: "ready s \<Longrightarrow> core s"
  by (simp add: ready_def)

lemma ready_stable: "ready s \<Longrightarrow> core s' \<Longrightarrow> stable s s' \<Longrightarrow> ready s'"
  by (auto simp: ready_def stable_def)

lemma finish_cancelled_spec:
  "ready s \<Longrightarrow> after (finish_cancelled_connection cf) (\<lambda>r s'. client_ok s' \<and> sn_phase (cl_snapshot s') = Enrolled) s"
  by (auto simp: finish_cancelled_connection_def becomes_def ready_def client_ok_def core_def core_of_def held_of_def idle_def
      idle_of_def intro!: after_update_snapshot after_set_runtime)

lemma client_fail_spec:
  "core s \<Longrightarrow> after (client_fail cf e) (\<lambda>_ s'. client_ok s' \<and> cl_runtime s' = cl_runtime s \<and> sn_phase (cl_snapshot s') = PhaseError
     \<and> log_of s' = log_of s) s"
  by (rule after_client_fail) (auto simp: becomes_def client_ok_def core_def idle_def idle_of_def)

lemma client_fail_ok: "core s \<Longrightarrow> after (client_fail cf e) (\<lambda>_. client_ok) s"
  by (rule after_mono [OF client_fail_spec]) auto

lemma fail_with_spec:
  "core s \<Longrightarrow> after (client_fail cf e \<bind> (\<lambda>_. done_with x)) (\<lambda>r s'. client_ok s' \<and> cl_runtime s' = cl_runtime s
     \<and> sn_phase (cl_snapshot s') = PhaseError \<and> r = x) s"
  unfolding after_bind by (rule after_mono [OF client_fail_spec]) auto

text \<open>How trying one transport ends: cancelled, connected over it, or in an error with a tunnel that could not be stopped.\<close>

definition settled :: "SessionTransport \<Rightarrow> 'w Client \<Rightarrow> bool" where
  "settled t s \<longleftrightarrow> (case sn_phase (cl_snapshot s) of
       Enrolled \<Rightarrow> True
     | Connected \<Rightarrow> sn_active_transport (cl_snapshot s) = Some (transport_summary (tr_profile t))
     | PhaseError \<Rightarrow> rt_tunnel (cl_runtime s) \<noteq> None
     | _ \<Rightarrow> False)"

definition attempted :: "SessionTransport \<Rightarrow> attempt \<Rightarrow> 'w Client \<Rightarrow> bool" where
  "attempted t r s \<longleftrightarrow> (case r of Finished x \<Rightarrow> client_ok s \<and> settled t s | NextAfter e \<Rightarrow> ready s)"

lemma core_of_started:
  "core_of rt sn cs \<Longrightarrow> rt_tunnel rt = None \<Longrightarrow> rt_session rt \<noteq> None \<Longrightarrow>
     core_of (rt\<lparr>rt_tunnel := Some t\<rparr>) sn (Started t # cs)"
  by (auto simp: core_of_def held_of_def accounted_started)

lemma tunnel_up_spec:
  assumes "core_of ((cl_runtime s)\<lparr>rt_tunnel := Some (started_tunnel x)\<rparr>) (cl_snapshot s) (log_of s)"
  shows "after (tunnel_up cf t p x) (\<lambda>r s'. client_ok s' \<and> settled t s') s"
proof -
  have save: "after (save_memory cf) Q s1"
    if "\<And>s'. becomes s' (cl_runtime s1) (cl_snapshot s1) (log_of s1) \<Longrightarrow> Q () s'" for Q and s1 :: "'a Client"
    unfolding save_memory_def using that by (cases "rt_memory (cl_runtime s1)") (auto simp: becomes_def)
  show ?thesis
    unfolding tunnel_up_def Let_def cache_probe_def after_bind
    by (intro after_set_runtime save)
      (use assms in \<open>auto simp: settled_def becomes_def client_ok_def core_def core_of_def held_of_def idle_def idle_of_def
        intro!: after_set_runtime after_client_time after_update_snapshot\<close>)
qed

lemma cancelled_spec: "ready s \<Longrightarrow> after (cancelled_attempt cf) (attempted t) s"
  unfolding cancelled_attempt_def after_bind by (rule after_mono [OF finish_cancelled_spec]) (auto simp: attempted_def settled_def)

lemma failed_spec: "ready s \<Longrightarrow> after (failed_attempt cf t stage e) (attempted t) s"
  unfolding failed_attempt_def after_bind
  by (rule after_quiet [OF quiet_record_failure]) (auto simp: attempted_def settled_def ready_def stable_def)

text \<open>A tunnel that came up and is not held yet: it is stopped again, or kept.\<close>

definition came_up :: "'w Client \<Rightarrow> ActiveTunnel \<Rightarrow> bool" where
  "came_up s t \<longleftrightarrow> rt_tunnel (cl_runtime s) = None
     \<and> core_of ((cl_runtime s)\<lparr>rt_tunnel := Some t\<rparr>) (cl_snapshot s) (log_of s)"

lemma stop_cancelled_spec:
  fixes s :: "'w Client"
  assumes "came_up s t"
  shows "after (stop_cancelled cf t) (attempted tr) s"
  unfolding stop_cancelled_def after_bind
proof (rule after_stop_and_retain)
  fix s' :: "'w Client" assume "becomes s' (cl_runtime s) (cl_snapshot s) (log_of s')" "accounted (log_of s') []"
  then have "ready s'" using assms by (auto simp: came_up_def ready_def becomes_def core_def core_of_def held_of_def)
  from cancelled_spec [OF this]
  show "after (case Ok () of Err e \<Rightarrow> client_fail cf e \<bind> (\<lambda>_. done_with (Finished (Err e)))
    | Ok _ \<Rightarrow> cancelled_attempt cf) (attempted tr) s'" by simp
next
  fix e and s' :: "'w Client"
  assume "becomes s' ((cl_runtime s)\<lparr>rt_tunnel := Some t\<rparr>) (cl_snapshot s) (log_of s')" "accounted (log_of s') [t]"
  then have s': "core s'" "rt_tunnel (cl_runtime s') = Some t"
    using assms by (auto simp: came_up_def becomes_def core_def core_of_def held_of_def)
  from fail_with_spec [OF this(1), of cf e "Finished (Err e)"]
  show "after (case Err e of Err e \<Rightarrow> client_fail cf e \<bind> (\<lambda>_. done_with (Finished (Err e)))
    | Ok _ \<Rightarrow> cancelled_attempt cf) (attempted tr) s'"
    using s'(2) by (auto simp: attempted_def settled_def elim: after_mono)
qed (use assms in \<open>auto simp: came_up_def core_of_def held_of_def\<close>)

lemma tunnel_up_attempt: "came_up s (started_tunnel x) \<Longrightarrow> after (tunnel_up cf t p x \<bind> (\<lambda>r. done_with (Finished r))) (attempted t) s"
  unfolding after_bind by (rule after_mono [OF tunnel_up_spec]) (auto simp: came_up_def attempted_def)

lemma connect_attempt_spec:
  fixes s :: "'w Client"
  assumes "ready s"
  shows "after (connect_attempt cf b opts a t p) (attempted t) s"
  unfolding connect_attempt_def after_bind
proof (intro after_update_snapshot after_ask_world)
  fix now c and s1 s2 :: "'w Client"
  assume "becomes s1 (cl_runtime s) (((cl_snapshot s)\<lparr>sn_phase := if b then Reconnecting else Connecting\<rparr>)\<lparr>sn_updated_at := now\<rparr>) (log_of s)"
    and "becomes s2 (cl_runtime s1) (cl_snapshot s1) (log_of s1)"
  then have r2: "ready s2" using assms by (simp add: ready_def core_def becomes_def)
  have "after (on_world (engine_connect a t p opts)) (\<lambda>r. after (tunnel_started cf t p r) (attempted t)) s2"
  proof (rule after_engine_connect)
    fix e and s3 :: "'w Client" assume "becomes s3 (cl_runtime s2) (cl_snapshot s2) (log_of s2)"
    then have "ready s3" using r2 by (simp add: ready_def core_def becomes_def)
    from failed_spec [OF this] show "after (tunnel_started cf t p (Err e)) (attempted t) s3" by (simp add: tunnel_started_def)
  next
    fix x :: StartedTunnel and s3 :: "'w Client" assume "becomes s3 (cl_runtime s2) (cl_snapshot s2) (Started (started_tunnel x) # log_of s2)"
    then have up: "came_up s4 (started_tunnel x)" if "becomes s4 (cl_runtime s3) (cl_snapshot s3) (log_of s3)" for s4 :: "'w Client"
      using r2 that core_of_started by (auto simp: came_up_def ready_def core_def becomes_def)
    have "after (on_world (ask (kc_cancelled cf))) (\<lambda>c. after (if c then stop_cancelled cf (started_tunnel x)
        else tunnel_up cf t p x \<bind> (\<lambda>r. done_with (Finished r))) (attempted t)) s3"
      by (rule after_ask_world) (use stop_cancelled_spec [OF up] tunnel_up_attempt [OF up] in auto)
    then show "after (tunnel_started cf t p (Ok x)) (attempted t) s3" by (simp add: tunnel_started_def)
  qed
  then show "after (if c then cancelled_attempt cf
      else on_world (engine_connect a t p opts) \<bind> tunnel_started cf t p) (attempted t) s2"
    using cancelled_spec [OF r2] by simp
qed

lemma probe_attempt_spec:
  fixes s :: "'w Client"
  assumes "ready s"
  shows "after (probe_attempt cf b opts i a t) (attempted t) s"
proof -
  have answered: "after (probe_answered cf b opts a t r) (attempted t) s1" if r1: "ready s1" for r and s1 :: "'w Client"
  proof (cases r)
    case (Inl e)
    have "after (cached_probe t e) (\<lambda>c. after (case c of Some p \<Rightarrow> connect_attempt cf b opts a t p
        | None \<Rightarrow> failed_attempt cf t ProbeStage e) (attempted t)) s1"
    proof (rule after_quiet [OF quiet_cached_probe])
      show "core s1" using r1 by (simp add: ready_def)
    next
      fix c and s2 :: "'w Client" assume "core s2" "stable s1 s2"
      then have "ready s2" using r1 ready_stable by blast
      then show "after (case c of Some p \<Rightarrow> connect_attempt cf b opts a t p | None \<Rightarrow> failed_attempt cf t ProbeStage e) (attempted t) s2"
        by (simp add: connect_attempt_spec failed_spec split: option.splits)
    qed
    then show ?thesis by (simp add: probe_answered_def Inl)
  next
    case (Inr p)
    then show ?thesis by (simp add: probe_answered_def connect_attempt_spec r1)
  qed
  have r: "ready s'" if "becomes s' (cl_runtime s) sn cs" "core_of (cl_runtime s) sn cs = core s" for s' :: "'w Client" and sn cs
    using assms that by (simp add: ready_def core_def becomes_def)
  show ?thesis
    unfolding probe_attempt_def after_bind
  proof (intro after_update_snapshot after_noted_world after_ask_world)
    fix now c and s1 s2 s3 :: "'w Client"
    assume "becomes s1 (cl_runtime s) (((cl_snapshot s)\<lparr>sn_phase := if b then Reconnecting else Probing,
        sn_active_transport := Some (transport_summary (tr_profile t)),
        sn_reconnect_attempt := if b then (i + 1) mod 2 ^ 32 else 0, sn_issue := None\<rparr>)\<lparr>sn_updated_at := now\<rparr>) (log_of s)"
      "becomes s2 (cl_runtime s1) (cl_snapshot s1) (Tried (prof_id (tr_profile t)) # log_of s1)"
      "becomes s3 (cl_runtime s2) (cl_snapshot s2) (log_of s2)"
    then have r3: "ready s3" using assms by (simp add: ready_def core_def becomes_def)
    have "after (on_world (ask (adapter_probe a t))) (\<lambda>p. after (probe_answered cf b opts a t p) (attempted t)) s3"
      by (rule after_ask_world) (rule answered, use r3 in \<open>simp add: ready_def core_def becomes_def\<close>)
    then show "after (if c then cancelled_attempt cf
        else on_world (ask (adapter_probe a t)) \<bind> probe_answered cf b opts a t) (attempted t) s3"
      using cancelled_spec [OF r3] by simp
  qed
qed

lemma try_transports_spec:
  "ready s \<Longrightarrow> after (try_transports cf b opts i ts last_error) (\<lambda>r s'. client_ok s') s"
proof (induction ts arbitrary: i last_error s)
  case Nil
  then show ?case by (simp add: ready_def Let_def client_fail_ok)
next
  case (Cons t ts)
  show ?case
  proof (cases "find (\<lambda>a. adapter_supports a t) (kc_adapters cf)")
    case None
    then show ?thesis using Cons.prems by (simp add: ready_def client_fail_ok)
  next
    case (Some a)
    have "after (probe_attempt cf b opts i a t) (\<lambda>r. after (case r of Finished x \<Rightarrow> done_with x
        | NextAfter e \<Rightarrow> try_transports cf b opts (Suc i) ts (Some e)) (\<lambda>r s'. client_ok s')) s"
      by (rule after_mono [OF probe_attempt_spec [OF Cons.prems]])
        (use Cons.IH in \<open>auto simp: attempted_def settled_def split: attempt.splits\<close>)
    then show ?thesis by (simp add: Some)
  qed
qed

lemma connect_candidates_spec: "ready s \<Longrightarrow> after (connect_candidates cf b opts m c) (\<lambda>_. client_ok) s"
  by (simp add: connect_candidates_def ready_def client_fail_ok Let_def try_transports_spec)

lemma connect_session_spec:
  fixes s :: "'w Client"
  assumes "ready s"
  shows "after (connect_session cf b session) (\<lambda>_. client_ok) s"
  unfolding connect_session_def
proof -
  have q: "quiet (candidates_now cf session)" unfolding candidates_now_def by (intro quiet_bind quiet_time quiet_runtime)
  have clear: "quiet (clear_fallbacks cf b)"
    by (simp add: clear_fallbacks_def quiet_return quiet_clear_fallbacks)
  have "after (clear_fallbacks cf b) (\<lambda>_. after (connect_candidates cf b opts m c) (\<lambda>_. client_ok)) s1"
    if "ready s1" for opts m c and s1 :: "'w Client"
    using that by (blast intro: after_quiet [OF clear] connect_candidates_spec ready_stable ready_core)
  then show "after (candidates_now cf session \<bind> (\<lambda>c. runtime (missing_preference session) \<bind> (\<lambda>m.
      runtime rt_connect_options \<bind> (\<lambda>opts. clear_fallbacks cf b \<bind> (\<lambda>_. connect_candidates cf b opts m c)))))
      (\<lambda>_. client_ok) s"
    unfolding after_bind after_runtime
    using assms by (blast intro: after_quiet [OF q] ready_stable ready_core)
qed

text \<open>Connecting without a tunnel: refused when not enrolled, and otherwise it ends in an idle phase.\<close>

lemma connect_ready_spec:
  fixes s :: "'w Client"
  assumes "core s" "rt_tunnel (cl_runtime s) = None"
  shows "after (connect_ready cf b) (\<lambda>r s'. core s'
     \<and> (if rt_session (cl_runtime s) = None then stable s s' \<and> r = Err NotEnrolled else client_ok s')) s"
  unfolding connect_ready_def after_bind
proof (rule after_quiet [OF quiet_load_memory assms(1)])
  fix r and s1 :: "'w Client" assume s1: "core s1" "stable s s1"
  show "after (runtime rt_session) (\<lambda>session. after (case session of
      None \<Rightarrow> done_with (Err NotEnrolled) | Some session \<Rightarrow> connect_session cf b session)
    (\<lambda>r s'. core s' \<and> (if rt_session (cl_runtime s) = None then stable s s' \<and> r = Err NotEnrolled else client_ok s'))) s1"
  proof (cases "rt_session (cl_runtime s1)")
    case None
    then show ?thesis using s1 by (simp add: stable_def)
  next
    case (Some session)
    have "ready s1" using s1 assms(2) Some by (simp add: ready_def stable_def)
    from connect_session_spec [OF this]
    have "after (connect_session cf b session) (\<lambda>r s'. core s' \<and> client_ok s') s1"
      by (rule after_mono) (simp add: client_ok_def)
    moreover have "rt_session (cl_runtime s) \<noteq> None" using Some s1(2) by (simp add: stable_def)
    ultimately show ?thesis using Some by auto
  qed
qed

definition may_reconnect :: "'w Client \<Rightarrow> bool" where
  "may_reconnect s \<longleftrightarrow> core s \<and> (ready s \<or> idle s)"

lemma connect_locked_spec:
  fixes s :: "'w Client"
  assumes "may_reconnect s"
  shows "after (connect_locked cf b) (\<lambda>r s'. client_ok s') s"
proof -
  have c: "core s" using assms by (simp add: may_reconnect_def)
  have "after take_tunnel (\<lambda>t. after (stop_taken cf t) (\<lambda>r s'. case r of Err e \<Rightarrow> client_ok s'
      | Ok _ \<Rightarrow> after (connect_ready cf b) (\<lambda>_. client_ok) s')) s"
  proof (rule after_take_and_stop [OF c])
    fix s1 :: "'w Client"
    assume b1: "becomes s1 ((cl_runtime s)\<lparr>rt_tunnel := None\<rparr>) (cl_snapshot s) (log_of s1)" and "accounted (log_of s1) []"
    then have c1: "core s1" "rt_tunnel (cl_runtime s1) = None"
      using c by (auto simp: becomes_def core_def core_of_def held_of_def)
    have "client_ok s'" if "core s'" "stable s1 s'" "rt_session (cl_runtime s1) = None" for s' :: "'w Client"
    proof -
      have none: "rt_session (cl_runtime s) = None" using b1 that(3) by (simp add: becomes_def)
      then have "rt_tunnel (cl_runtime s) = None" using c by (auto simp: core_def core_of_def)
      moreover have "idle s" using assms none by (auto simp: may_reconnect_def ready_def)
      ultimately have "idle s1" using b1 by (auto simp: becomes_def idle_def idle_of_def split: ClientPhase.splits)
      then show ?thesis using that idle_stable by (auto simp: client_ok_def)
    qed
    then show "case Ok () of Err e \<Rightarrow> client_ok s1 | Ok _ \<Rightarrow> after (connect_ready cf b) (\<lambda>_. client_ok) s1"
      by (auto intro!: after_mono [OF connect_ready_spec [OF c1]] split: if_splits)
  next
    fix e t and s1 :: "'w Client"
    assume t: "rt_tunnel (cl_runtime s) = Some t" "becomes s1 (cl_runtime s) (cl_snapshot s) (log_of s1)" "accounted (log_of s1) [t]"
    then have "idle s" using assms by (auto simp: may_reconnect_def ready_def)
    then show "case Err e of Err e \<Rightarrow> client_ok s1 | Ok _ \<Rightarrow> after (connect_ready cf b) (\<lambda>_. client_ok) s1"
      using t c by (auto simp: becomes_def client_ok_def core_def core_of_def held_of_def idle_def)
  qed
  moreover have "client_ok s" if "rt_tunnel (cl_runtime s) = Some t" for t
    using assms that by (auto simp: may_reconnect_def ready_def client_ok_def)
  ultimately show ?thesis
    unfolding connect_locked_def by (auto split: option.splits)
qed

lemma renew_due_quiet: "quiet (renew_due cf)"
  unfolding renew_due_def
  by (intro quiet_bind quiet_runtime) (simp add: quiet_return quiet_time quiet_bind split: option.splits)

lemma client_ok_refreshed: "client_ok s \<Longrightarrow> refreshed s r s' \<Longrightarrow> client_ok s'"
  by (auto simp: client_ok_def refreshed_def in_error_def intro: idle_stable idle_error)

lemma client_ok_stable: "client_ok s \<Longrightarrow> core s' \<Longrightarrow> stable s s' \<Longrightarrow> client_ok s'"
  by (auto simp: client_ok_def intro: idle_stable)

lemma client_ok_core: "client_ok s \<Longrightarrow> core s"
  by (simp add: client_ok_def)

lemma refresh_ok: "client_ok s \<Longrightarrow> after (refresh_locked cf renew surf) (\<lambda>_. client_ok) s"
  by (rule after_mono [OF refresh_spec]) (auto simp: client_ok_core intro: client_ok_refreshed)

lemma reconnect_failed_spec:
  fixes s :: "'w Client"
  assumes "client_ok s"
  shows "after (reconnect_failed cf e) (\<lambda>_. client_ok) s"
  unfolding reconnect_failed_def after_bind
proof (rule after_quiet [OF renew_due_quiet client_ok_core [OF assms]])
  fix renew and s1 :: "'w Client" assume "core s1" "stable s s1"
  then have "client_ok s1" using assms client_ok_stable by blast
  then show "after (refresh_locked cf renew False) (\<lambda>r. after (reconnect_refreshed cf e r) (\<lambda>_. client_ok)) s1"
    by (intro after_mono [OF refresh_ok]) (auto simp: reconnect_refreshed_def client_fail_ok client_ok_core)
qed

lemma reconnect_spec: "may_reconnect s \<Longrightarrow> after (reconnect_locked cf) (\<lambda>_. client_ok) s"
  unfolding reconnect_locked_def after_bind
  by (rule after_mono [OF connect_locked_spec]) (auto simp: reconnect_failed_spec split: sum.splits)

subsection \<open>Operations keep the invariant\<close>

definition keeps :: "('w Client, 'a) state \<Rightarrow> bool" where
  "keeps m \<longleftrightarrow> (\<forall>s. client_ok s \<longrightarrow> after m (\<lambda>_. client_ok) s)"

lemma keeps_after: "keeps m \<Longrightarrow> client_ok s \<Longrightarrow> after m (\<lambda>_. client_ok) s"
  by (simp add: keeps_def)

lemma keeps_bind: "keeps m \<Longrightarrow> (\<And>r. keeps (f r)) \<Longrightarrow> keeps (m \<bind> f)"
  unfolding keeps_def after_bind by (blast intro: after_mono)

lemma keeps_quiet: "quiet m \<Longrightarrow> keeps m"
  unfolding keeps_def by (blast intro: after_quiet client_ok_core client_ok_stable)

lemma keeps_return: "keeps (done_with x)"
  by (simp add: keeps_def)

lemma keeps_try_next: "keeps m \<Longrightarrow> (\<And>r. keeps (f r)) \<Longrightarrow> keeps (try_next m f)"
  unfolding try_next_def by (intro keeps_bind) (auto simp: keeps_return split: sum.splits)

lemma keeps_refresh: "keeps (refresh_locked cf renew surf)"
  by (simp add: keeps_def refresh_ok)

lemma keeps_fail: "keeps (client_fail cf e)"
  by (simp add: keeps_def client_fail_ok client_ok_core)

lemma may_reconnect_ok: "client_ok s \<Longrightarrow> may_reconnect s"
  by (simp add: may_reconnect_def client_ok_def)

lemma keeps_connect_locked: "keeps (connect_locked cf b)"
  by (simp add: keeps_def connect_locked_spec may_reconnect_ok)

lemma keeps_reconnect: "keeps (reconnect_locked cf)"
  by (simp add: keeps_def reconnect_spec may_reconnect_ok)

lemma quiet_update_snapshot:
  assumes "\<And>rt sn cs. core_of rt (f sn) cs = core_of rt sn cs"
    and "\<And>sn. sn_phase (f sn) = sn_phase sn \<and> sn_active_transport (f sn) = sn_active_transport sn"
  shows "quiet (update_snapshot cf f)"
  using assms by (auto simp: quiet_def becomes_def core_def stable_def intro!: after_update_snapshot)

lemma quiet_answer: "quiet answer_snapshot"
  by (simp add: quiet_def)

lemma keeps_not_requested: "keeps (set_runtime (\<lambda>rt. rt\<lparr>rt_connection_requested := False\<rparr>))"
  by (auto simp: keeps_def becomes_def client_ok_def core_def core_of_def held_of_def idle_def idle_of_def
      split: ClientPhase.splits intro!: after_set_runtime)

lemmas keeps_simple = keeps_bind keeps_try_next keeps_return keeps_refresh keeps_fail keeps_reconnect keeps_connect_locked
  keeps_not_requested keeps_quiet [OF quiet_runtime] keeps_quiet [OF quiet_reads] keeps_quiet [OF quiet_time]
  keeps_quiet [OF quiet_answer] keeps_quiet [OF quiet_ask] keeps_quiet [OF renew_due_quiet] keeps_quiet [OF quiet_record_lost]

lemma keeps_clear_issue: "keeps (update_snapshot cf (\<lambda>sn. sn\<lparr>sn_issue := x\<rparr>))"
  by (rule keeps_quiet, rule quiet_update_snapshot) simp_all

lemma keeps_renew_before_connect: "keeps (renew_before_connect_locked cf)"
  unfolding renew_before_connect_locked_def
  by (intro keeps_simple) (auto split: option.splits sum.splits ClientError.splits intro!: keeps_simple keeps_clear_issue)

lemma keeps_connect_requested: "keeps (connect_requested cf)"
  unfolding connect_requested_def
  by (intro keeps_simple keeps_renew_before_connect) (auto split: sum.splits intro!: keeps_simple)

lemma keeps_connect: "keeps (connect_with_protocol cf preferred)"
proof -
  have "after (set_runtime (\<lambda>rt. rt\<lparr>rt_connection_requested := True, rt_preferred_protocol := preferred\<rparr>))
      (\<lambda>_. after (update_snapshot cf (\<lambda>sn. sn\<lparr>sn_preferred_protocol := preferred\<rparr>))
        (\<lambda>_. after (connect_requested cf) (\<lambda>_. client_ok))) s"
    if "client_ok s" "rt_session (cl_runtime s) \<noteq> None" for s :: "'a Client"
    using that by (intro after_set_runtime after_update_snapshot keeps_after [OF keeps_connect_requested])
      (auto simp: becomes_def client_ok_def core_def core_of_def held_of_def idle_def idle_of_def split: ClientPhase.splits)
  then show ?thesis
    unfolding keeps_def connect_with_protocol_def after_bind after_runtime by simp
qed

lemma enrolled_with_spec:
  assumes "core s" "rt_session (cl_runtime s) = None" "session_kept m"
  shows "after (enrolled_with cf m) (\<lambda>_. client_ok) s"
proof -
  have "rt_tunnel (cl_runtime s) = None" using assms(1,2) by (auto simp: core_def core_of_def)
  then show ?thesis
    unfolding enrolled_with_def after_bind
    using assms by (auto simp: becomes_def client_ok_def core_def core_of_def held_of_def idle_def idle_of_def
        intro!: after_client_time after_set_runtime after_update_snapshot)
qed

lemma manifest_kept: "validate_manifest u m now = Ok () \<Longrightarrow> session_kept m"
  unfolding validate_manifest_Ok manifest_ok_def session_kept_def token_shape by blast

lemma quiet_release: "quiet (client_release cf token)"
  by (simp add: client_release_def quiet_def core_def stable_def)

lemma session_created_spec:
  assumes "core s" "rt_session (cl_runtime s) = None"
  shows "after (session_created cf created) (\<lambda>_. client_ok) s"
proof (cases created)
  case (Inl e)
  then show ?thesis using assms(1) by (simp add: session_created_def client_fail_ok)
next
  case (Inr m)
  have release: "quiet (case split_session_token (man_session_token m) of
      Err _ \<Rightarrow> done_with (Ok ()) | Ok _ \<Rightarrow> client_release cf (man_session_token m))"
    by (simp add: quiet_return quiet_release split: sum.splits)
  show ?thesis
    unfolding session_created_def Inr sum.case after_bind
  proof (rule after_client_time)
    fix now and s1 :: "'a Client" assume "becomes s1 (cl_runtime s) (cl_snapshot s) (log_of s)"
    then have s1: "core s1" "rt_session (cl_runtime s1) = None" using assms by (simp_all add: becomes_def core_def)
    have "after (refuse_session cf m e) (\<lambda>_. client_ok) s1" for e
      unfolding refuse_session_def after_bind
      by (rule after_quiet [OF release s1(1)]) (simp add: client_fail_ok)
    then show "after (case validate_manifest (kc_url_parse cf) m now of Err e \<Rightarrow> refuse_session cf m e
        | Ok _ \<Rightarrow> enrolled_with cf m) (\<lambda>_. client_ok) s1"
      using enrolled_with_spec [OF s1] manifest_kept by (auto split: sum.splits)
  qed
qed

lemma keeps_enroll: "keeps (enroll cf code)"
proof -
  have "after (update_snapshot cf (\<lambda>sn. sn\<lparr>sn_phase := Enrolling, sn_issue := None, sn_reconnect_attempt := 0\<rparr>))
      (\<lambda>_. after (on_world (ask f)) (\<lambda>created. after (session_created cf created) (\<lambda>_. client_ok))) s"
    if "client_ok s" "rt_session (cl_runtime s) = None" for s :: "'a Client" and f
    using that by (intro after_update_snapshot after_ask_world session_created_spec)
      (auto simp: becomes_def client_ok_def core_def)
  then show ?thesis
    unfolding keeps_def enroll_def by (auto split: sum.splits)
qed

subsection \<open>Maintenance keeps the invariant\<close>

text \<open>Giving up a tunnel: it is stopped, or kept when it cannot be.\<close>

lemma after_give_up:
  fixes s :: "'w Client"
  assumes s: "client_ok s" "rt_tunnel (cl_runtime s) = Some t"
    and f: "\<And>rt. rt_tunnel (f rt) = None" "\<And>rt. rt_session (f rt) = rt_session rt"
    and f_core: "\<And>rt held sn cs. core_of (rt\<lparr>rt_tunnel := held\<rparr>) sn cs \<Longrightarrow> core_of ((f rt)\<lparr>rt_tunnel := held\<rparr>) sn cs"
    and m: "\<And>s'. ready s' \<Longrightarrow> after m (\<lambda>_. client_ok) s'"
  shows "after (set_runtime f) (\<lambda>_. after (try_next (stop_and_retain_on_failure cf t) (\<lambda>_. m)) (\<lambda>_. client_ok)) s"
  unfolding after_try_next
proof (rule after_set_runtime)
  fix s1 :: "'w Client" assume s1: "becomes s1 (f (cl_runtime s)) (cl_snapshot s) (log_of s)"
  have c: "core_of (cl_runtime s) (cl_snapshot s) (log_of s)" and i: "idle s" using s by (auto simp: client_ok_def core_def)
  have acc: "accounted (log_of s) [t]" using c s(2) by (simp add: core_of_def held_of_def)
  have held: "core_of ((f (cl_runtime s))\<lparr>rt_tunnel := h\<rparr>) (cl_snapshot s) cs"
    if "accounted cs (held_of ((cl_runtime s)\<lparr>rt_tunnel := h\<rparr>))" for h cs
    by (rule f_core) (use c s(2) that in \<open>auto simp: core_of_def\<close>)
  have session: "rt_session (cl_runtime s) \<noteq> None" using c s(2) by (auto simp: core_of_def)
  show "after (stop_and_retain_on_failure cf t) (\<lambda>r s'. case r of Err e \<Rightarrow> client_ok s' | Ok _ \<Rightarrow> after m (\<lambda>_. client_ok) s') s1"
  proof (rule after_stop_and_retain)
    show "rt_tunnel (cl_runtime s1) = None" "accounted (log_of s1) [t]" using s1 f(1) acc by (simp_all add: becomes_def)
  next
    fix s2 :: "'w Client" assume s2: "becomes s2 (cl_runtime s1) (cl_snapshot s1) (log_of s2)" "accounted (log_of s2) []"
    have same: "(f (cl_runtime s))\<lparr>rt_tunnel := None\<rparr> = f (cl_runtime s)" using f(1) [of "cl_runtime s"] by simp
    have "ready s2" using held [of "log_of s2" None, unfolded same] s1 s2 f session
      by (simp add: ready_def becomes_def core_def held_of_def)
    then show "case Ok () of Err e \<Rightarrow> client_ok s2 | Ok _ \<Rightarrow> after m (\<lambda>_. client_ok) s2" using m by simp
  next
    fix e and s2 :: "'w Client"
    assume "becomes s2 ((cl_runtime s1)\<lparr>rt_tunnel := Some t\<rparr>) (cl_snapshot s1) (log_of s2)" "accounted (log_of s2) [t]"
    then have "client_ok s2" using held [of "log_of s2" "Some t"] i s1 s(2) f
      by (auto simp: client_ok_def becomes_def core_def held_of_def idle_def idle_of_def split: ClientPhase.splits)
    then show "case Err e of Err e \<Rightarrow> client_ok s2 | Ok _ \<Rightarrow> after m (\<lambda>_. client_ok) s2" by simp
  qed
qed

lemma ready_may_reconnect: "ready s \<Longrightarrow> may_reconnect s"
  by (simp add: may_reconnect_def ready_core)

lemma lost_then_reconnect:
  "ready s \<Longrightarrow> after (record_lost_tunnel cf i c m \<bind> (\<lambda>_. reconnect_locked cf)) (\<lambda>_. client_ok) s"
  unfolding after_bind
  by (rule after_quiet [OF quiet_record_lost ready_core]) (auto intro: reconnect_spec ready_may_reconnect ready_stable)

lemma route_lost_spec:
  assumes "client_ok s" "rt_tunnel (cl_runtime s) = Some t"
  shows "after (route_lost cf t) (\<lambda>_. client_ok) s"
  unfolding route_lost_def after_bind [of "set_runtime _"]
  by (rule after_give_up [OF assms]) (auto simp: core_of_def held_of_def lost_then_reconnect simp del: after_bind)

lemma keeps_check_noted: "keeps (on_world (noted (RouteChecked b)))"
  by (rule keeps_quiet) (simp add: quiet_def core_def stable_def)

lemma keeps_answer_with: "keeps (update_snapshot cf (\<lambda>sn. sn\<lparr>sn_issue := x\<rparr>) \<bind> (\<lambda>_. answer_snapshot))"
  by (intro keeps_simple keeps_clear_issue)

lemma check_route_spec:
  assumes "client_ok s" "rt_tunnel (cl_runtime s) = Some t"
  shows "after (check_route cf t) (\<lambda>_. client_ok) s"
  unfolding check_route_def after_bind [of "on_world _"]
proof (intro after_ask_world after_noted_world)
  fix healthy and s1 s2 :: "'a Client"
  assume "becomes s1 (cl_runtime s) (cl_snapshot s) (log_of s)" "becomes s2 (cl_runtime s1) (cl_snapshot s1) (RouteChecked healthy # log_of s1)"
  then have "client_ok s2" "rt_tunnel (cl_runtime s2) = Some t"
    using assms by (auto simp: client_ok_def core_def idle_def becomes_def)
  then show "after (if healthy then update_snapshot cf (\<lambda>sn. sn\<lparr>sn_issue := None\<rparr>) \<bind> (\<lambda>_. answer_snapshot) else route_lost cf t)
      (\<lambda>_. client_ok) s2"
    using keeps_after [OF keeps_answer_with] route_lost_spec by auto
qed

lemma keeps_unreachable: "keeps (server_unreachable cf e)"
proof -
  have counted: "after (set_runtime (\<lambda>rt. rt\<lparr>rt_control_failures := min (rt_control_failures rt + 1) 255\<rparr>))
      (\<lambda>_. client_ok) s" if "client_ok s" for s :: "'a Client"
    using that by (intro after_set_runtime)
      (auto simp: client_ok_def core_def core_of_def held_of_def idle_def idle_of_def becomes_def split: ClientPhase.splits)
  show ?thesis
    unfolding keeps_def server_unreachable_def after_bind [of "set_runtime _"] after_bind [of "runtime _"] after_bind [of "reads _"]
      after_runtime after_reads
    by (intro allI impI, rule after_mono [OF counted])
      (auto simp del: after_bind split: option.splits intro!: check_route_spec keeps_after [OF keeps_answer_with])
qed

lemma keeps_maintain_session: "keeps (maintain_session cf)"
  unfolding maintain_session_def
  by (intro keeps_simple) (auto split: sum.splits ClientError.splits intro!: keeps_simple keeps_unreachable)

lemma tunnel_gone_spec: "ready s \<Longrightarrow> after (tunnel_gone cf) (\<lambda>_. client_ok) s"
proof -
  assume "ready s"
  then have "after (update_snapshot cf (\<lambda>sn. sn\<lparr>sn_phase := Enrolled, sn_active_transport := None,
       sn_connected_at := None, sn_handshake_latency_ms := None, sn_reconnect_attempt := 0, sn_issue := None\<rparr>))
     (\<lambda>_. after (maintain_session cf) (\<lambda>_. client_ok)) s"
    by (intro after_update_snapshot keeps_after [OF keeps_maintain_session])
      (auto simp: ready_def becomes_def client_ok_def core_def idle_def idle_of_def)
  moreover obtain session where "rt_session (cl_runtime s) = Some session" using \<open>ready s\<close> by (auto simp: ready_def)
  ultimately show ?thesis unfolding tunnel_gone_def after_bind by simp
qed

lemma tunnel_lost_spec:
  assumes "client_ok s" "rt_tunnel (cl_runtime s) = Some t"
  shows "after (tunnel_lost cf requested t message) (\<lambda>_. client_ok) s"
  unfolding tunnel_lost_def after_bind [of "set_runtime _"]
  by (rule after_give_up [OF assms]) (auto simp: core_of_def held_of_def lost_then_reconnect tunnel_gone_spec simp del: after_bind)

lemma keeps_maintain_once: "keeps (maintain_once cf)"
  unfolding keeps_def maintain_once_def
  by (auto split: option.splits TunnelStatus.splits
      intro!: keeps_after [OF keeps_reconnect] keeps_after [OF keeps_maintain_session] tunnel_lost_spec)

end
