(* ===== verification/Client_Behaviour.thy ===== *)
theory Client_Behaviour
  imports Client_Invariant
begin

text \<open>
  Leaving a server, moving to another network, and all operations of the client together: the
  client as a holder of tunnels, and what its operations promise.
\<close>

subsection \<open>Leaving keeps the invariant\<close>

lemma after_release:
  assumes "\<And>r s'. becomes s' (cl_runtime s) (cl_snapshot s) (Released token (case r of Err e \<Rightarrow> Some e | Ok _ \<Rightarrow> None) # log_of s) \<Longrightarrow> Q r s'"
  shows "after (client_release cf token) Q s"
  using assms by (simp add: client_release_def becomes_def)

definition released :: "rstr option \<Rightarrow> call list \<Rightarrow> bool" where
  "released token cs \<longleftrightarrow> (case token of None \<Rightarrow> True
     | Some k \<Rightarrow> (case cs of Released k' a # _ \<Rightarrow> k' = k \<and> (case a of None \<Rightarrow> True | Some e \<Rightarrow> is_unauthorized e) | _ \<Rightarrow> False))"

definition left :: "'w Client \<Rightarrow> bool" where
  "left s \<longleftrightarrow> sn_phase (cl_snapshot s) = Disconnected \<and> rt_tunnel (cl_runtime s) = None \<and> rt_session (cl_runtime s) = None
     \<and> \<not> rt_connection_requested (cl_runtime s) \<and> running (log_of s) = []"

definition leaves :: "SessionManifest option \<Rightarrow> ClientError + ClientSnapshot \<Rightarrow> 'w Client \<Rightarrow> bool" where
  "leaves session r s \<longleftrightarrow> client_ok s \<and> (case r of
     Err e \<Rightarrow> rt_session (cl_runtime s) = session \<and> sn_phase (cl_snapshot s) = PhaseError \<and> sn_issue (cl_snapshot s) = Some (issue e)
   | Ok sn \<Rightarrow> left s \<and> released (map_option man_session_token session) (log_of s) \<and> sn = cl_snapshot s)"

lemma show_error_spec:
  assumes "core s" and Q: "\<And>s'. client_ok s' \<Longrightarrow> cl_runtime s' = cl_runtime s \<Longrightarrow> sn_phase (cl_snapshot s') = PhaseError \<Longrightarrow>
      sn_issue (cl_snapshot s') = x \<Longrightarrow> Q (Err e) s'"
  shows "after (update_snapshot cf (\<lambda>sn. sn\<lparr>sn_phase := PhaseError, sn_issue := x\<rparr>) \<bind> (\<lambda>_. done_with (Err e))) Q s"
  unfolding after_bind after_return
  by (rule after_update_snapshot, rule Q) (use assms(1) in \<open>auto simp: becomes_def client_ok_def core_def idle_def idle_of_def\<close>)

lemma leave_failed_spec:
  assumes "core s" "rt_session (cl_runtime s) = session"
  shows "after (update_snapshot cf (\<lambda>sn. sn\<lparr>sn_phase := PhaseError, sn_issue := Some (issue e)\<rparr>) \<bind> (\<lambda>_. done_with (Err e)))
    (leaves session) s"
  by (rule show_error_spec [OF assms(1)]) (use assms(2) in \<open>simp add: leaves_def\<close>)

lemma after_stop_taken:
  assumes "rt_tunnel (cl_runtime s) = None" "accounted (log_of s) (case held of None \<Rightarrow> [] | Some t \<Rightarrow> [t])"
    and "\<And>s'. becomes s' (cl_runtime s) (cl_snapshot s) (log_of s') \<Longrightarrow> accounted (log_of s') [] \<Longrightarrow> Q (Ok ()) s'"
    and "\<And>e s' t. held = Some t \<Longrightarrow> becomes s' ((cl_runtime s)\<lparr>rt_tunnel := Some t\<rparr>) (cl_snapshot s) (log_of s') \<Longrightarrow>
      accounted (log_of s') [t] \<Longrightarrow> Q (Err e) s'"
  shows "after (stop_taken cf held) Q s"
proof (cases held)
  case None
  then show ?thesis using assms by (simp add: stop_taken_def becomes_def)
next
  case (Some t)
  then show ?thesis using assms unfolding stop_taken_def by (auto intro!: after_stop_and_retain)
qed

lemma after_take_tunnel:
  assumes "\<And>s'. becomes s' ((cl_runtime s)\<lparr>rt_tunnel := None\<rparr>) (cl_snapshot s) (log_of s) \<Longrightarrow> Q (rt_tunnel (cl_runtime s)) s'"
  shows "after take_tunnel Q s"
  using assms by (simp add: take_tunnel_def set_runtime_def becomes_def)

definition can_leave :: "'w Client \<Rightarrow> bool" where
  "can_leave s \<longleftrightarrow> core s \<and> rt_tunnel (cl_runtime s) = None \<and> \<not> rt_connection_requested (cl_runtime s)"

lemma session_released_spec:
  assumes s: "can_leave s" "rt_session (cl_runtime s) = session"
    and r: "(case r of Err e \<Rightarrow> is_unauthorized e | Ok _ \<Rightarrow> True) \<longrightarrow> released (map_option man_session_token session) (log_of s)"
  shows "after (session_released cf r) (leaves session) s"
proof -
  have "after (forget_session \<bind> (\<lambda>_. update_snapshot cf (\<lambda>sn. (left_snapshot sn)\<lparr>sn_connected_at := None,
      sn_handshake_latency_ms := None, sn_reconnect_attempt := 0\<rparr>) \<bind> (\<lambda>_. answer_snapshot))) (leaves session) s"
    if "released (map_option man_session_token session) (log_of s)"
    unfolding forget_session_def after_bind after_answer_snapshot
    by (intro after_set_runtime after_update_snapshot)
      (use s that in \<open>auto simp: can_leave_def leaves_def left_def left_snapshot_def becomes_def client_ok_def core_def
        core_of_def held_of_def idle_def idle_of_def accounted_def\<close>)
  moreover have "core s" using s(1) by (simp add: can_leave_def)
  ultimately show ?thesis
    using r leave_failed_spec [OF \<open>core s\<close> s(2), of cf]
    unfolding session_released_def by (cases r) auto
qed

lemma leave_server_spec:
  assumes "can_leave s" "rt_session (cl_runtime s) = session" "token = map_option man_session_token session"
  shows "after (leave_server cf token) (leaves session) s"
  unfolding leave_server_def after_bind
proof (rule after_update_snapshot)
  fix now and s1 :: "'a Client"
  assume "becomes s1 (cl_runtime s) ((cl_snapshot s)\<lparr>sn_active_transport := None, sn_connected_at := None,
    sn_handshake_latency_ms := None, sn_reconnect_attempt := 0\<rparr>\<lparr>sn_updated_at := now\<rparr>) (log_of s)"
  then have s1: "can_leave s1" "rt_session (cl_runtime s1) = session" using assms by (simp_all add: can_leave_def becomes_def core_def)
  show "after (case token of None \<Rightarrow> done_with (Ok ()) | Some token \<Rightarrow> client_release cf token)
      (\<lambda>r. after (session_released cf r) (leaves session)) s1"
  proof (cases session)
    case None
    then show ?thesis using session_released_spec [OF s1] assms(3) by (simp add: released_def)
  next
    case (Some m)
    have "after (client_release cf (man_session_token m)) (\<lambda>r. after (session_released cf r) (leaves session)) s1"
      by (intro after_release session_released_spec)
        (use s1 Some in \<open>auto simp: can_leave_def becomes_def core_def released_def split: sum.splits\<close>)
    then show ?thesis using Some assms(3) by simp
  qed
qed

lemma after_cancel: "(\<And>s'. becomes s' (cl_runtime s) (cl_snapshot s) (log_of s) \<Longrightarrow> Q () s') \<Longrightarrow> after cancel_connection_attempt Q s"
  by (simp add: cancel_connection_attempt_def becomes_def)

lemma after_cancel_request:
  assumes "client_ok s" "\<And>rt sn cs. core_of rt sn cs \<Longrightarrow> core_of (f rt) sn cs"
    and "\<And>rt. \<not> rt_connection_requested (f rt) \<and> rt_session (f rt) = rt_session rt \<and> rt_tunnel (f rt) = rt_tunnel rt"
  shows "after cancel_connection_attempt (\<lambda>_. after (set_runtime f) (\<lambda>_ s'. core s' \<and> \<not> rt_connection_requested (cl_runtime s')
     \<and> rt_session (cl_runtime s') = rt_session (cl_runtime s) \<and> rt_tunnel (cl_runtime s') = rt_tunnel (cl_runtime s))) s"
  by (intro after_cancel after_set_runtime) (use assms in \<open>auto simp: becomes_def client_ok_def core_def\<close>)

text \<open>What \<open>take_tunnel\<close> leaves: the client no longer holds the tunnel that runs.\<close>

definition taken :: "ActiveTunnel option \<Rightarrow> 'w Client \<Rightarrow> bool" where
  "taken tunnel s \<longleftrightarrow> rt_tunnel (cl_runtime s) = None \<and> \<not> rt_connection_requested (cl_runtime s)
     \<and> accounted (log_of s) (case tunnel of None \<Rightarrow> [] | Some t \<Rightarrow> [t])
     \<and> (tunnel \<noteq> None \<longrightarrow> rt_session (cl_runtime s) \<noteq> None)
     \<and> (\<forall>cs. accounted cs [] \<longrightarrow> core_of (cl_runtime s) (cl_snapshot s) cs)
     \<and> (\<forall>cs t. tunnel = Some t \<longrightarrow> accounted cs [t] \<longrightarrow> core_of ((cl_runtime s)\<lparr>rt_tunnel := Some t\<rparr>) (cl_snapshot s) cs)"

lemma after_taken:
  assumes "core s" "\<not> rt_connection_requested (cl_runtime s)"
  shows "after take_tunnel (\<lambda>t s'. t = rt_tunnel (cl_runtime s) \<and> taken t s' \<and> rt_session (cl_runtime s') = rt_session (cl_runtime s)) s"
  by (rule after_take_tunnel)
    (use assms in \<open>auto simp: taken_def becomes_def core_def core_of_def held_of_def split: option.splits\<close>)

lemma taken_snapshot:
  "taken tunnel s \<Longrightarrow> becomes s' (cl_runtime s) sn (log_of s) \<Longrightarrow>
    (\<And>rt cs. core_of rt sn cs = core_of rt (cl_snapshot s) cs) \<Longrightarrow> taken tunnel s'"
  by (simp add: taken_def becomes_def)

lemma after_stop_held:
  assumes "taken tunnel s"
    and "\<And>s'. can_leave s' \<Longrightarrow> cl_runtime s' = cl_runtime s \<Longrightarrow> Q (Ok ()) s'"
    and "\<And>e s'. core s' \<Longrightarrow> rt_session (cl_runtime s') = rt_session (cl_runtime s) \<Longrightarrow> Q (Err e) s'"
  shows "after (stop_taken cf tunnel) Q s"
  by (rule after_stop_taken) (use assms in \<open>auto simp: taken_def can_leave_def becomes_def core_def\<close>)

lemma tunnel_left_spec:
  "can_leave s \<Longrightarrow> rt_session (cl_runtime s) = session \<Longrightarrow> token = map_option man_session_token session \<Longrightarrow>
    after (tunnel_left cf token (Ok ())) (leaves session) s"
  "core s \<Longrightarrow> rt_session (cl_runtime s) = session \<Longrightarrow> after (tunnel_left cf token (Err e)) (leaves session) s"
  using leave_server_spec [of s session token cf] leave_failed_spec [of s session cf e]
  by (auto simp: tunnel_left_def simp del: after_bind)

lemma disconnect_held_spec:
  assumes "taken tunnel s" "rt_session (cl_runtime s) = session" "token = map_option man_session_token session"
  shows "after (disconnect_held cf tunnel token) (leaves session) s"
proof (cases "tunnel = None \<and> token = None")
  case True
  have "after (update_snapshot cf left_snapshot) (\<lambda>_ s'. leaves session (Ok (cl_snapshot s')) s') s"
    by (rule after_update_snapshot)
      (use True assms in \<open>auto simp: taken_def leaves_def left_def left_snapshot_def released_def becomes_def client_ok_def core_def
        core_of_def held_of_def idle_def idle_of_def accounted_def\<close>)
  then show ?thesis using True by (simp add: disconnect_held_def answer_snapshot_after)
next
  case False
  have "after (update_snapshot cf (\<lambda>sn. sn\<lparr>sn_phase := Disconnecting, sn_issue := None\<rparr>))
      (\<lambda>_. after (stop_taken cf tunnel) (\<lambda>r. after (tunnel_left cf token r) (leaves session))) s"
  proof (rule after_update_snapshot)
    fix now and s1 :: "'a Client"
    assume b: "becomes s1 (cl_runtime s) ((cl_snapshot s)\<lparr>sn_phase := Disconnecting, sn_issue := None\<rparr>\<lparr>sn_updated_at := now\<rparr>) (log_of s)"
    have "taken tunnel s1" by (rule taken_snapshot [OF assms(1) b]) simp
    moreover have "rt_session (cl_runtime s1) = session" using b assms(2) by (simp add: becomes_def)
    ultimately show "after (stop_taken cf tunnel) (\<lambda>r. after (tunnel_left cf token r) (leaves session)) s1"
      using assms(3) by (auto intro!: after_stop_held tunnel_left_spec)
  qed
  then show ?thesis using False by (auto simp: disconnect_held_def)
qed

lemma disconnect_spec:
  assumes "client_ok s"
  shows "after (disconnect cf) (leaves (rt_session (cl_runtime s))) s"
proof -
  have "after cancel_connection_attempt (\<lambda>_. after (set_runtime (\<lambda>rt. rt\<lparr>rt_connection_requested := False, rt_preferred_protocol := None\<rparr>))
      (\<lambda>_ s'. core s' \<and> \<not> rt_connection_requested (cl_runtime s') \<and> rt_session (cl_runtime s') = rt_session (cl_runtime s)
        \<and> rt_tunnel (cl_runtime s') = rt_tunnel (cl_runtime s))) s"
    by (rule after_cancel_request [OF assms]) (auto simp: core_of_def held_of_def)
  then show ?thesis
    unfolding disconnect_def after_bind after_runtime
    by (elim after_mono) (auto intro!: after_mono [OF after_taken] disconnect_held_spec)
qed

lemma keeps_disconnect: "keeps (disconnect cf)"
  unfolding keeps_def by (intro allI impI, rule after_mono [OF disconnect_spec]) (simp_all add: leaves_def)

text \<open>What \<open>stop_tunnel\<close> leaves.\<close>

definition halted :: "SessionManifest option \<Rightarrow> ClientError + ClientSnapshot \<Rightarrow> 'w Client \<Rightarrow> bool" where
  "halted session r s \<longleftrightarrow> client_ok s \<and> (case r of Err e \<Rightarrow> True
     | Ok sn \<Rightarrow> rt_tunnel (cl_runtime s) = None \<and> rt_session (cl_runtime s) = session \<and> running (log_of s) = [])"

lemma show_stopped_spec:
  assumes "can_leave s"
  shows "after (show_stopped cf (rt_session (cl_runtime s) \<noteq> None)) (halted (rt_session (cl_runtime s))) s"
  unfolding show_stopped_def after_bind answer_snapshot_after
  by (rule after_update_snapshot)
    (use assms in \<open>auto simp: can_leave_def halted_def becomes_def client_ok_def core_def core_of_def held_of_def idle_def idle_of_def accounted_def\<close>)

lemma tunnel_halted_spec:
  "can_leave s \<Longrightarrow> after (tunnel_halted cf (rt_session (cl_runtime s) \<noteq> None) (Ok ())) (halted (rt_session (cl_runtime s))) s"
  "core s \<Longrightarrow> after (tunnel_halted cf b (Err e)) (halted session) s"
  using show_stopped_spec [of s cf] by (auto simp del: after_bind simp: tunnel_halted_def halted_def intro!: show_error_spec)

lemma stop_held_spec:
  assumes "taken tunnel s"
  shows "after (stop_held cf tunnel (rt_session (cl_runtime s) \<noteq> None)) (halted (rt_session (cl_runtime s))) s"
proof (cases tunnel)
  case None
  then have "can_leave s" using assms by (simp add: taken_def can_leave_def core_def)
  then show ?thesis unfolding stop_held_def None option.case by (rule show_stopped_spec)
next
  case (Some t)
  have taken: "stop_and_retain_on_failure cf t = stop_taken cf tunnel" by (simp add: stop_taken_def Some)
  show ?thesis
    unfolding stop_held_def Some option.case after_bind taken [unfolded Some]
  proof (rule after_update_snapshot, rule after_stop_held)
    fix now and s1 :: "'a Client"
    assume "becomes s1 (cl_runtime s) ((cl_snapshot s)\<lparr>sn_phase := Disconnecting, sn_issue := None\<rparr>\<lparr>sn_updated_at := now\<rparr>) (log_of s)"
    note b = this
    then show "taken (Some t) s1" by (rule taken_snapshot [OF assms, unfolded Some]) simp
    have same: "cl_runtime s1 = cl_runtime s" using b by (simp add: becomes_def)
    show "after (tunnel_halted cf (rt_session (cl_runtime s) \<noteq> None) (Ok ())) (halted (rt_session (cl_runtime s))) s2"
      if "can_leave s2" "cl_runtime s2 = cl_runtime s1" for s2 :: "'a Client"
      using tunnel_halted_spec(1) [OF that(1)] that(2) same by simp
  qed (rule tunnel_halted_spec(2))
qed

lemma stop_tunnel_spec:
  assumes "client_ok s"
  shows "after (stop_tunnel cf) (halted (rt_session (cl_runtime s))) s"
proof -
  have "after cancel_connection_attempt (\<lambda>_. after (set_runtime (\<lambda>rt. rt\<lparr>rt_connection_requested := False, rt_control_failures := 0\<rparr>))
      (\<lambda>_ s'. core s' \<and> \<not> rt_connection_requested (cl_runtime s') \<and> rt_session (cl_runtime s') = rt_session (cl_runtime s)
        \<and> rt_tunnel (cl_runtime s') = rt_tunnel (cl_runtime s))) s"
    by (rule after_cancel_request [OF assms]) (auto simp: core_of_def held_of_def)
  then show ?thesis
    unfolding stop_tunnel_def after_bind after_runtime
  proof (elim after_mono)
    fix s1 :: "'a Client"
    assume s1: "core s1 \<and> \<not> rt_connection_requested (cl_runtime s1) \<and> rt_session (cl_runtime s1) = rt_session (cl_runtime s)
      \<and> rt_tunnel (cl_runtime s1) = rt_tunnel (cl_runtime s)"
    show "after take_tunnel (\<lambda>tunnel s'. after (stop_held cf tunnel (rt_session (cl_runtime s') \<noteq> None))
        (halted (rt_session (cl_runtime s))) s') s1"
    proof (rule after_mono [OF after_taken])
      fix tunnel and s2 :: "'a Client"
      assume s2: "tunnel = rt_tunnel (cl_runtime s1) \<and> taken tunnel s2 \<and> rt_session (cl_runtime s2) = rt_session (cl_runtime s1)"
      then have "taken tunnel s2" by blast
      from stop_held_spec [OF this, of cf]
      show "after (stop_held cf tunnel (rt_session (cl_runtime s2) \<noteq> None)) (halted (rt_session (cl_runtime s))) s2"
        using s1 s2 by (simp del: not_None_eq)
    qed (use s1 in auto)
  qed
qed

lemma keeps_stop_tunnel: "keeps (stop_tunnel cf)"
  unfolding keeps_def by (intro allI impI, rule after_mono [OF stop_tunnel_spec]) (simp_all add: halted_def)

subsection \<open>Another network\<close>

lemma keeps_network_moved: "keeps (network_moved cf)"
  unfolding network_moved_def
  by (intro keeps_simple)
    (auto simp: Let_def split: option.splits intro!: keeps_return keeps_bind [OF keeps_quiet [OF quiet_set_runtime]])

lemma take_and_reconnect:
  assumes "client_ok s"
  shows "after (take_tunnel \<bind> (\<lambda>current. try_next (stop_taken cf current) (\<lambda>_. reconnect_locked cf))) (\<lambda>_. client_ok) s"
  unfolding after_bind after_try_next
proof (rule after_take_and_stop [OF client_ok_core [OF assms]])
  fix s1 :: "'a Client"
  assume "becomes s1 ((cl_runtime s)\<lparr>rt_tunnel := None\<rparr>) (cl_snapshot s) (log_of s1)" "accounted (log_of s1) []"
  then have "may_reconnect s1" using assms
    by (auto simp: may_reconnect_def ready_def becomes_def client_ok_def core_def core_of_def held_of_def idle_def idle_of_def
        split: ClientPhase.splits)
  then show "case Ok () of Err e \<Rightarrow> client_ok s1 | Ok _ \<Rightarrow> after (reconnect_locked cf) (\<lambda>_. client_ok) s1" by (simp add: reconnect_spec)
next
  fix e t and s1 :: "'a Client"
  assume "rt_tunnel (cl_runtime s) = Some t" "becomes s1 (cl_runtime s) (cl_snapshot s) (log_of s1)" "accounted (log_of s1) [t]"
  then show "case Err e of Err e \<Rightarrow> client_ok s1 | Ok _ \<Rightarrow> after (reconnect_locked cf) (\<lambda>_. client_ok) s1"
    using assms by (auto simp: becomes_def client_ok_def core_def core_of_def held_of_def idle_def)
qed

lemma keeps_take_and_reconnect:
  "keeps (take_tunnel \<bind> (\<lambda>current. try_next (stop_taken cf current) (\<lambda>_. reconnect_locked cf)))"
  by (simp add: keeps_def take_and_reconnect del: after_bind)

lemma keeps_verify_network: "keeps (verify_after_network_change cf)"
  unfolding verify_after_network_change_def
  by (intro keeps_simple)
    (auto split: option.splits intro!: keeps_bind [OF keeps_quiet [OF quiet_ask]] keeps_bind [OF keeps_check_noted]
      keeps_take_and_reconnect keeps_quiet [OF quiet_answer])

subsection \<open>Any operations, in any order\<close>

lemma keeps_settings:
  "keeps (set_connect_options options)" "keeps (set_transport_memory memory)" "keeps (set_automatic_exclusions excluded)"
  unfolding set_connect_options_def set_transport_memory_def set_automatic_exclusions_def
  by (rule keeps_quiet, rule quiet_set_runtime; simp)+

lemma keeps_ignored: "keeps m \<Longrightarrow> keeps (ignored m)"
  unfolding ignored_def by (intro keeps_bind keeps_return)

lemmas keeps_operations = keeps_enroll keeps_connect keeps_refresh keeps_maintain_once keeps_verify_network keeps_network_moved
  keeps_disconnect keeps_stop_tunnel keeps_settings

lemma keeps_client_do: "keeps (client_do cf op)"
proof (cases op)
  case MaintenanceTick
  show ?thesis unfolding MaintenanceTick client_do.simps
    by (intro keeps_bind keeps_quiet [OF quiet_runtime]) (simp add: keeps_ignored keeps_maintain_once keeps_return)
next
  case NetworkTick
  show ?thesis unfolding NetworkTick client_do.simps
    by (intro keeps_bind keeps_network_moved) (simp add: keeps_ignored keeps_verify_network keeps_return)
qed (simp_all add: keeps_ignored keeps_operations)

lemma client_step_ok: "client_ok s \<Longrightarrow> client_ok (client_step cf op s)"
  using keeps_after [OF keeps_client_do, of s cf op] by (simp add: client_step_def after_def split: prod.splits)

lemma client_new_ok: "calls w = [] \<Longrightarrow> client_ok (client_new now w)"
  by (simp add: client_new_def client_ok_def core_def core_of_def held_of_def idle_def idle_of_def new_runtime_def default_snapshot_def)

lemma client_accounted: "client_ok s \<Longrightarrow> accounted (log_of s) (held_of (cl_runtime s))"
  by (simp add: client_ok_def accounted_held)

lemma held_of_one: "length (held_of rt) \<le> 1"
  by (simp add: held_of_def split: option.splits)

interpretation client: tunnel_holder "client_new now \<lparr>env = e, calls = []\<rparr>" "client_step cf" client_ok
    "\<lambda>s. held_of (cl_runtime s)" log_of for now e cf
  by unfold_locales (simp_all add: client_new_ok client_step_ok client_accounted held_of_one [simplified])

subsection \<open>What the client promises\<close>

text \<open>A client after any operations since it was made.\<close>

definition client_run :: "'w KetClient \<Rightarrow> nat \<Rightarrow> 'w \<Rightarrow> client_op list \<Rightarrow> 'w Client" where
  "client_run cf now e ops = fold (client_step cf) ops (client_new now \<lparr>env = e, calls = []\<rparr>)"

lemma client_run_ok: "client_ok (client_run cf now e ops)"
  unfolding client_run_def by (rule client.run_ok) (simp add: client_new_ok)

text \<open>What is shown agrees with what is held.\<close>

definition shown_truthfully :: "'w Client \<Rightarrow> bool" where
  "shown_truthfully s \<longleftrightarrow> (let rt = cl_runtime s; sn = cl_snapshot s in
     (case sn_phase sn of
        Disconnected \<Rightarrow> rt_session rt = None \<and> rt_tunnel rt = None
      | Enrolled \<Rightarrow> rt_session rt \<noteq> None \<and> rt_tunnel rt = None
      | Connected \<Rightarrow> rt_session rt \<noteq> None \<and> rt_tunnel rt \<noteq> None \<and> sn_active_transport sn \<noteq> None
      | PhaseError \<Rightarrow> True
      | _ \<Rightarrow> False)
     \<and> (rt_tunnel rt \<noteq> None \<longrightarrow> rt_session rt \<noteq> None)
     \<and> (rt_connection_requested rt \<longrightarrow> rt_session rt \<noteq> None)
     \<and> (rt_renew_at rt = None \<longleftrightarrow> rt_session rt = None)
     \<and> sn_session_expires_at sn = map_option man_session_expires_at (rt_session rt)
     \<and> sn_access_expires_at sn = Option.bind (rt_session rt) man_access_expires_at
     \<and> length (sn_fallbacks sn) \<le> MAX_FALLBACKS)"

lemma client_ok_shown: "client_ok s \<Longrightarrow> shown_truthfully s"
  by (auto simp: client_ok_def core_def core_of_def idle_def idle_of_def shown_truthfully_def Let_def MAX_FALLBACKS_def
      split: ClientPhase.splits)

text \<open>
  C21: Whatever operations are asked of a client, in whatever order, and however the server, the engines, the route check, the
  clock and cancellation behave: a tunnel is started only when none runs and only the running one is stopped; the tunnel
  that runs is exactly the one the client holds, so none is lost, also when stopping fails; and between operations what
  the client shows is true: Disconnected without a session, Enrolled with a session and no tunnel, Connected with both, never
  a phase of an operation under way; the expiry it shows is the session's; a renewal is planned exactly while there is a
  session; and at most eight fallbacks are remembered.
\<close>

theorem client_holds_what_runs:
  "one_at_a_time (log_of (client_run cf now e ops))
     \<and> running (log_of (client_run cf now e ops)) = (case rt_tunnel (cl_runtime (client_run cf now e ops)) of None \<Rightarrow> [] | Some t \<Rightarrow> [t])
     \<and> length (running (log_of (client_run cf now e ops))) \<le> 1
     \<and> shown_truthfully (client_run cf now e ops)"
  using client.never_lost [where now = now and e = e and cf = cf and ops = ops]
    client.at_most_one [where now = now and e = e and cf = cf and ops = ops] client_ok_shown [OF client_run_ok]
  by (simp add: client_run_def accounted_def held_of_def)

text \<open>
  C22: Disconnecting, from any state the client can be in. When it answers Ok, the phase is Disconnected, no tunnel runs, no session and
  no request to connect is left, and the last call was the release of the session there was, which the server accepted or
  answered as unauthorized. When it answers with an error, that error is shown and the session is kept, so that
  disconnecting can be tried again.
\<close>

theorem disconnect_leaves_nothing:
  "after (disconnect cf) (\<lambda>r s'. case r of
       Err e \<Rightarrow> rt_session (cl_runtime s') = rt_session (cl_runtime (client_run cf now e0 ops))
         \<and> sn_phase (cl_snapshot s') = PhaseError \<and> sn_issue (cl_snapshot s') = Some (issue e)
     | Ok sn \<Rightarrow> sn = cl_snapshot s' \<and> sn_phase sn = Disconnected \<and> running (log_of s') = []
         \<and> rt_tunnel (cl_runtime s') = None \<and> rt_session (cl_runtime s') = None \<and> rt_connection_requested (cl_runtime s') = False
         \<and> released (map_option man_session_token (rt_session (cl_runtime (client_run cf now e0 ops)))) (log_of s'))
     (client_run cf now e0 ops)"
  by (rule after_mono [OF disconnect_spec [OF client_run_ok]]) (auto simp: leaves_def left_def split: sum.splits)

end
