(* ===== verification/Client_Log.thy ===== *)
theory Client_Log
  imports Client_Behaviour "HOL-Library.Sublist"
begin

text \<open>
  What a client's operations add to its log of calls. \<open>adds P m\<close> says that \<open>m\<close> only adds
  calls that satisfy \<open>P\<close>; its rules follow the program, so that the facts about the operations
  are read off their definitions. With it: the client gives up a running tunnel only for a
  cause, and it tries transports in the order of their rank.
\<close>

subsection \<open>Programs and the calls they add\<close>

named_theorems adds_rules \<open>which calls a program adds\<close>

definition adds :: "(call \<Rightarrow> bool) \<Rightarrow> ('w Client, 'a) state \<Rightarrow> bool" where
  "adds P m \<longleftrightarrow> (\<forall>s. after m (\<lambda>_ s'. \<exists>new. log_of s' = new @ log_of s \<and> list_all P new) s)"

text \<open>Predicates that allow starting and stopping tunnels.\<close>

definition engine_calls :: "(call \<Rightarrow> bool) \<Rightarrow> bool" where
  "engine_calls P \<longleftrightarrow> (\<forall>t e. P (Started t) \<and> P (Stopped t) \<and> P (StopFailed t e))"

lemma addsD: "adds P m \<Longrightarrow> after m (\<lambda>_ s'. \<exists>new. log_of s' = new @ log_of s \<and> list_all P new) s"
  by (simp add: adds_def)

lemma adds_bind [adds_rules]: "adds P m \<Longrightarrow> (\<And>r. adds P (f r)) \<Longrightarrow> adds P (m \<bind> f)"
  unfolding adds_def after_bind
  by (intro allI, rule after_mono, erule spec) (fastforce elim: after_mono)

lemma adds_try_next [adds_rules]: "adds P m \<Longrightarrow> (\<And>r. adds P (f r)) \<Longrightarrow> adds P (try_next m f)"
  unfolding try_next_def
  by (rule adds_bind) (auto simp: adds_def split: sum.splits)

lemma adds_option [adds_rules]: "adds P m \<Longrightarrow> (\<And>x. adds P (f x)) \<Longrightarrow> adds P (case y of None \<Rightarrow> m | Some x \<Rightarrow> f x)"
  by (simp split: option.splits)

lemma adds_sum [adds_rules]: "(\<And>x. adds P (f x)) \<Longrightarrow> (\<And>x. adds P (g x)) \<Longrightarrow> adds P (case y of Err x \<Rightarrow> f x | Ok x \<Rightarrow> g x)"
  by (simp split: sum.splits)

lemma adds_attempt [adds_rules]:
  "(\<And>x. adds P (f x)) \<Longrightarrow> (\<And>x. adds P (g x)) \<Longrightarrow> adds P (case y of Finished x \<Rightarrow> f x | NextAfter x \<Rightarrow> g x)"
  by (simp split: attempt.splits)

lemma adds_if [adds_rules]: "adds P m \<Longrightarrow> adds P n \<Longrightarrow> adds P (if b then m else n)"
  by simp

lemma adds_steps [adds_rules]:
  "adds P (done_with x)" "adds P (runtime f)" "adds P (reads g)" "adds P (set_runtime h)" "adds P (on_world (ask a))"
  "adds P (client_time cf)" "adds P answer_snapshot" "adds P cancel_connection_attempt"
  by (simp_all add: adds_def set_runtime_def client_time_def cancel_connection_attempt_def)

lemma adds_update_snapshot [adds_rules]: "adds P (update_snapshot cf f)"
  unfolding update_snapshot_def by (intro adds_bind adds_steps) (simp add: adds_def)

lemma adds_noted [adds_rules]: "P c \<Longrightarrow> adds P (on_world (noted c))"
  by (simp add: adds_def)

lemma adds_engine_connect [adds_rules]: "engine_calls P \<Longrightarrow> adds P (on_world (engine_connect a t p opts))"
  unfolding adds_def by (intro allI after_engine_connect) (auto simp: becomes_def engine_calls_def)

lemma adds_stop [adds_rules]: "engine_calls P \<Longrightarrow> adds P (stop_and_retain_on_failure cf t)"
  by (auto simp: adds_def engine_calls_def stop_and_retain_on_failure_def engine_stop_def set_runtime_def split: sum.splits)

lemma adds_fail [adds_rules]: "adds P (client_fail cf e)"
  unfolding client_fail_def by (rule adds_update_snapshot)

subsection \<open>What connecting adds\<close>

lemma adds_small [adds_rules]:
  "adds P (save_memory cf)" "adds P (load_memory cf)" "adds P (cache_probe t p)" "adds P (cached_probe t e)" "adds P (note_fallback cf fb)"
  "adds P (finish_cancelled_connection cf)" "adds P forget_session" "adds P take_tunnel" "adds P (candidates_now cf m)" "adds P (clear_fallbacks cf b)"
  "adds P (renew_due cf)" "adds P (surface cf b e)" "adds P (apply_status cf st b)"
  unfolding save_memory_def load_memory_def cache_probe_def cached_probe_def note_fallback_def finish_cancelled_connection_def
    forget_session_def take_tunnel_def candidates_now_def clear_fallbacks_def renew_due_def surface_def apply_status_def
  by (intro adds_rules)+

lemma adds_failures [adds_rules]:
  "adds P (cool_down cf i)" "adds P (client_record_failure cf t e stage)" "adds P (record_lost_tunnel cf i c m)"
proof -
  show cool: "adds P (cool_down cf i)" for i unfolding cool_down_def by (intro adds_rules)
  show "adds P (client_record_failure cf t e stage)" "adds P (record_lost_tunnel cf i c m)"
    unfolding client_record_failure_def record_lost_tunnel_def by (intro adds_rules cool)+
qed

lemma adds_stop_taken [adds_rules]: "engine_calls P \<Longrightarrow> adds P (stop_taken cf t)"
  unfolding stop_taken_def by (intro adds_rules)

lemma adds_tunnel_up [adds_rules]: "adds P (tunnel_up cf t p x)"
  unfolding tunnel_up_def Let_def by (intro adds_rules)

lemma adds_ended [adds_rules]:
  "adds P (cancelled_attempt cf)" "adds P (failed_attempt cf t stage e)" "engine_calls P \<Longrightarrow> adds P (stop_cancelled cf x)"
proof -
  show cancelled: "adds P (cancelled_attempt cf)" "adds P (failed_attempt cf t stage e)"
    unfolding cancelled_attempt_def failed_attempt_def by (intro adds_rules)+
  show "adds P (stop_cancelled cf x)" if "engine_calls P"
    unfolding stop_cancelled_def using that by (intro adds_rules cancelled)
qed

lemma adds_connect_attempt [adds_rules]: "engine_calls P \<Longrightarrow> adds P (connect_attempt cf b opts a t p)"
  unfolding connect_attempt_def tunnel_started_def by (intro adds_rules)

lemma adds_probe_answered [adds_rules]: "engine_calls P \<Longrightarrow> adds P (probe_answered cf b opts a t r)"
  unfolding probe_answered_def by (intro adds_rules)

text \<open>Predicates that allow every call.\<close>

definition all_calls :: "(call \<Rightarrow> bool) \<Rightarrow> bool" where
  "all_calls P \<longleftrightarrow> (\<forall>c. P c)"

lemma all_calls_engine [adds_rules]: "all_calls P \<Longrightarrow> engine_calls P"
  by (simp add: all_calls_def engine_calls_def)

lemma adds_ask_session [adds_rules]: "all_calls P \<Longrightarrow> adds P (ask_session cf renew token)"
  by (simp add: adds_def ask_session_def all_calls_def)

lemma adds_probe_attempt [adds_rules]: "all_calls P \<Longrightarrow> adds P (probe_attempt cf b opts i a t)"
  unfolding probe_attempt_def by (intro adds_rules) (simp_all add: all_calls_def)

lemma adds_try_transports [adds_rules]: "all_calls P \<Longrightarrow> adds P (try_transports cf b opts i ts e)"
  by (induction ts arbitrary: i e) (simp_all add: Let_def adds_bind adds_option adds_attempt adds_fail adds_steps adds_probe_attempt)

lemma adds_connect_locked [adds_rules]: "all_calls P \<Longrightarrow> adds P (connect_locked cf b)"
  unfolding connect_locked_def connect_ready_def connect_session_def connect_candidates_def Let_def by (intro adds_rules)

lemma adds_refresh [adds_rules]: "all_calls P \<Longrightarrow> adds P (refresh_locked cf renew surf)"
  unfolding refresh_locked_def session_answered_def session_over_def session_closed_def by (intro adds_rules)

lemma adds_reconnect [adds_rules]: "all_calls P \<Longrightarrow> adds P (reconnect_locked cf)"
  unfolding reconnect_locked_def reconnect_failed_def reconnect_refreshed_def by (intro adds_rules)

lemma adds_route_lost [adds_rules]: "all_calls P \<Longrightarrow> adds P (route_lost cf t)"
  unfolding route_lost_def by (intro adds_rules)

subsection \<open>A tunnel is given up only for a cause\<close>

lemma log_grows:
  assumes "\<And>P. all_calls P \<Longrightarrow> adds P m"
  shows "after m (\<lambda>_ s'. \<exists>new. log_of s' = new @ log_of s) s"
  using addsD [OF assms [of "\<lambda>_. True"], of s] by (auto simp: all_calls_def elim: after_mono)

text \<open>Why a client may let go of its tunnel, given what happened since the state \<open>s\<close>.\<close>

definition cause :: "'w KetClient \<Rightarrow> 'w Client \<Rightarrow> ActiveTunnel \<Rightarrow> call list \<Rightarrow> bool" where
  "cause cf s t new \<longleftrightarrow>
     (\<exists>e. Answered (Some e) \<in> set new \<and> ends_session e)
   \<or> RouteChecked False \<in> set new \<and> rt_connection_requested (cl_runtime s) \<and> 1 \<le> rt_control_failures (cl_runtime s)
       \<and> (\<exists>w. \<not> offline (tunnel_network (kc_tunnels cf) t w))"

definition kept_or_caused :: "'w KetClient \<Rightarrow> 'w Client \<Rightarrow> ActiveTunnel \<Rightarrow> 'w Client \<Rightarrow> bool" where
  "kept_or_caused cf s t s' \<longleftrightarrow> rt_tunnel (cl_runtime s') = Some t \<or> (\<exists>new. log_of s' = new @ log_of s \<and> cause cf s t new)"

text \<open>What a refresh leaves of the tunnel: all of it, unless the server ended the session.\<close>

definition after_refresh :: "'w Client \<Rightarrow> ClientError + 'a \<Rightarrow> 'w Client \<Rightarrow> bool" where
  "after_refresh s r s' \<longleftrightarrow>
     (\<exists>new e. log_of s' = new @ log_of s \<and> Answered (Some e) \<in> set new \<and> ends_session e)
   \<or> rt_tunnel (cl_runtime s') = rt_tunnel (cl_runtime s) \<and> rt_connection_requested (cl_runtime s') = rt_connection_requested (cl_runtime s)
       \<and> (\<exists>new. log_of s' = new @ log_of s)
       \<and> (case r of Err e \<Rightarrow> rt_control_failures (cl_runtime s') = rt_control_failures (cl_runtime s) | Ok _ \<Rightarrow> True)"

lemma session_over_logs: "after (session_over cf e) (\<lambda>_ s'. \<exists>new. log_of s' = new @ log_of s) s"
  by (rule log_grows) (unfold session_over_def session_closed_def, intro adds_rules)

lemma session_answered_refresh:
  fixes s :: "'w Client"
  assumes "log_of s = Answered (case status of Err e \<Rightarrow> Some e | Ok _ \<Rightarrow> None) # log_of s0" "cl_runtime s = cl_runtime s0"
  shows "after (session_answered cf renew surf token status) (after_refresh s0) s"
proof (cases status)
  case (Inl e)
  have "after (session_over cf e) (after_refresh s0) s" if "ends_session e"
  proof (rule after_mono [OF session_over_logs])
    fix r and s' :: "'w Client" assume "\<exists>new. log_of s' = new @ log_of s"
    then obtain new where "log_of s' = (new @ [Answered (Some e)]) @ log_of s0" using assms(1) Inl by auto
    moreover have "Answered (Some e) \<in> set (new @ [Answered (Some e)])" by simp
    ultimately show "after_refresh s0 r s'" unfolding after_refresh_def using that by blast
  qed
  moreover have "after (surface cf surf e) (after_refresh s0) s"
    using assms by (auto simp: surface_def after_refresh_def becomes_def intro!: after_update_snapshot)
  ultimately show ?thesis by (simp add: session_answered_def Inl)
next
  case (Inr st)
  have "after (case validate_status (kc_url_parse cf) st token (kc_client_name cf) now of
          Err e \<Rightarrow> surface cf surf e | Ok _ \<Rightarrow> do { apply_status cf st renew; answer_snapshot }) (after_refresh s0) s'"
    if "becomes s' (cl_runtime s) (cl_snapshot s) (log_of s)" for s' now
    using assms that
    by (auto simp: surface_def apply_status_def after_refresh_def becomes_def split: sum.splits
        intro!: after_update_snapshot after_set_runtime after_client_time)
  then show ?thesis by (auto simp: session_answered_def Inr intro: after_client_time)
qed

lemma refresh_keeps: "after (refresh_locked cf renew surf) (after_refresh s) s"
proof (cases "rt_session (cl_runtime s)")
  case None
  then show ?thesis by (simp add: refresh_locked_def after_refresh_def)
next
  case (Some session)
  have "after (ask_session cf renew token) (\<lambda>r. after (session_answered cf renew surf token r) (after_refresh s)) s" for token
    by (rule ask_session_spec, rule session_answered_refresh) (simp_all add: becomes_def)
  then show ?thesis by (simp add: refresh_locked_def Some)
qed

lemma route_lost_logs: "after (route_lost cf t) (\<lambda>_ s'. \<exists>new. log_of s' = new @ log_of s) s"
  by (rule log_grows) (rule adds_route_lost)

lemma check_route_keeps:
  assumes "rt_tunnel (cl_runtime s) = Some t"
  shows "after (check_route cf t) (\<lambda>_ s'. rt_tunnel (cl_runtime s') = Some t
     \<or> (\<exists>new. log_of s' = new @ log_of s \<and> RouteChecked False \<in> set new)) s"
  unfolding check_route_def after_bind [of "on_world _"]
proof (intro after_ask_world after_noted_world)
  fix healthy and s1 s2 :: "'a Client"
  assume b: "becomes s1 (cl_runtime s) (cl_snapshot s) (log_of s)" "becomes s2 (cl_runtime s1) (cl_snapshot s1) (RouteChecked healthy # log_of s1)"
  let ?Q = "\<lambda>s'. rt_tunnel (cl_runtime s') = Some t \<or> (\<exists>new. log_of s' = new @ log_of s \<and> RouteChecked False \<in> set new)"
  show "after (if healthy then update_snapshot cf (\<lambda>sn. sn\<lparr>sn_issue := None\<rparr>) \<bind> (\<lambda>_. answer_snapshot) else route_lost cf t) (\<lambda>_. ?Q) s2"
  proof (cases healthy)
    case True
    have "after (update_snapshot cf (\<lambda>sn. sn\<lparr>sn_issue := None\<rparr>)) (\<lambda>_. ?Q) s2"
      by (rule after_update_snapshot) (use assms b in \<open>simp add: becomes_def\<close>)
    then show ?thesis using True by (simp add: answer_snapshot_after)
  next
    case False
    have "after (route_lost cf t) (\<lambda>_. ?Q) s2"
    proof (rule after_mono [OF route_lost_logs])
      fix r and s' :: "'a Client" assume "\<exists>new. log_of s' = new @ log_of s2"
      then obtain new where "log_of s' = (new @ [RouteChecked False]) @ log_of s" using b False by (auto simp: becomes_def)
      then show "?Q s'" by (intro disjI2 exI [of _ "new @ [RouteChecked False]"]) simp
    qed
    then show ?thesis using False by simp
  qed
qed

lemma unreachable_keeps:
  assumes "rt_tunnel (cl_runtime s) = Some t"
  shows "after (server_unreachable cf e) (\<lambda>_. kept_or_caused cf s t) s"
  unfolding server_unreachable_def after_bind [of "set_runtime _"]
proof (rule after_set_runtime)
  fix s1 :: "'a Client"
  assume b: "becomes s1 ((cl_runtime s)\<lparr>rt_control_failures := min (rt_control_failures (cl_runtime s) + 1) 255\<rparr>) (cl_snapshot s) (log_of s)"
  have shown: "after (update_snapshot cf (\<lambda>sn. sn\<lparr>sn_issue := i\<rparr>) \<bind> (\<lambda>_. answer_snapshot)) (\<lambda>_. kept_or_caused cf s t) s1" for i
    unfolding after_bind answer_snapshot_after
    by (rule after_update_snapshot) (use assms b in \<open>simp add: becomes_def kept_or_caused_def\<close>)
  have t1: "rt_tunnel (cl_runtime s1) = Some t" using assms b by (simp add: becomes_def)
  have "after (check_route cf t) (\<lambda>_. kept_or_caused cf s t) s1"
    if "\<not> offline (tunnel_network (kc_tunnels cf) t w)" "rt_connection_requested (cl_runtime s)" "rt_control_failures (cl_runtime s1) \<ge> 2" for w
    by (rule after_mono [OF check_route_keeps [OF t1]])
      (use that b in \<open>auto simp: kept_or_caused_def cause_def becomes_def\<close>)
  moreover have "kept_or_caused cf s t s1" using t1 by (simp add: kept_or_caused_def)
  moreover have "rt_connection_requested (cl_runtime s1) = rt_connection_requested (cl_runtime s)" using b by (simp add: becomes_def)
  ultimately
  show "after (do {
     tunnel \<leftarrow> runtime rt_tunnel;
     requested \<leftarrow> runtime rt_connection_requested;
     failures \<leftarrow> runtime rt_control_failures;
     w \<leftarrow> reads (\<lambda>s. env (cl_world s));
     (case (if requested then tunnel else None) of
        None \<Rightarrow> done_with (Err e)
      | Some t \<Rightarrow>
        if offline (tunnel_network (kc_tunnels cf) t w)
        then do { update_snapshot cf (\<lambda>sn. sn\<lparr>sn_issue := Some (issue e)\<rparr>); answer_snapshot }
        else if \<not> failures \<ge> 2
        then do { update_snapshot cf (\<lambda>sn. sn\<lparr>sn_issue := None\<rparr>); answer_snapshot }
        else check_route cf t) }) (\<lambda>_. kept_or_caused cf s t) s1"
    unfolding after_bind [of "runtime _"] after_bind [of "reads _"] after_runtime after_reads
    using shown t1 by (simp del: after_bind)
qed

lemma maintain_session_keeps:
  assumes "rt_tunnel (cl_runtime s) = Some t"
  shows "after (maintain_session cf) (\<lambda>_. kept_or_caused cf s t) s"
  unfolding maintain_session_def after_bind
proof -
  have due: "after (renew_due cf) Q s" if "\<And>r s'. becomes s' (cl_runtime s) (cl_snapshot s) (log_of s) \<Longrightarrow> Q r s'" for Q
    unfolding renew_due_def using that by (auto simp: becomes_def split: option.splits intro!: after_client_time)
  have answered: "after (case r of Ok sn \<Rightarrow> done_with (Ok sn)
      | Err e \<Rightarrow> (case e of NetworkError m \<Rightarrow> server_unreachable cf e | _ \<Rightarrow> done_with (Err e))) (\<lambda>_. kept_or_caused cf s t) s2"
    if b: "becomes s1 (cl_runtime s) (cl_snapshot s) (log_of s)" and r: "after_refresh s1 r s2" for r and s1 s2 :: "'a Client"
  proof (cases "\<exists>new e. log_of s2 = new @ log_of s \<and> Answered (Some e) \<in> set new \<and> ends_session e")
    case True
    have caused: "kept_or_caused cf s t s'" if "\<exists>new. log_of s' = new @ log_of s2" for s' :: "'a Client"
    proof -
      from True obtain new e where new: "log_of s2 = new @ log_of s" "Answered (Some e) \<in> set new" "ends_session e" by blast
      from that obtain more where "log_of s' = (more @ new) @ log_of s" using new(1) by auto
      moreover have "cause cf s t (more @ new)" using new by (auto simp: cause_def)
      ultimately show ?thesis unfolding kept_or_caused_def by blast
    qed
    have "after (server_unreachable cf e) (\<lambda>_ s'. \<exists>new. log_of s' = new @ log_of s2) s2" for e
      by (rule log_grows) (unfold server_unreachable_def check_route_def, intro adds_rules, simp_all add: all_calls_def)
    then have "after (server_unreachable cf e) (\<lambda>_. kept_or_caused cf s t) s2" for e
      by (rule after_mono) (rule caused)
    moreover have "kept_or_caused cf s t s2" by (rule caused) simp
    ultimately show ?thesis by (auto split: sum.splits ClientError.splits)
  next
    case False
    then have same: "rt_tunnel (cl_runtime s2) = Some t" "rt_connection_requested (cl_runtime s2) = rt_connection_requested (cl_runtime s)"
      "\<exists>new. log_of s2 = new @ log_of s" "\<And>e. r = Err e \<Longrightarrow> rt_control_failures (cl_runtime s2) = rt_control_failures (cl_runtime s)"
      using r b assms by (auto simp: after_refresh_def becomes_def)
    have "after (server_unreachable cf e) (\<lambda>_. kept_or_caused cf s t) s2" if "r = Err e" for e
      by (rule after_mono [OF unreachable_keeps [OF same(1)]])
        (use same that in \<open>fastforce simp: kept_or_caused_def cause_def\<close>)
    moreover have "kept_or_caused cf s t s2" using same by (simp add: kept_or_caused_def)
    ultimately show ?thesis by (auto split: sum.splits ClientError.splits)
  qed
  show "after (renew_due cf) (\<lambda>renew. after (refresh_locked cf renew False) (\<lambda>r. after (case r of Ok sn \<Rightarrow> done_with (Ok sn)
      | Err e \<Rightarrow> (case e of NetworkError m \<Rightarrow> server_unreachable cf e | _ \<Rightarrow> done_with (Err e))) (\<lambda>_. kept_or_caused cf s t))) s"
    by (rule due, rule after_mono [OF refresh_keeps]) (rule answered)
qed


end
