(* ===== verification/Client_Fallback.thy ===== *)
theory Client_Fallback
  imports Client_Log
begin

text \<open>
  The order in which a client tries transports: by rank, one after the other, until one comes
  up, all have failed, or the attempt is cancelled.
\<close>

text \<open>The transports tried, newest first.\<close>

fun tried :: "call list \<Rightarrow> rstr list" where
  "tried [] = []"
| "tried (Tried i # cs) = i # tried cs"
| "tried (_ # cs) = tried cs"

fun untried :: "call \<Rightarrow> bool" where
  "untried (Tried i) \<longleftrightarrow> False"
| "untried _ \<longleftrightarrow> True"

lemma tried_append [simp]: "tried (xs @ ys) = tried xs @ tried ys"
  by (induction xs rule: tried.induct) simp_all

lemma tried_none: "list_all untried cs \<Longrightarrow> tried cs = []"
  by (induction cs rule: tried.induct) simp_all

lemma untried_engine: "engine_calls untried"
  by (simp add: engine_calls_def)

lemma probe_attempt_tries:
  fixes s :: "'w Client"
  shows "after (probe_attempt cf b opts i a t) (\<lambda>_ s'. \<exists>new. log_of s' = new @ log_of s \<and> tried new = [prof_id (tr_profile t)]) s"
proof -
  have rest: "after m (\<lambda>_ s'. \<exists>new. log_of s' = new @ log_of s \<and> tried new = [prof_id (tr_profile t)]) s2"
    if m: "adds untried m" and l: "log_of s2 = Tried (prof_id (tr_profile t)) # log_of s" for m :: "('w Client, 'x) state" and s2
  proof (rule after_mono [OF addsD [OF m]])
    fix r and s' :: "'w Client" assume "\<exists>new. log_of s' = new @ log_of s2 \<and> list_all untried new"
    then obtain new where "log_of s' = (new @ [Tried (prof_id (tr_profile t))]) @ log_of s" "tried new = []"
      using l tried_none by auto
    then show "\<exists>new. log_of s' = new @ log_of s \<and> tried new = [prof_id (tr_profile t)]"
      by (intro exI [of _ "new @ [Tried (prof_id (tr_profile t))]"]) simp
  qed
  have "adds untried (do {
     cancelled \<leftarrow> on_world (ask (kc_cancelled cf));
     if cancelled then cancelled_attempt cf
     else do {
       probed \<leftarrow> on_world (ask (adapter_probe a t));
       probe_answered cf b opts a t probed } })"
    by (intro adds_rules untried_engine)
  then show ?thesis
    unfolding probe_attempt_def after_bind [of "update_snapshot _ _"] after_bind [of "on_world (noted _)"]
    by (intro after_update_snapshot after_noted_world rest) (simp_all add: becomes_def)
qed

text \<open>How trying the transports \<open>ts\<close> in turn ended, \<open>n\<close> of them having been tried.\<close>

definition tried_in_order :: "SessionTransport list \<Rightarrow> 'w Client \<Rightarrow> 'w Client \<Rightarrow> bool" where
  "tried_in_order ts s s' \<longleftrightarrow> (\<exists>new n. log_of s' = new @ log_of s \<and> n \<le> length ts
     \<and> rev (tried new) = take n (map (prof_id \<circ> tr_profile) ts)
     \<and> (case sn_phase (cl_snapshot s') of
          Connected \<Rightarrow> 0 < n \<and> sn_active_transport (cl_snapshot s') = Some (transport_summary (tr_profile (ts ! (n - 1))))
        | Enrolled \<Rightarrow> True
        | PhaseError \<Rightarrow> rt_tunnel (cl_runtime s') \<noteq> None \<or> n = length ts
        | _ \<Rightarrow> False))"

lemma tried_first:
  assumes "log_of s1 = new1 @ log_of s" "tried new1 = [prof_id (tr_profile t)]"
  shows "settled t s1 \<Longrightarrow> tried_in_order (t # ts) s s1"
    and "tried_in_order ts s1 s' \<Longrightarrow> tried_in_order (t # ts) s s'"
proof -
  show "tried_in_order (t # ts) s s1" if "settled t s1"
    unfolding tried_in_order_def
    by (rule exI [of _ new1], rule exI [of _ 1]) (use assms that in \<open>simp add: settled_def split: ClientPhase.splits\<close>)
  show "tried_in_order (t # ts) s s'" if rest: "tried_in_order ts s1 s'"
  proof -
    obtain new n where n: "log_of s' = new @ log_of s1" "n \<le> length ts" "rev (tried new) = take n (map (prof_id \<circ> tr_profile) ts)"
      "case sn_phase (cl_snapshot s') of
          Connected \<Rightarrow> 0 < n \<and> sn_active_transport (cl_snapshot s') = Some (transport_summary (tr_profile (ts ! (n - 1))))
        | Enrolled \<Rightarrow> True | PhaseError \<Rightarrow> rt_tunnel (cl_runtime s') \<noteq> None \<or> n = length ts | _ \<Rightarrow> False"
      using rest by (auto simp: tried_in_order_def)
    show ?thesis
      unfolding tried_in_order_def
      by (rule exI [of _ "new @ new1"], rule exI [of _ "Suc n"])
        (use assms n in \<open>auto simp: nth_Cons' split: ClientPhase.splits\<close>)
  qed
qed

lemma try_transports_order:
  "ready s \<Longrightarrow> list_all (\<lambda>t. list_ex (\<lambda>a. adapter_supports a t) (kc_adapters cf)) ts \<Longrightarrow>
     after (try_transports cf b opts i ts e) (\<lambda>_. tried_in_order ts s) s"
proof (induction ts arbitrary: i e s)
  case Nil
  have "after (client_fail cf x) (\<lambda>_. tried_in_order [] s) s" for x
    by (rule after_mono [OF client_fail_spec [OF ready_core [OF Nil.prems(1)]]]) (auto simp: tried_in_order_def)
  then show ?case by (simp add: Let_def)
next
  case (Cons t ts)
  obtain a where a: "find (\<lambda>a. adapter_supports a t) (kc_adapters cf) = Some a"
    using Cons.prems(2) by (cases "find (\<lambda>a. adapter_supports a t) (kc_adapters cf)") (auto simp: find_None_iff list_ex_iff)
  have "after (probe_attempt cf b opts i a t) (\<lambda>r. after (case r of Finished x \<Rightarrow> done_with x
      | NextAfter e \<Rightarrow> try_transports cf b opts (Suc i) ts (Some e)) (\<lambda>_. tried_in_order (t # ts) s)) s"
  proof (rule after_mono [OF after_conj [OF probe_attempt_spec [OF Cons.prems(1)] probe_attempt_tries]])
    fix r and s1 :: "'a Client"
    assume s1: "attempted t r s1 \<and> (\<exists>new. log_of s1 = new @ log_of s \<and> tried new = [prof_id (tr_profile t)])"
    then obtain new where new: "log_of s1 = new @ log_of s" "tried new = [prof_id (tr_profile t)]" by blast
    show "after (case r of Finished x \<Rightarrow> done_with x
      | NextAfter e \<Rightarrow> try_transports cf b opts (Suc i) ts (Some e)) (\<lambda>_. tried_in_order (t # ts) s) s1"
    proof (cases r)
      case (Finished x)
      then show ?thesis using s1 tried_first(1) [OF new] by (simp add: attempted_def)
    next
      case (NextAfter e')
      then have "ready s1" using s1 by (simp add: attempted_def)
      then have "after (try_transports cf b opts (Suc i) ts (Some e')) (\<lambda>_. tried_in_order ts s1) s1"
        using Cons.IH Cons.prems(2) by simp
      then show ?thesis using NextAfter tried_first(2) [OF new] by (auto elim: after_mono)
    qed
  qed
  then show ?case by (simp add: a)
qed

definition candidates :: "'w KetClient \<Rightarrow> SessionManifest \<Rightarrow> 'w Client \<Rightarrow> SessionTransport list" where
  "candidates cf session s = rank_for (kc_policy cf) (man_transports session) (map adapter_supports (kc_adapters cf))
     (rt_history (cl_runtime s)) (fst (kc_unix_time cf (env (cl_world s)))) (rt_preferred_protocol (cl_runtime s))
     (rt_automatic_excluded (cl_runtime s))"

lemma after_candidates:
  assumes "\<And>s'. becomes s' (cl_runtime s) (cl_snapshot s) (log_of s) \<Longrightarrow> Q (candidates cf session s) s'"
  shows "after (candidates_now cf session) Q s"
  using assms by (simp add: candidates_now_def client_time_def candidates_def becomes_def)

lemma candidates_supported:
  "list_all (\<lambda>t. list_ex (\<lambda>a. adapter_supports a t) (kc_adapters cf)) (candidates cf session s)"
  unfolding candidates_def list_all_iff
  by (auto dest!: rank_for_eligible simp: eligible_def supported_def list_ex_iff)

lemma connect_candidates_order:
  assumes "ready s" "list_all (\<lambda>t. list_ex (\<lambda>a. adapter_supports a t) (kc_adapters cf)) c"
  shows "after (connect_candidates cf b opts missing c) (\<lambda>_. tried_in_order c s) s"
proof (cases c)
  case Nil
  have "after (client_fail cf x) (\<lambda>_. tried_in_order c s) s" for x
    by (rule after_mono [OF client_fail_spec [OF ready_core [OF assms(1)]]]) (auto simp: tried_in_order_def Nil)
  then show ?thesis by (simp add: connect_candidates_def Nil Let_def)
next
  case (Cons t ts)
  then show ?thesis using try_transports_order [OF assms] by (simp add: connect_candidates_def)
qed

lemma connect_session_order:
  assumes "ready s"
  shows "after (connect_session cf b session) (\<lambda>_. tried_in_order (candidates cf session s) s) s"
proof -
  have clear: "after (clear_fallbacks cf b) (\<lambda>_ s'. ready s' \<and> log_of s' = log_of s1) s1" if "ready s1" for s1 :: "'a Client"
    using that by (auto simp: clear_fallbacks_def ready_def core_def core_of_def becomes_def intro!: after_update_snapshot)
  have "after (connect_candidates cf b opts missing (candidates cf session s)) (\<lambda>_. tried_in_order (candidates cf session s) s) s2"
    if "ready s2 \<and> log_of s2 = log_of s" for opts missing and s2 :: "'a Client"
    using that by (intro after_mono [OF connect_candidates_order [OF _ candidates_supported]]) (auto simp: tried_in_order_def)
  then show ?thesis
    unfolding connect_session_def after_bind after_runtime
    by (intro after_candidates after_mono [OF clear]) (use assms in \<open>auto simp: ready_def core_def becomes_def\<close>)
qed


text \<open>A client enrolled with two transports.\<close>

definition sample_enrolment :: SessionManifest where
  "sample_enrolment = \<lparr>man_session_token = replicate 44 65, man_session_expires_at = 100, man_access_expires_at = None,
     man_node = undefined, man_transports = [sample_transport [97] Hysteria2 10, sample_transport [98] WireGuard 20], man_updates = None\<rparr>"

definition sample_ket :: "unit KetClient" where
  "sample_ket = \<lparr>kc_client_name = [97], kc_create_session = (\<lambda>_ _ w. (Err NotEnrolled, w)), kc_session_status = (\<lambda>_ w. (Err NotEnrolled, w)),
     kc_renew_session = (\<lambda>_ w. (Err NotEnrolled, w)), kc_release_session = (\<lambda>_ w. (Ok (), w)),
     kc_adapters = [\<lparr>adapter_supports = (\<lambda>_. True), adapter_probe = (\<lambda>_ w. (Ok \<lparr>resolved_addresses = [], probe_elapsed_ms = 1\<rparr>, w)),
       adapter_connect = (\<lambda>_ _ _ w. (Err NoCompatibleTransport, w))\<rparr>],
     kc_policy = default_policy, kc_tunnels = \<lparr>tunnel_status = (\<lambda>_ _. TunnelConnected),
       tunnel_network = (\<lambda>_ _. \<lparr>generation = 0, offline = False\<rparr>), tunnel_stop = (\<lambda>_ w. (Ok (), w))\<rparr>,
     kc_is_healthy = (\<lambda>w. (True, w)), kc_memory_load = (\<lambda>_ w. ([], w)), kc_memory_save = (\<lambda>_ _ w. ((), w)),
     kc_unix_time = (\<lambda>w. (5, w)), kc_elapsed_ms = (\<lambda>w. (1, w)), kc_cancelled = (\<lambda>w. (False, w)), kc_url_parse = (\<lambda>_. None)\<rparr>"

definition sample_client :: "unit Client" where
  "sample_client = (client_new 0 \<lparr>env = (), calls = []\<rparr>)\<lparr>cl_runtime := new_runtime\<lparr>rt_session := Some sample_enrolment, rt_renew_at := Some 50\<rparr>,
     cl_snapshot := default_snapshot\<lparr>sn_phase := Enrolled, sn_session_expires_at := Some 100\<rparr>\<rparr>"

lemma sample_client_ok: "client_ok sample_client"
proof -
  have "\<exists>parts. split_session_token (replicate 44 65) = Ok parts"
    by (simp add: token_shape SESSION_TOKEN_LENGTH_def is_alnum_def is_upper_def list_all_length)
  moreover have "transport_ok (sample_transport [c] protocol priority)" if "c = 97 \<or> c = 98" for c protocol priority
    using that by (auto simp: transport_ok_def sample_transport_def clean_name_def clean_text_def clean_host_def is_alnum_def is_lower_def
        is_control_def is_whitespace_def trim_def trim_start_def trim_end_def str_len_def utf8_width_def)
  ultimately have "session_kept sample_enrolment"
    by (simp add: session_kept_def sample_enrolment_def) (simp add: sample_transport_def)
  then show ?thesis
    by (simp add: sample_client_def client_new_def client_ok_def core_def core_of_def held_of_def idle_def idle_of_def new_runtime_def
        default_snapshot_def sample_enrolment_def)
qed

lemma sample_candidates:
  "candidates sample_ket sample_enrolment sample_client = [sample_transport [97] Hysteria2 10, sample_transport [98] WireGuard 20]"
  by (simp add: candidates_def sample_ket_def sample_client_def sample_enrolment_def new_runtime_def rank_for_def default_policy_def
      sample_transport_def rank_key_def)


end
