(* ===== verification/Tunnel_Service.thy ===== *)
theory Tunnel_Service
  imports Engine
begin

text \<open>
  The privileged service that runs the full-route tunnels for the desktop app
  (crates/ket-tunnel-service, with the frames and the token of crates/ket-tunnel-protocol).
  A tunnel is held under a lease that its app renews with heartbeats. JSON, the keyed hash,
  random numbers, the clock and the engines are arguments. Requests that change which tunnels
  run hold one lock, so they are taken one at a time.
\<close>

subsection \<open>Messages\<close>

datatype BrokerRequest = Ping | ProbeRequest SessionTransport
  | ConnectRequest SessionTransport "(IpAddr \<times> nat) list" ConnectOptions
  | StatusRequest rstr | HeartbeatRequest rstr | StopRequest rstr

datatype BrokerTunnelStatus = BrokerConnected | BrokerStopped | BrokerFailed rstr

record BrokerFault =
  fault_code :: rstr
  fault_message :: rstr
  fault_retryable :: bool

datatype BrokerResponse = Pong bool | Probed "(IpAddr \<times> nat) list" nat | ConnectedAs rstr nat
  | TunnelReport BrokerTunnelStatus NetworkReport | StoppedResponse | ErrorResponse BrokerFault

fun broker_status :: "TunnelStatus \<Rightarrow> BrokerTunnelStatus" where
  "broker_status TunnelConnected = BrokerConnected"
| "broker_status TunnelStopped = BrokerStopped"
| "broker_status (TunnelFailed message) = BrokerFailed message"

definition fault :: "string \<Rightarrow> string \<Rightarrow> bool \<Rightarrow> BrokerResponse" where
  "fault code message retryable =
     ErrorResponse \<lparr>fault_code = lit code, fault_message = lit message, fault_retryable = retryable\<rparr>"

definition client_fault :: "ClientError \<Rightarrow> BrokerResponse" where
  "client_fault error = (let i = issue error in
     ErrorResponse \<lparr>fault_code = issue_code i, fault_message = issue_message i, fault_retryable = issue_retryable i\<rparr>)"

definition millis :: "nat \<Rightarrow> nat" where
  "millis duration = min duration u64_max"

subsection \<open>The service\<close>

text \<open>Times are in milliseconds.\<close>

record TunnelLease =
  lease_tunnel :: ActiveTunnel
  lease_expires_at :: nat

record 'w BrokerService =
  bs_adapters :: "'w TransportAdapter list"
  bs_engine_available :: bool
  bs_lease_ttl :: nat
  bs_tunnels :: "'w Tunnels"
  bs_instant :: "'w \<Rightarrow> nat \<times> 'w"
  bs_random_id :: "'w \<Rightarrow> rstr \<times> 'w"

record 'w Broker =
  br_tunnels :: "(rstr \<times> TunnelLease) list"
  br_world :: "'w world"

definition broker_service_new :: "'w BrokerService \<Rightarrow> 'w BrokerService" where
  "broker_service_new bs = bs\<lparr>bs_lease_ttl := max (bs_lease_ttl bs) 6000\<rparr>"

definition broker_new :: "'w \<Rightarrow> 'w Broker" where
  "broker_new e = \<lparr>br_tunnels = [], br_world = \<lparr>env = e, calls = []\<rparr>\<rparr>"

definition in_world :: "('w world, 'a) state \<Rightarrow> ('w Broker, 'a) state" where
  "in_world m = State (\<lambda>s. case run_state m (br_world s) of (r, w) \<Rightarrow> (r, s\<lparr>br_world := w\<rparr>))"

definition leases :: "((rstr \<times> TunnelLease) list \<Rightarrow> 'a) \<Rightarrow> ('w Broker, 'a) state" where
  "leases f = reads (\<lambda>s. f (br_tunnels s))"

definition set_leases :: "((rstr \<times> TunnelLease) list \<Rightarrow> (rstr \<times> TunnelLease) list) \<Rightarrow> ('w Broker, unit) state" where
  "set_leases f = changes (\<lambda>s. s\<lparr>br_tunnels := f (br_tunnels s)\<rparr>)"

definition without :: "rstr \<Rightarrow> (rstr \<times> TunnelLease) list \<Rightarrow> (rstr \<times> TunnelLease) list" where
  "without tunnel_id tunnels = filter (\<lambda>(k, l). k \<noteq> tunnel_id) tunnels"

definition insert_lease :: "rstr \<Rightarrow> TunnelLease \<Rightarrow> ('w Broker, unit) state" where
  "insert_lease tunnel_id lease = set_leases (\<lambda>tunnels. (tunnel_id, lease) # without tunnel_id tunnels)"

definition remove_lease :: "rstr \<Rightarrow> ('w Broker, TunnelLease option) state" where
  "remove_lease tunnel_id = do {
     lease \<leftarrow> leases (\<lambda>tunnels. map_of tunnels tunnel_id);
     set_leases (without tunnel_id);
     done_with lease }"

definition adapter_for :: "'w BrokerService \<Rightarrow> SessionTransport \<Rightarrow> 'w TransportAdapter option" where
  "adapter_for bs transport = find (\<lambda>a. adapter_supports a transport) (bs_adapters bs)"

text \<open>The tunnel is stopped; when that fails it is held again, for the given time.\<close>

definition stop_lease :: "'w BrokerService \<Rightarrow> rstr \<Rightarrow> ActiveTunnel \<Rightarrow> nat \<Rightarrow> ('w Broker, ClientError + unit) state" where
  "stop_lease bs tunnel_id tunnel again = do {
     r \<leftarrow> in_world (engine_stop (bs_tunnels bs) tunnel);
     (case r of Ok _ \<Rightarrow> done_with ()
      | Err e \<Rightarrow> do {
          now \<leftarrow> in_world (ask (bs_instant bs));
          insert_lease tunnel_id \<lparr>lease_tunnel = tunnel, lease_expires_at = now + again\<rparr> });
     done_with r }"

fun stop_expired :: "'w BrokerService \<Rightarrow> (rstr \<times> TunnelLease) list \<Rightarrow> ('w Broker, unit) state" where
  "stop_expired bs [] = done_with ()"
| "stop_expired bs ((tunnel_id, lease) # expired) = do {
     _ \<leftarrow> stop_lease bs tunnel_id (lease_tunnel lease) 2000;
     stop_expired bs expired }"

definition reap_expired_locked :: "'w BrokerService \<Rightarrow> ('w Broker, unit) state" where
  "reap_expired_locked bs = do {
     now \<leftarrow> in_world (ask (bs_instant bs));
     expired \<leftarrow> leases (filter (\<lambda>(k, l). lease_expires_at l \<le> now));
     set_leases (filter (\<lambda>(k, l). \<not> lease_expires_at l \<le> now));
     stop_expired bs expired }"

definition service_tunnel_status :: "'w BrokerService \<Rightarrow> rstr \<Rightarrow> bool \<Rightarrow> ('w Broker, BrokerResponse) state" where
  "service_tunnel_status bs tunnel_id heartbeat = do {
     lease \<leftarrow> leases (\<lambda>tunnels. map_of tunnels tunnel_id);
     (case lease of
        None \<Rightarrow> done_with (fault ''tunnel_not_found'' ''tunnel is no longer active'' False)
      | Some lease \<Rightarrow> do {
          w \<leftarrow> reads (\<lambda>s. env (br_world s));
          (if tunnel_status (bs_tunnels bs) (lease_tunnel lease) w = TunnelConnected \<and> heartbeat then do {
             now \<leftarrow> in_world (ask (bs_instant bs));
             set_leases (map (\<lambda>(k, l). (k, if k = tunnel_id then l\<lparr>lease_expires_at := now + bs_lease_ttl bs\<rparr> else l))) }
           else done_with ());
          done_with (TunnelReport (broker_status (tunnel_status (bs_tunnels bs) (lease_tunnel lease) w))
            (tunnel_network (bs_tunnels bs) (lease_tunnel lease) w)) }) }"

definition handle_probe :: "'w BrokerService \<Rightarrow> SessionTransport \<Rightarrow> ('w Broker, BrokerResponse) state" where
  "handle_probe bs transport = (case adapter_for bs transport of
     None \<Rightarrow> done_with (fault ''unsupported_transport'' ''transport is not supported'' False)
   | Some adapter \<Rightarrow> do {
       r \<leftarrow> in_world (ask (adapter_probe adapter transport));
       done_with (case r of
          Ok report \<Rightarrow> Probed (resolved_addresses report) (millis (probe_elapsed_ms report))
        | Err e \<Rightarrow> client_fault e) })"

definition connect_free :: "'w BrokerService \<Rightarrow> 'w TransportAdapter \<Rightarrow> SessionTransport \<Rightarrow> (IpAddr \<times> nat) list \<Rightarrow> ConnectOptions
    \<Rightarrow> ('w Broker, BrokerResponse) state" where
  "connect_free bs adapter transport addresses options = do {
     r \<leftarrow> in_world (engine_connect adapter transport \<lparr>resolved_addresses = addresses, probe_elapsed_ms = 0\<rparr> options);
     (case r of
        Err e \<Rightarrow> done_with (client_fault e)
      | Ok started \<Rightarrow> do {
          tunnel_id \<leftarrow> in_world (ask (bs_random_id bs));
          now \<leftarrow> in_world (ask (bs_instant bs));
          insert_lease tunnel_id \<lparr>lease_tunnel = started_tunnel started, lease_expires_at = now + bs_lease_ttl bs\<rparr>;
          done_with (ConnectedAs tunnel_id (millis (handshake_latency_ms started))) }) }"

definition connect_reaped :: "'w BrokerService \<Rightarrow> 'w TransportAdapter \<Rightarrow> SessionTransport \<Rightarrow> (IpAddr \<times> nat) list \<Rightarrow> ConnectOptions
    \<Rightarrow> ('w Broker, BrokerResponse) state" where
  "connect_reaped bs adapter transport addresses options =
    (if addresses = [] then done_with (fault ''invalid_transport'' ''transport request is invalid'' False)
     else do {
       free \<leftarrow> leases (\<lambda>tunnels. tunnels = []);
       if \<not> free then done_with (fault ''tunnel_busy'' ''another full-route tunnel is already active'' True)
       else connect_free bs adapter transport addresses options })"

definition handle_connect :: "'w BrokerService \<Rightarrow> SessionTransport \<Rightarrow> (IpAddr \<times> nat) list \<Rightarrow> ConnectOptions
    \<Rightarrow> ('w Broker, BrokerResponse) state" where
  "handle_connect bs transport addresses options = (case adapter_for bs transport of
     None \<Rightarrow> done_with (fault ''unsupported_transport'' ''transport is not supported'' False)
   | Some adapter \<Rightarrow> do {
       reap_expired_locked bs;
       connect_reaped bs adapter transport addresses options })"

definition handle_stop :: "'w BrokerService \<Rightarrow> rstr \<Rightarrow> ('w Broker, BrokerResponse) state" where
  "handle_stop bs tunnel_id = do {
     lease \<leftarrow> remove_lease tunnel_id;
     (case lease of
        None \<Rightarrow> done_with StoppedResponse
      | Some lease \<Rightarrow> do {
          r \<leftarrow> stop_lease bs tunnel_id (lease_tunnel lease) (bs_lease_ttl bs);
          done_with (case r of Ok _ \<Rightarrow> StoppedResponse | Err e \<Rightarrow> client_fault e) }) }"

fun broker_handle :: "'w BrokerService \<Rightarrow> BrokerRequest \<Rightarrow> ('w Broker, BrokerResponse) state" where
  "broker_handle bs Ping = done_with (Pong (bs_engine_available bs))"
| "broker_handle bs (ProbeRequest transport) = handle_probe bs transport"
| "broker_handle bs (ConnectRequest transport addresses options) = handle_connect bs transport addresses options"
| "broker_handle bs (StatusRequest tunnel_id) = service_tunnel_status bs tunnel_id False"
| "broker_handle bs (HeartbeatRequest tunnel_id) = service_tunnel_status bs tunnel_id True"
| "broker_handle bs (StopRequest tunnel_id) = handle_stop bs tunnel_id"

fun stop_each :: "'w BrokerService \<Rightarrow> (rstr \<times> TunnelLease) list \<Rightarrow> ('w Broker, unit) state" where
  "stop_each bs [] = done_with ()"
| "stop_each bs ((tunnel_id, lease) # rest) = do {
     _ \<leftarrow> in_world (engine_stop (bs_tunnels bs) (lease_tunnel lease));
     stop_each bs rest }"

definition stop_all :: "'w BrokerService \<Rightarrow> ('w Broker, unit) state" where
  "stop_all bs = do {
     held \<leftarrow> leases (\<lambda>tunnels. tunnels);
     set_leases (\<lambda>_. []);
     stop_each bs held }"

subsection \<open>One tunnel, under a lease\<close>

datatype broker_op = Request BrokerRequest | Reap

text \<open>A request of an app, or a tick of \<open>spawn_reaper\<close>.\<close>

fun broker_do :: "'w BrokerService \<Rightarrow> broker_op \<Rightarrow> ('w Broker, unit) state" where
  "broker_do bs (Request request) = do { _ \<leftarrow> broker_handle bs request; done_with () }"
| "broker_do bs Reap = reap_expired_locked bs"

definition broker_step :: "'w BrokerService \<Rightarrow> broker_op \<Rightarrow> 'w Broker \<Rightarrow> 'w Broker" where
  "broker_step bs op s = snd (run_state (broker_do bs op) s)"

abbreviation broker_log :: "'w Broker \<Rightarrow> call list" where "broker_log s \<equiv> calls (br_world s)"

definition leased :: "'w Broker \<Rightarrow> ActiveTunnel list" where
  "leased s = map (lease_tunnel \<circ> snd) (br_tunnels s)"

definition broker_ok :: "'w Broker \<Rightarrow> bool" where
  "broker_ok s \<longleftrightarrow> accounted (broker_log s) (leased s) \<and> length (br_tunnels s) \<le> 1"

lemma after_in_world [simp]: "after (in_world m) Q s = after m (\<lambda>r w. Q r (s\<lparr>br_world := w\<rparr>)) (br_world s)"
  by (simp add: after_def in_world_def split: prod.splits)

lemma after_leases [simp]: "after (leases f) Q s = Q (f (br_tunnels s)) s"
  by (simp add: leases_def)

lemma after_set_leases [simp]: "after (set_leases f) Q s = Q () (s\<lparr>br_tunnels := f (br_tunnels s)\<rparr>)"
  by (simp add: set_leases_def)

text \<open>A state with no lease whose last tunnel was taken out: it is stopped, or leased again.\<close>

lemma after_stop_lease:
  assumes "br_tunnels s = []" "accounted (broker_log s) [t]"
    and "\<And>s'. br_tunnels s' = [] \<Longrightarrow> broker_log s' = Stopped t # broker_log s \<Longrightarrow> Q (Ok ()) s'"
    and "\<And>e s' now. br_tunnels s' = [(k, \<lparr>lease_tunnel = t, lease_expires_at = now + again\<rparr>)] \<Longrightarrow>
       broker_log s' = StopFailed t e # broker_log s \<Longrightarrow> Q (Err e) s'"
  shows "after (stop_lease bs k t again) Q s"
proof -
  obtain r w where r: "tunnel_stop (bs_tunnels bs) t (env (br_world s)) = (r, w)" by fastforce
  show ?thesis
    using assms by (cases r) (simp_all add: stop_lease_def engine_stop_def r insert_lease_def without_def)
qed

lemma broker_ok_cases:
  assumes "broker_ok s"
  obtains "br_tunnels s = []" "accounted (broker_log s) []"
  | k l where "br_tunnels s = [(k, l)]" "accounted (broker_log s) [lease_tunnel l]"
  using assms by (cases "br_tunnels s" rule: list.exhaust) (auto simp: broker_ok_def leased_def)

lemma stop_lease_ok:
  "br_tunnels s = [] \<Longrightarrow> accounted (broker_log s) [t] \<Longrightarrow> after (stop_lease bs k t again) (\<lambda>_. broker_ok) s"
  by (rule after_stop_lease) (auto simp: broker_ok_def leased_def accounted_stopped)

text \<open>Reaping touches a lease exactly when its time is over.\<close>

lemma after_reap:
  assumes "br_tunnels s = [] \<Longrightarrow> accounted (broker_log s) []" "\<And>k l. br_tunnels s = [(k, l)] \<Longrightarrow> accounted (broker_log s) [lease_tunnel l]"
    and "length (br_tunnels s) \<le> 1"
    and same: "\<And>s'. br_tunnels s' = br_tunnels s \<Longrightarrow> broker_log s' = broker_log s \<Longrightarrow>
      list_all (\<lambda>(k, l). fst (bs_instant bs (env (br_world s))) < lease_expires_at l) (br_tunnels s) \<Longrightarrow> Q () s'"
    and stopped: "\<And>s' k l. br_tunnels s = [(k, l)] \<Longrightarrow> lease_expires_at l \<le> fst (bs_instant bs (env (br_world s))) \<Longrightarrow>
      br_tunnels s' = [] \<Longrightarrow> broker_log s' = Stopped (lease_tunnel l) # broker_log s \<Longrightarrow> Q () s'"
    and again: "\<And>s' k l e now. br_tunnels s = [(k, l)] \<Longrightarrow> lease_expires_at l \<le> fst (bs_instant bs (env (br_world s))) \<Longrightarrow>
      br_tunnels s' = [(k, \<lparr>lease_tunnel = lease_tunnel l, lease_expires_at = now + 2000\<rparr>)] \<Longrightarrow>
      broker_log s' = StopFailed (lease_tunnel l) e # broker_log s \<Longrightarrow> Q () s'"
  shows "after (reap_expired_locked bs) Q s"
proof (cases "br_tunnels s")
  case Nil
  then show ?thesis using same by (simp add: reap_expired_locked_def)
next
  case (Cons kl rest)
  then obtain k l where kl: "br_tunnels s = [(k, l)]" using assms(3) by (cases kl) auto
  show ?thesis
  proof (cases "lease_expires_at l \<le> fst (bs_instant bs (env (br_world s)))")
    case True
    then show ?thesis
      unfolding reap_expired_locked_def using kl assms(2) [OF kl] stopped [OF kl True] again [OF kl True]
      by (auto intro!: after_stop_lease)
  next
    case False
    then show ?thesis using kl same by (simp add: reap_expired_locked_def)
  qed
qed

lemma reap_ok: "broker_ok s \<Longrightarrow> after (reap_expired_locked bs) (\<lambda>_. broker_ok) s"
  by (rule after_reap) (auto simp: broker_ok_def leased_def accounted_stopped)

lemma status_ok: "broker_ok s \<Longrightarrow> after (service_tunnel_status bs k b) (\<lambda>_. broker_ok) s"
  by (auto simp: service_tunnel_status_def broker_ok_def leased_def comp_def case_prod_beta if_distrib [of lease_tunnel]
      split: option.splits cong: if_cong)

lemma connect_free_ok:
  assumes "broker_ok s" "br_tunnels s = []"
  shows "after (connect_free bs a t addresses options) (\<lambda>_. broker_ok) s"
proof -
  let ?p = "\<lparr>resolved_addresses = addresses, probe_elapsed_ms = 0\<rparr>"
  obtain r w where "adapter_connect a t ?p options (env (br_world s)) = (r, w)" by fastforce
  then show ?thesis
    using assms by (cases r)
      (auto simp: connect_free_def engine_connect_def broker_ok_def leased_def insert_lease_def without_def accounted_started)
qed

lemma connect_reaped_ok: "broker_ok s \<Longrightarrow> after (connect_reaped bs a t addresses options) (\<lambda>_. broker_ok) s"
  by (auto simp: connect_reaped_def connect_free_ok)

lemma connect_ok: "broker_ok s \<Longrightarrow> after (handle_connect bs t addresses options) (\<lambda>_. broker_ok) s"
  unfolding handle_connect_def
  by (auto split: option.splits intro!: after_mono [OF reap_ok] connect_reaped_ok)

lemma stop_ok:
  assumes "broker_ok s"
  shows "after (handle_stop bs k) (\<lambda>_. broker_ok) s"
  using assms
proof (cases rule: broker_ok_cases)
  case 1
  then show ?thesis by (simp add: handle_stop_def remove_lease_def without_def broker_ok_def leased_def)
next
  case (2 k' l)
  then show ?thesis using assms
    by (cases "k = k'") (auto simp: handle_stop_def remove_lease_def without_def leased_def broker_ok_def intro!: after_mono [OF stop_lease_ok])
qed

lemma handle_ok: "broker_ok s \<Longrightarrow> after (broker_handle bs request) (\<lambda>_. broker_ok) s"
  by (cases request) (auto simp: status_ok connect_ok stop_ok handle_probe_def broker_ok_def leased_def split: option.splits)

lemma broker_do_ok: "broker_ok s \<Longrightarrow> after (broker_do bs op) (\<lambda>_. broker_ok) s"
  by (cases op) (simp_all add: handle_ok reap_ok)

lemma broker_step_ok: "broker_ok s \<Longrightarrow> broker_ok (broker_step bs op s)"
  using broker_do_ok [of s bs op] by (simp add: broker_step_def after_def split: prod.splits)

interpretation broker: tunnel_holder "broker_new e" "broker_step bs" broker_ok leased broker_log for e bs
  by unfold_locales (auto simp: broker_step_ok, auto simp: broker_ok_def leased_def broker_new_def)

text \<open>
  C29: Whatever requests apps send and whenever the reaper runs, however engines, clock and random numbers behave: the
  service starts a tunnel only when none runs, stops only the one that runs, and every tunnel that runs is under a lease,
  so that a stop that fails, by an app or by the reaper, never leaves a tunnel nobody answers for.
\<close>

theorem broker_holds_what_runs:
  "one_at_a_time (broker_log (fold (broker_step bs) ops (broker_new e)))
     \<and> running (broker_log (fold (broker_step bs) ops (broker_new e)))
         = map (lease_tunnel \<circ> snd) (br_tunnels (fold (broker_step bs) ops (broker_new e)))
     \<and> length (br_tunnels (fold (broker_step bs) ops (broker_new e))) \<le> 1"
  using broker.never_lost [where e = e and bs = bs and ops = ops] broker.run_ok [OF broker.start_ok [of e], where bs = bs and ops = ops]
  by (simp add: accounted_def leased_def broker_ok_def)

lemma connect_free_spec:
  assumes "br_tunnels s = []"
  shows "after (connect_free bs a transport addresses options) (\<lambda>r s'.
      broker_log s' = broker_log s \<and> br_tunnels s' = []
      \<or> (\<exists>x k'. broker_log s' = Started (lease_tunnel x) # broker_log s \<and> br_tunnels s' = [(k', x)])) s"
proof -
  obtain r w where "adapter_connect a transport \<lparr>resolved_addresses = addresses, probe_elapsed_ms = 0\<rparr> options (env (br_world s)) = (r, w)"
    by fastforce
  then show ?thesis using assms
    by (cases r) (auto simp: connect_free_def engine_connect_def insert_lease_def without_def)
qed

definition busy :: BrokerResponse where
  "busy = fault ''tunnel_busy'' ''another full-route tunnel is already active'' True"

text \<open>
  C30: A lease protects its tunnel until it ends and no longer. While an app's lease lasts, a request to connect is answered
  as busy and changes nothing. From the moment it ends, the same request stops the old tunnel first: when that fails the
  answer is busy and the tunnel is held for another two seconds, and only when it succeeds can a new tunnel be
  started, which is then the one under lease.
\<close>

theorem lease_protects_its_tunnel:
  assumes "br_tunnels s = [(k, l)]" "running (broker_log s) = [lease_tunnel l]" "one_at_a_time (broker_log s)"
    and "adapter_for bs transport = Some a" "addresses \<noteq> []"
  shows "after (broker_handle bs (ConnectRequest transport addresses options)) (\<lambda>r s'.
      if fst (bs_instant bs (env (br_world s))) < lease_expires_at l
      then r = busy \<and> br_tunnels s' = [(k, l)] \<and> broker_log s' = broker_log s
      else (\<exists>e now. r = busy \<and> broker_log s' = StopFailed (lease_tunnel l) e # broker_log s
              \<and> br_tunnels s' = [(k, \<lparr>lease_tunnel = lease_tunnel l, lease_expires_at = now + 2000\<rparr>)])
         \<or> broker_log s' = Stopped (lease_tunnel l) # broker_log s \<and> br_tunnels s' = []
         \<or> (\<exists>x k'. broker_log s' = Started (lease_tunnel x) # Stopped (lease_tunnel l) # broker_log s \<and> br_tunnels s' = [(k', x)])) s"
proof -
  have "after (reap_expired_locked bs) (\<lambda>_. after (connect_reaped bs a transport addresses options) (\<lambda>r s'.
      if fst (bs_instant bs (env (br_world s))) < lease_expires_at l
      then r = busy \<and> br_tunnels s' = [(k, l)] \<and> broker_log s' = broker_log s
      else (\<exists>e now. r = busy \<and> broker_log s' = StopFailed (lease_tunnel l) e # broker_log s
              \<and> br_tunnels s' = [(k, \<lparr>lease_tunnel = lease_tunnel l, lease_expires_at = now + 2000\<rparr>)])
         \<or> broker_log s' = Stopped (lease_tunnel l) # broker_log s \<and> br_tunnels s' = []
         \<or> (\<exists>x k'. broker_log s' = Started (lease_tunnel x) # Stopped (lease_tunnel l) # broker_log s \<and> br_tunnels s' = [(k', x)]))) s"
    by (rule after_reap)
      (use assms in \<open>auto simp: accounted_def connect_reaped_def busy_def intro!: after_mono [OF connect_free_spec]\<close>)
  then show ?thesis using assms by (simp add: handle_connect_def)
qed

text \<open>A service whose only engine connects at once, with an app holding a lease until 100.\<close>

definition sample_tunnel :: ActiveTunnel where
  "sample_tunnel = \<lparr>tunnel_handle = 1, tunnel_transport_id = lit ''hysteria''\<rparr>"

definition sample_tunnel_service :: "unit BrokerService" where
  "sample_tunnel_service = \<lparr>bs_adapters = [\<lparr>adapter_supports = (\<lambda>_. True), adapter_probe = (\<lambda>_ w. (Err NotEnrolled, w)),
       adapter_connect = (\<lambda>_ _ _ w. (Ok \<lparr>started_tunnel = sample_tunnel\<lparr>tunnel_handle := 2\<rparr>, handshake_latency_ms = 3\<rparr>, w))\<rparr>],
     bs_engine_available = True, bs_lease_ttl = 12000,
     bs_tunnels = \<lparr>tunnel_status = (\<lambda>_ _. TunnelConnected), tunnel_network = (\<lambda>_ _. \<lparr>generation = 0, offline = False\<rparr>),
       tunnel_stop = (\<lambda>_ w. (Ok (), w))\<rparr>,
     bs_instant = (\<lambda>w. (50, w)), bs_random_id = (\<lambda>w. ([65], w))\<rparr>"

definition sample_broker :: "nat \<Rightarrow> unit Broker" where
  "sample_broker expires = \<lparr>br_tunnels = [([66], \<lparr>lease_tunnel = sample_tunnel, lease_expires_at = expires\<rparr>)],
     br_world = \<lparr>env = (), calls = [Started sample_tunnel]\<rparr>\<rparr>"

theorem lease_protects_its_tunnel_witness:
  "\<forall>t. after (broker_handle sample_tunnel_service (ConnectRequest t [(V4 0x01020304, 443)] default_options)) (\<lambda>r s'. r = busy
     \<and> broker_log s' = [Started sample_tunnel]) (sample_broker 100)"
proof
  fix t
  have "adapter_for sample_tunnel_service t = Some (hd (bs_adapters sample_tunnel_service))" by (simp add: adapter_for_def sample_tunnel_service_def)
  from lease_protects_its_tunnel [OF _ _ _ this, of "sample_broker 100" "[66]" "\<lparr>lease_tunnel = sample_tunnel, lease_expires_at = 100\<rparr>"
      "[(V4 0x01020304, 443)]" default_options]
  show "after (broker_handle sample_tunnel_service (ConnectRequest t [(V4 0x01020304, 443)] default_options)) (\<lambda>r s'. r = busy
     \<and> broker_log s' = [Started sample_tunnel]) (sample_broker 100)"
    by (auto simp: sample_broker_def sample_tunnel_service_def simp del: broker_handle.simps elim!: after_mono)
qed

end
