(* ===== verification/Tunnel_Session.thy ===== *)
theory Tunnel_Session
  imports Tunnel_Service
begin

text \<open>
  How an app speaks to the tunnel service: frames, the installation token and the handshake
  (\<open>lib.rs\<close> of crates/ket-tunnel-protocol, \<open>handle_connection\<close> of crates/ket-tunnel-service).
  The encoding to JSON and the keyed hash are arguments. What the app sends is a list of
  bytes; a connection that breaks off or times out is one whose bytes end, or whose answers
  cannot be written. That a command times out inside an engine is not modelled.
\<close>

subsection \<open>Frames\<close>

datatype FrameError = FrameTooLarge | FrameIo | FrameInvalid

definition MAX_FRAME_BYTES :: nat where "MAX_FRAME_BYTES = 128 * 1024"

text \<open>The bytes written for a value.\<close>

definition write_frame :: "('a \<Rightarrow> u8 list option) \<Rightarrow> 'a \<Rightarrow> FrameError + u8 list" where
  "write_frame to_json v = (case to_json v of
     None \<Rightarrow> Err FrameInvalid
   | Some encoded \<Rightarrow> if length encoded > MAX_FRAME_BYTES then Err FrameTooLarge
       else Ok (to_be_bytes 4 (length encoded mod 2 ^ 32) @ encoded))"

definition read_frame :: "(u8 list \<Rightarrow> 'a option) \<Rightarrow> u8 list \<Rightarrow> FrameError + ('a \<times> u8 list)" where
  "read_frame from_json bytes =
    (if length bytes < 4 then Err FrameIo
     else let n = from_be_bytes (take 4 bytes); rest = drop 4 bytes in
       if n = 0 \<or> n > MAX_FRAME_BYTES then Err FrameTooLarge
       else if length rest < n then Err FrameIo
       else (case from_json (take n rest) of
               None \<Rightarrow> Err FrameInvalid
             | Some v \<Rightarrow> Ok (v, drop n rest)))"

text \<open>A frame is read exactly from the bytes a frame is written as.\<close>

lemma read_write_frame:
  assumes "to_json v = Some encoded" "encoded \<noteq> []" "from_json encoded = Some v" "write_frame to_json v = Ok bytes"
  shows "read_frame from_json (bytes @ rest) = Ok (v, rest)"
proof -
  have small: "length encoded \<le> MAX_FRAME_BYTES" and bytes: "bytes = to_be_bytes 4 (length encoded mod 2 ^ 32) @ encoded"
    using assms by (auto simp: write_frame_def split: if_splits)
  have "length encoded < 2 ^ 32" using small by (simp add: MAX_FRAME_BYTES_def)
  then have "from_be_bytes (to_be_bytes 4 (length encoded mod 2 ^ 32)) = length encoded"
    using from_to_be_bytes [of "length encoded" 4] by simp
  then show ?thesis using assms small bytes by (simp add: read_frame_def Let_def)
qed

lemma read_frame_Ok:
  assumes "read_frame from_json bytes = Ok (v, rest)"
  shows "\<exists>encoded. bytes = to_be_bytes 4 (length encoded) @ encoded @ rest \<and> from_json encoded = Some v
    \<and> 1 \<le> length encoded \<and> length encoded \<le> MAX_FRAME_BYTES"
proof -
  define n where "n = from_be_bytes (take 4 bytes)"
  have *: "4 \<le> length bytes" "1 \<le> n" "n \<le> MAX_FRAME_BYTES" "n \<le> length (drop 4 bytes)"
    "from_json (take n (drop 4 bytes)) = Some v" "rest = drop n (drop 4 bytes)"
    using assms by (auto simp: read_frame_def Let_def n_def split: if_splits option.splits)
  have "to_be_bytes 4 n = take 4 bytes"
    using to_from_be_bytes [of "take 4 bytes"] *(1) by (simp add: n_def min_def split: if_splits)
  then have "bytes = to_be_bytes 4 n @ take n (drop 4 bytes) @ rest" using *(6) by (simp only: append_take_drop_id)
  moreover have "length (take n (drop 4 bytes)) = n" using *(4) by simp
  ultimately show ?thesis using * by (intro exI [of _ "take n (drop 4 bytes)"]) simp
qed

subsection \<open>The token\<close>

definition TOKEN_BYTES :: nat where "TOKEN_BYTES = 32"

datatype TokenError = TokenIo | InvalidLength | InsecurePermissions

record token_file =
  file_mode :: "32 word"
  file_bytes :: "u8 list"

definition validate_permissions :: "32 word \<Rightarrow> TokenError + unit" where
  "validate_permissions mode = (if and mode 0x1F \<noteq> 0 then Err InsecurePermissions else Ok ())"

definition token_load :: "token_file option \<Rightarrow> TokenError + u8 list" where
  "token_load stored = (case stored of
     None \<Rightarrow> Err TokenIo
   | Some f \<Rightarrow> (case validate_permissions (file_mode f) of Err e \<Rightarrow> Err e
       | Ok _ \<Rightarrow> (let bytes = take (TOKEN_BYTES + 1) (file_bytes f) in
           if length bytes \<noteq> TOKEN_BYTES then Err InvalidLength else Ok bytes)))"

text \<open>A new file is created with mode 0640, from which the process's mask may take bits away.\<close>

definition token_write_new :: "32 word \<Rightarrow> u8 list \<Rightarrow> token_file option \<Rightarrow> TokenError + token_file" where
  "token_write_new umask token stored = (case stored of
     Some _ \<Rightarrow> Err TokenIo
   | None \<Rightarrow> Ok \<lparr>file_mode = and 0x1A0 (not umask), file_bytes = token\<rparr>)"

lemma token_write_load:
  assumes "length token = TOKEN_BYTES" "token_write_new umask token stored = Ok f"
  shows "token_load (Some f) = Ok token"
proof -
  have "and (and 0x1A0 (not umask)) 0x1F = (and (and (0x1A0 :: 32 word) 0x1F) (not umask))"
    by (simp only: and.assoc and.commute and.left_commute)
  also have "... = 0" by simp
  finally have "and (and 0x1A0 (not umask)) (0x1F :: 32 word) = 0" .
  then show ?thesis using assms
    by (auto simp: token_write_new_def token_load_def validate_permissions_def Let_def split: option.splits)
qed

subsection \<open>The handshake\<close>

definition PROOF_CONTEXT :: "u8 list" where
  "PROOF_CONTEXT = map (of_nat \<circ> of_char) ''ket-tunnel-broker-v1''"

text \<open>\<open>hmac key message\<close> is the keyed hash; checking a tag compares it with the one computed.\<close>

definition token_proof :: "(u8 list \<Rightarrow> u8 list \<Rightarrow> u8 list) \<Rightarrow> u8 list \<Rightarrow> u8 list \<Rightarrow> u8 list" where
  "token_proof hmac token nonce = hmac token (PROOF_CONTEXT @ nonce)"

definition verify_proof :: "(u8 list \<Rightarrow> u8 list \<Rightarrow> u8 list) \<Rightarrow> u8 list \<Rightarrow> u8 list \<Rightarrow> u8 list \<Rightarrow> bool" where
  "verify_proof hmac token nonce candidate \<longleftrightarrow> token_proof hmac token nonce = candidate"

record broker_json =
  proof_to_json :: "u8 list \<Rightarrow> u8 list option"
  proof_from_json :: "u8 list \<Rightarrow> u8 list option"
  request_to_json :: "BrokerRequest \<Rightarrow> u8 list option"
  request_from_json :: "u8 list \<Rightarrow> BrokerRequest option"

datatype connection_end = HandshakeBroken | AuthenticationFailed | CommandBroken | AnsweredWith BrokerResponse bool

text \<open>
  One connection: \<open>written i\<close> says whether the i-th frame of the service (challenge, result,
  response) reaches the app, \<open>incoming\<close> is all the app sends.
\<close>

definition serve_command :: "'w BrokerService \<Rightarrow> broker_json \<Rightarrow> bool \<Rightarrow> u8 list \<Rightarrow> ('w Broker, connection_end) state" where
  "serve_command bs js written incoming = (case read_frame (request_from_json js) incoming of
     Err _ \<Rightarrow> done_with CommandBroken
   | Ok (request, _) \<Rightarrow> do {
       response \<leftarrow> broker_handle bs request;
       done_with (AnsweredWith response written) })"

definition handle_connection :: "'w BrokerService \<Rightarrow> broker_json \<Rightarrow> (u8 list \<Rightarrow> u8 list \<Rightarrow> u8 list) \<Rightarrow> u8 list \<Rightarrow> u8 list
    \<Rightarrow> (nat \<Rightarrow> bool) \<Rightarrow> u8 list \<Rightarrow> ('w Broker, connection_end) state" where
  "handle_connection bs js hmac token nonce written incoming =
    (if \<not> written 0 then done_with HandshakeBroken
     else case read_frame (proof_from_json js) incoming of
       Err _ \<Rightarrow> done_with HandshakeBroken
     | Ok (mac, rest) \<Rightarrow>
         if \<not> written 1 then done_with HandshakeBroken
         else if \<not> verify_proof hmac token nonce mac then done_with AuthenticationFailed
         else serve_command bs js (written 2) rest)"

text \<open>
  C31: The tunnel service obeys exactly those who hold the installation token. Whatever an app sends, the service and its
  tunnels are as before unless the first frame, within the size limit, is the keyed hash of this connection's
  nonce under the token. And an app that holds the token and sends that proof and a request is
  given exactly what the service answers to that request.
\<close>

theorem broker_obeys_token_holder:
  assumes "written 0" "written 1"
    and "proof_from_json js sealed = Some (token_proof hmac token nonce)" "proof_to_json js (token_proof hmac token nonce) = Some sealed"
    and "request_from_json js body = Some request" "request_to_json js request = Some body"
    and "sealed \<noteq> []" "body \<noteq> []"
    and "write_frame (proof_to_json js) (token_proof hmac token nonce) = Ok proof_frame" "write_frame (request_to_json js) request = Ok request_frame"
  shows "run_state (handle_connection bs js hmac token nonce written (proof_frame @ request_frame)) s
      = (case run_state (broker_handle bs request) s of (response, s') \<Rightarrow> (AnsweredWith response (written 2), s'))
    \<and> (snd (run_state (handle_connection bs js hmac token nonce written incoming) s) = s
       \<or> (\<exists>encoded rest. incoming = to_be_bytes 4 (length encoded) @ encoded @ rest \<and> 1 \<le> length encoded \<and> length encoded \<le> 131072
           \<and> proof_from_json js encoded = Some (hmac token (PROOF_CONTEXT @ nonce))))"
proof
  have "read_frame (proof_from_json js) (proof_frame @ request_frame) = Ok (token_proof hmac token nonce, request_frame)"
    using read_write_frame [of "proof_to_json js" _ sealed "proof_from_json js"] assms by simp
  moreover have "read_frame (request_from_json js) request_frame = Ok (request, [])"
    using read_write_frame [of "request_to_json js" request body "request_from_json js" request_frame "[]"] assms by simp
  ultimately show "run_state (handle_connection bs js hmac token nonce written (proof_frame @ request_frame)) s
      = (case run_state (broker_handle bs request) s of (response, s') \<Rightarrow> (AnsweredWith response (written 2), s'))"
    using assms(1,2) by (simp add: handle_connection_def serve_command_def verify_proof_def split: prod.splits)
next
  show "snd (run_state (handle_connection bs js hmac token nonce written incoming) s) = s
       \<or> (\<exists>encoded rest. incoming = to_be_bytes 4 (length encoded) @ encoded @ rest \<and> 1 \<le> length encoded \<and> length encoded \<le> 131072
           \<and> proof_from_json js encoded = Some (hmac token (PROOF_CONTEXT @ nonce)))"
  proof (cases "read_frame (proof_from_json js) incoming")
    case (Inl e)
    then show ?thesis by (simp add: handle_connection_def)
  next
    case (Inr mr)
    obtain mac rest where mr: "mr = (mac, rest)" by fastforce
    show ?thesis
    proof (cases "verify_proof hmac token nonce mac")
      case False
      then show ?thesis using Inr mr by (simp add: handle_connection_def)
    next
      case True
      then have "mac = hmac token (PROOF_CONTEXT @ nonce)" by (simp add: verify_proof_def token_proof_def)
      then show ?thesis using read_frame_Ok [of "proof_from_json js" incoming mac rest] Inr mr by (auto simp: MAX_FRAME_BYTES_def)
    qed
  qed
qed

text \<open>A keyed hash and an encoding, enough to speak to the service.\<close>

definition sample_frames :: broker_json where
  "sample_frames = \<lparr>proof_to_json = Some, proof_from_json = Some, request_to_json = (\<lambda>r. if r = Ping then Some [1] else None),
     request_from_json = (\<lambda>b. if b = [1] then Some Ping else None)\<rparr>"

lemma to_be_bytes_4:
  "to_be_bytes 4 v = [of_nat (v div 256 div 256 div 256 mod 256), of_nat (v div 256 div 256 mod 256), of_nat (v div 256 mod 256), of_nat (v mod 256)]"
proof -
  have "(4 :: nat) = Suc (Suc (Suc (Suc 0)))" by simp
  then show ?thesis by (simp only: to_be_bytes.simps append.simps)
qed

theorem broker_obeys_token_holder_witness:
  "run_state (handle_connection sample_tunnel_service sample_frames (\<lambda>k m. k) [7, 8] [9] (\<lambda>_. True) ([0, 0, 0, 2, 7, 8] @ [0, 0, 0, 1, 1])) (sample_broker 100)
     = (AnsweredWith (Pong True) True, sample_broker 100)
   \<and> snd (run_state (handle_connection sample_tunnel_service sample_frames (\<lambda>k m. k) [7, 8] [9] (\<lambda>_. True) [0, 0, 0, 1, 5, 0, 0, 0, 1, 1]) (sample_broker 100))
     = sample_broker 100"
proof -
  have f: "write_frame (proof_to_json sample_frames) (token_proof (\<lambda>k m. k) [7, 8] [9]) = Ok [0, 0, 0, 2, 7, 8]"
    "write_frame (request_to_json sample_frames) Ping = Ok [0, 0, 0, 1, 1]"
    by (simp_all add: write_frame_def sample_frames_def token_proof_def MAX_FRAME_BYTES_def to_be_bytes_4)
  have js: "proof_from_json sample_frames = Some" "proof_to_json sample_frames = Some" "request_from_json sample_frames [1] = Some Ping"
    "request_to_json sample_frames Ping = Some [1]" "bs_engine_available sample_tunnel_service"
    by (simp_all add: sample_frames_def sample_tunnel_service_def)
  have no: "[0, 0, 0, 1, 5, 0, 0, 0, 1, 1] \<noteq> to_be_bytes 4 (Suc (Suc 0)) @ 7 # 8 # rest" for rest
    by (simp add: to_be_bytes_4)
  show ?thesis
    using broker_obeys_token_holder [where written = "\<lambda>_. True" and js = sample_frames and sealed = "[7, 8]" and hmac = "\<lambda>k m. k" and token = "[7, 8]"
        and nonce = "[9]" and body = "[1]" and request = Ping and proof_frame = "[0, 0, 0, 2, 7, 8]" and request_frame = "[0, 0, 0, 1, 1]"
        and bs = sample_tunnel_service and s = "sample_broker 100" and incoming = "[0, 0, 0, 1, 5, 0, 0, 0, 1, 1]", OF _ _ _ _ _ _ _ _ f]
      js by (simp add: token_proof_def no)
qed

end
