(* ===== verification/Leak_Guard.thy ===== *)
theory Leak_Guard
  imports Tunnel_Protocol
begin

text \<open>
  The guard that keeps name lookups and IPv6 inside the tunnel on Windows (crates/ket-client-core,
  \<open>leak_guard\<close>): the rules (\<open>plan.rs\<close>), how they are installed in one transaction of the
  Filtering Platform (\<open>windows.rs\<close>), and the guard itself (\<open>mod.rs\<close>). The platform's answers
  are an argument; the state keeps, beside them, the filters the platform has committed, as a
  transaction documents it: all of its filters when the commit succeeds, none otherwise. Which of
  several filters of one weight decides is left open.
\<close>

unbundle bit_operations_syntax

subsection \<open>The rules\<close>

datatype GuardFamily = GuardV4 | GuardV6

datatype GuardAction = Permit | Block

datatype Condition =
  TunnelInterface
| Loopback
| RemoteAddress IpAddr
| RemotePort nat
| RemoteIpv6Prefix ipv6 nat
| Everything

record GuardRule =
  rule_family :: GuardFamily
  rule_action :: GuardAction
  rule_condition :: Condition
  rule_weight :: nat

definition NAME_LOOKUP_PORTS :: "nat list" where "NAME_LOOKUP_PORTS = [53, 853, 5355, 137]"
definition TUNNEL_WEIGHT :: nat where "TUNNEL_WEIGHT = 15"
definition LOOPBACK_WEIGHT :: nat where "LOOPBACK_WEIGHT = 14"
definition SERVER_WEIGHT :: nat where "SERVER_WEIGHT = 13"
definition LOOKUP_BLOCK_WEIGHT :: nat where "LOOKUP_BLOCK_WEIGHT = 12"
definition LOCAL_IPV6_WEIGHT :: nat where "LOCAL_IPV6_WEIGHT = 11"
definition IPV6_BLOCK_WEIGHT :: nat where "IPV6_BLOCK_WEIGHT = 10"

definition GUARD_FAMILIES :: "GuardFamily list" where "GUARD_FAMILIES = [GuardV4, GuardV6]"

definition guard_rule :: "GuardFamily \<Rightarrow> GuardAction \<Rightarrow> Condition \<Rightarrow> nat \<Rightarrow> GuardRule" where
  "guard_rule f a c w = \<lparr>rule_family = f, rule_action = a, rule_condition = c, rule_weight = w\<rparr>"

fun guard_family :: "IpAddr \<Rightarrow> GuardFamily" where
  "guard_family (V4 a) = GuardV4"
| "guard_family (V6 a) = GuardV6"

fun bypassed_ipv6 :: "IpPrefix list \<Rightarrow> (ipv6 \<times> nat) list" where
  "bypassed_ipv6 [] = []"
| "bypassed_ipv6 (p # r) = (case prefix_address p of
     V6 address \<Rightarrow> (address, prefix_length p) # bypassed_ipv6 r | V4 _ \<Rightarrow> bypassed_ipv6 r)"

definition base_rules :: "IpAddr list \<Rightarrow> IpPrefix list \<Rightarrow> GuardRule list" where
  "base_rules servers bypassed =
     concat (map (\<lambda>family. guard_rule family Permit Loopback LOOPBACK_WEIGHT
         # map (\<lambda>port. guard_rule family Block (RemotePort port) LOOKUP_BLOCK_WEIGHT) NAME_LOOKUP_PORTS)
       GUARD_FAMILIES)
     @ map (\<lambda>server. guard_rule (guard_family server) Permit (RemoteAddress server) SERVER_WEIGHT) servers
     @ map (\<lambda>(prefix, len). guard_rule GuardV6 Permit (RemoteIpv6Prefix prefix len) LOCAL_IPV6_WEIGHT)
         ([(0xfe80 * 2 ^ 112, 10), (0xff00 * 2 ^ 112, 8)] @ bypassed_ipv6 bypassed)
     @ [guard_rule GuardV6 Block Everything IPV6_BLOCK_WEIGHT]"

definition tunnel_rules :: "GuardRule list" where
  "tunnel_rules = map (\<lambda>family. guard_rule family Permit TunnelInterface TUNNEL_WEIGHT) GUARD_FAMILIES"

subsection \<open>Installing them\<close>

text \<open>A filter is a rule and, for the tunnel's, the interface it was resolved to.\<close>

type_synonym filter_entry = "GuardRule \<times> nat option"

datatype FwpCall =
  EngineOpen | TransactionBegin | SubLayerAdd | FilterAdd filter_entry
| TransactionCommit | TransactionAbort | EngineClose

record 'w Filtering =
  fwp_call :: "FwpCall \<Rightarrow> 'w \<Rightarrow> bool \<times> 'w"
  fwp_luid :: "rstr \<Rightarrow> 'w \<Rightarrow> nat option \<times> 'w"

record 'w Platform =
  pf_env :: 'w
  pf_filters :: "filter_entry list"
  pf_pending :: "filter_entry list"

datatype GuardError = PlatformFailed | InterfaceNotFound rstr | InterfaceUnknown

definition fwp :: "'w Filtering \<Rightarrow> FwpCall \<Rightarrow> 'w Platform \<Rightarrow> (GuardError + unit) \<times> 'w Platform" where
  "fwp os call p = (case fwp_call os call (pf_env p) of
     (True, w) \<Rightarrow> (Ok (), p\<lparr>pf_env := w\<rparr>) | (False, w) \<Rightarrow> (Err PlatformFailed, p\<lparr>pf_env := w\<rparr>))"

definition add_filter :: "'w Filtering \<Rightarrow> GuardRule \<Rightarrow> nat option \<Rightarrow> 'w Platform \<Rightarrow> (GuardError + unit) \<times> 'w Platform" where
  "add_filter os rule luid p =
     (if rule_condition rule = TunnelInterface \<and> luid = None then (Err InterfaceUnknown, p)
      else (case fwp os (FilterAdd (rule, luid)) p of
        (Ok _, p) \<Rightarrow> (Ok (), p\<lparr>pf_pending := pf_pending p @ [(rule, luid)]\<rparr>)
      | (Err e, p) \<Rightarrow> (Err e, p)))"

fun add_filters :: "'w Filtering \<Rightarrow> GuardRule list \<Rightarrow> nat option \<Rightarrow> 'w Platform \<Rightarrow> (GuardError + unit) \<times> 'w Platform" where
  "add_filters os [] luid p = (Ok (), p)"
| "add_filters os (rule # rules) luid p = (case add_filter os rule luid p of
     (Err e, p) \<Rightarrow> (Err e, p) | (Ok _, p) \<Rightarrow> add_filters os rules luid p)"

definition transaction ::
  "'w Filtering \<Rightarrow> ('w Platform \<Rightarrow> (GuardError + unit) \<times> 'w Platform) \<Rightarrow> 'w Platform \<Rightarrow> (GuardError + unit) \<times> 'w Platform" where
  "transaction os body p = (case fwp os TransactionBegin p of
     (Err e, p) \<Rightarrow> (Err e, p)
   | (Ok _, p) \<Rightarrow> (case body (p\<lparr>pf_pending := []\<rparr>) of
       (Ok _, p) \<Rightarrow> (case fwp os TransactionCommit p of
           (Ok _, p) \<Rightarrow> (Ok (), p\<lparr>pf_filters := pf_filters p @ pf_pending p, pf_pending := []\<rparr>)
         | (Err e, p) \<Rightarrow> (Err e, p))
     | (Err e, p) \<Rightarrow> (Err e, (snd (fwp os TransactionAbort p))\<lparr>pf_pending := []\<rparr>)))"

text \<open>Closing the engine ends the dynamic session, and its filters with it.\<close>

definition platform_drop :: "'w Filtering \<Rightarrow> 'w Platform \<Rightarrow> 'w Platform" where
  "platform_drop os p = (snd (fwp os EngineClose p))\<lparr>pf_filters := [], pf_pending := []\<rparr>"

definition install_base :: "'w Filtering \<Rightarrow> IpAddr list \<Rightarrow> IpPrefix list \<Rightarrow> 'w Platform \<Rightarrow> (GuardError + unit) \<times> 'w Platform" where
  "install_base os servers bypassed p = (case fwp os SubLayerAdd p of
     (Err e, p) \<Rightarrow> (Err e, p) | (Ok _, p) \<Rightarrow> add_filters os (base_rules servers bypassed) None p)"

definition platform_engage :: "'w Filtering \<Rightarrow> IpAddr list \<Rightarrow> IpPrefix list \<Rightarrow> 'w Platform \<Rightarrow> (GuardError + unit) \<times> 'w Platform" where
  "platform_engage os servers bypassed p = (case fwp os EngineOpen p of
     (Err e, p) \<Rightarrow> (Err e, p)
   | (Ok _, p) \<Rightarrow> (case transaction os (install_base os servers bypassed) p of
       (Ok _, p) \<Rightarrow> (Ok (), p) | (Err e, p) \<Rightarrow> (Err e, platform_drop os p)))"

definition platform_admit :: "'w Filtering \<Rightarrow> rstr \<Rightarrow> 'w Platform \<Rightarrow> (GuardError + unit) \<times> 'w Platform" where
  "platform_admit os interface p = (case fwp_luid os interface (pf_env p) of
     (None, w) \<Rightarrow> (Err (InterfaceNotFound interface), p\<lparr>pf_env := w\<rparr>)
   | (Some luid, w) \<Rightarrow> transaction os (add_filters os tunnel_rules (Some luid)) (p\<lparr>pf_env := w\<rparr>))"

subsection \<open>The guard\<close>

record 'w LeakGuard =
  lg_platform :: "'w Platform"
  lg_admitted :: bool

definition guard_engage :: "'w Filtering \<Rightarrow> IpAddr list \<Rightarrow> IpPrefix list \<Rightarrow> 'w \<Rightarrow> (GuardError + 'w LeakGuard) \<times> 'w Platform" where
  "guard_engage os servers bypassed w =
     (case platform_engage os servers bypassed \<lparr>pf_env = w, pf_filters = [], pf_pending = []\<rparr> of
        (Err e, p) \<Rightarrow> (Err e, p)
      | (Ok _, p) \<Rightarrow> (Ok \<lparr>lg_platform = p, lg_admitted = False\<rparr>, p))"

definition guard_admit :: "'w Filtering \<Rightarrow> rstr \<Rightarrow> 'w LeakGuard \<Rightarrow> (GuardError + unit) \<times> 'w LeakGuard" where
  "guard_admit os interface g = (if lg_admitted g then (Ok (), g)
     else (case platform_admit os interface (lg_platform g) of
       (Err e, p) \<Rightarrow> (Err e, g\<lparr>lg_platform := p\<rparr>)
     | (Ok _, p) \<Rightarrow> (Ok (), g\<lparr>lg_platform := p, lg_admitted := True\<rparr>)))"

text \<open>The tunnel asks again until its interface exists.\<close>

fun admit_attempts :: "'w Filtering \<Rightarrow> rstr list \<Rightarrow> 'w LeakGuard \<Rightarrow> 'w LeakGuard" where
  "admit_attempts os [] g = g"
| "admit_attempts os (interface # r) g = admit_attempts os r (snd (guard_admit os interface g))"

subsection \<open>What filters decide\<close>

record Connection =
  local_interface :: nat
  is_loopback :: bool
  remote_ip :: IpAddr
  remote_port :: nat

fun holds_for :: "Condition \<Rightarrow> nat option \<Rightarrow> Connection \<Rightarrow> bool" where
  "holds_for TunnelInterface luid c \<longleftrightarrow> luid = Some (local_interface c)"
| "holds_for Loopback luid c \<longleftrightarrow> is_loopback c"
| "holds_for (RemoteAddress a) luid c \<longleftrightarrow> remote_ip c = a"
| "holds_for (RemotePort p) luid c \<longleftrightarrow> remote_port c = p"
| "holds_for (RemoteIpv6Prefix a l) luid c \<longleftrightarrow>
     prefix_mask (remote_ip c) l = prefix_mask (V6 a) l"
| "holds_for Everything luid c \<longleftrightarrow> True"

definition applies :: "Connection \<Rightarrow> filter_entry \<Rightarrow> bool" where
  "applies c f \<longleftrightarrow> rule_family (fst f) = guard_family (remote_ip c) \<and> holds_for (rule_condition (fst f)) (snd f) c"

abbreviation weight_of :: "filter_entry \<Rightarrow> nat" where
  "weight_of f \<equiv> rule_weight (fst f)"

text \<open>The heaviest filters that apply decide; a connection no filter speaks of is let through.\<close>

definition verdicts :: "filter_entry list \<Rightarrow> Connection \<Rightarrow> GuardAction set" where
  "verdicts fs c = (let ms = filter (applies c) fs in
     if ms = [] then {Permit}
     else {rule_action (fst f) | f. f \<in> set ms \<and> (\<forall>g \<in> set ms. weight_of g \<le> weight_of f)})"

definition stays_on_link :: "ipv6 \<Rightarrow> bool" where
  "stays_on_link a \<longleftrightarrow> (0xfe80 \<le> ipv6_segment 0 a \<and> ipv6_segment 0 a \<le> 0xfebf) \<or> ipv6_is_multicast a"

definition intended :: "nat option \<Rightarrow> IpAddr list \<Rightarrow> IpPrefix list \<Rightarrow> Connection \<Rightarrow> GuardAction" where
  "intended luid servers bypassed c =
     (if luid = Some (local_interface c) \<or> is_loopback c \<or> remote_ip c \<in> set servers then Permit
      else if remote_port c \<in> set NAME_LOOKUP_PORTS then Block
      else (case remote_ip c of
         V4 _ \<Rightarrow> Permit
       | V6 a \<Rightarrow> if stays_on_link a \<or> (\<exists>p \<in> set bypassed. covers p (V6 a)) then Permit else Block))"

subsection \<open>The rules decide as intended\<close>

lemmas weight_defs = TUNNEL_WEIGHT_def LOOPBACK_WEIGHT_def SERVER_WEIGHT_def LOOKUP_BLOCK_WEIGHT_def
  LOCAL_IPV6_WEIGHT_def IPV6_BLOCK_WEIGHT_def

lemma set_bypassed: "x \<in> set (bypassed_ipv6 ps) \<longleftrightarrow> (\<exists>p \<in> set ps. prefix_address p = V6 (fst x) \<and> prefix_length p = snd x)"
  by (induction ps) (auto split: IpAddr.splits)

definition installed :: "nat option \<Rightarrow> IpAddr list \<Rightarrow> IpPrefix list \<Rightarrow> filter_entry list" where
  "installed luid servers bypassed = map (\<lambda>r. (r, None)) (base_rules servers bypassed)
     @ (case luid of None \<Rightarrow> [] | Some l \<Rightarrow> map (\<lambda>r. (r, Some l)) tunnel_rules)"

text \<open>Six levels: at each, which connections a filter of it applies to.\<close>

definition level :: "nat option \<Rightarrow> IpAddr list \<Rightarrow> IpPrefix list \<Rightarrow> Connection \<Rightarrow> nat \<Rightarrow> bool" where
  "level luid servers bypassed c w \<longleftrightarrow>
     (w = 15 \<and> luid = Some (local_interface c)) \<or> (w = 14 \<and> is_loopback c)
   \<or> (w = 13 \<and> remote_ip c \<in> set servers) \<or> (w = 12 \<and> remote_port c \<in> set NAME_LOOKUP_PORTS)
   \<or> (w = 11 \<and> (\<exists>a. remote_ip c = V6 a \<and> (stays_on_link a \<or> (\<exists>p \<in> set bypassed. covers p (V6 a)))))
   \<or> (w = 10 \<and> \<not> is_ipv4 (remote_ip c))"

lemma link_prefixes:
  "prefix_mask (V6 a) 10 = prefix_mask (V6 (0xfe80 * 2 ^ 112)) 10 \<longleftrightarrow> 0xfe80 \<le> ipv6_segment 0 a \<and> ipv6_segment 0 a \<le> 0xfebf"
  "prefix_mask (V6 a) 8 = prefix_mask (V6 (0xff00 * 2 ^ 112)) 8 \<longleftrightarrow> ipv6_is_multicast a"
proof -
  have split: "unat a div 2 ^ 118 = ipv6_segment 0 a div 64" "unat a div 2 ^ 120 = ipv6_segment 0 a div 256"
    unfolding segment0_div by (simp_all flip: div_mult2_eq)
  have "ipv6_segment 0 a div 64 = 1018 \<longleftrightarrow> 0xfe80 \<le> ipv6_segment 0 a \<and> ipv6_segment 0 a \<le> 0xfebf" by auto
  then show "prefix_mask (V6 a) 10 = prefix_mask (V6 (0xfe80 * 2 ^ 112)) 10 \<longleftrightarrow> 0xfe80 \<le> ipv6_segment 0 a \<and> ipv6_segment 0 a \<le> 0xfebf"
    unfolding prefix_mask_word IpAddr.inject word_mask_eq by (simp add: split(1) [simplified])
  show "prefix_mask (V6 a) 8 = prefix_mask (V6 (0xff00 * 2 ^ 112)) 8 \<longleftrightarrow> ipv6_is_multicast a"
    unfolding prefix_mask_word IpAddr.inject word_mask_eq ipv6_is_multicast_def by (simp add: split(2) [simplified])
qed

lemma bypass_prefix:
  assumes "prefix_ok p" "prefix_address p = V6 n"
  shows "prefix_mask (V6 a) (prefix_length p) = prefix_mask (V6 n) (prefix_length p) \<longleftrightarrow> covers p (V6 a)"
  using assms unfolding covers_def prefix_ok_def by metis

lemma base_rules_set:
  "r \<in> set (base_rules servers bypassed) \<longleftrightarrow>
     (\<exists>f. r = guard_rule f Permit Loopback 14)
   \<or> (\<exists>f. \<exists>port \<in> set NAME_LOOKUP_PORTS. r = guard_rule f Block (RemotePort port) 12)
   \<or> (\<exists>s \<in> set servers. r = guard_rule (guard_family s) Permit (RemoteAddress s) 13)
   \<or> r = guard_rule GuardV6 Permit (RemoteIpv6Prefix (0xfe80 * 2 ^ 112) 10) 11
   \<or> r = guard_rule GuardV6 Permit (RemoteIpv6Prefix (0xff00 * 2 ^ 112) 8) 11
   \<or> (\<exists>p \<in> set bypassed. \<exists>n. prefix_address p = V6 n \<and> r = guard_rule GuardV6 Permit (RemoteIpv6Prefix n (prefix_length p)) 11)
   \<or> r = guard_rule GuardV6 Block Everything 10"
proof -
  have fam: "set GUARD_FAMILIES = UNIV" using GuardFamily.exhaust by (auto simp: GUARD_FAMILIES_def)
  have "(\<exists>x \<in> set (bypassed_ipv6 bypassed). r = guard_rule GuardV6 Permit (RemoteIpv6Prefix (fst x) (snd x)) 11)
     \<longleftrightarrow> (\<exists>p \<in> set bypassed. \<exists>n. prefix_address p = V6 n \<and> r = guard_rule GuardV6 Permit (RemoteIpv6Prefix n (prefix_length p)) 11)"
    unfolding Bex_def [of "set (bypassed_ipv6 bypassed)"] set_bypassed by force
  then show ?thesis unfolding base_rules_def weight_defs set_append set_concat set_map fam case_prod_beta by auto
qed

lemma base_rules_bex:
  "(\<exists>r \<in> set (base_rules servers bypassed). Q r) \<longleftrightarrow>
     (\<exists>f. Q (guard_rule f Permit Loopback 14))
   \<or> (\<exists>f. \<exists>port \<in> set NAME_LOOKUP_PORTS. Q (guard_rule f Block (RemotePort port) 12))
   \<or> (\<exists>s \<in> set servers. Q (guard_rule (guard_family s) Permit (RemoteAddress s) 13))
   \<or> Q (guard_rule GuardV6 Permit (RemoteIpv6Prefix (0xfe80 * 2 ^ 112) 10) 11)
   \<or> Q (guard_rule GuardV6 Permit (RemoteIpv6Prefix (0xff00 * 2 ^ 112) 8) 11)
   \<or> (\<exists>p \<in> set bypassed. \<exists>n. prefix_address p = V6 n \<and> Q (guard_rule GuardV6 Permit (RemoteIpv6Prefix n (prefix_length p)) 11))
   \<or> Q (guard_rule GuardV6 Block Everything 10)"
  unfolding Bex_def [of "set (base_rules servers bypassed)"] base_rules_set by blast

lemma installed_actions:
  "f \<in> set (installed luid servers bypassed) \<Longrightarrow>
     rule_action (fst f) = (if weight_of f = 12 \<or> weight_of f = 10 then Block else Permit)"
  unfolding installed_def set_append set_map
  by (auto simp: base_rules_set guard_rule_def tunnel_rules_def weight_defs split: option.splits)

lemma family_cases: "guard_family a = GuardV6 \<longleftrightarrow> (\<exists>b. a = V6 b)" "is_ipv4 a \<longleftrightarrow> (\<exists>b. a = V4 b)"
  by (cases a; simp)+

lemma applies_rule [simp]: "applies c (guard_rule f a k w, l) \<longleftrightarrow> f = guard_family (remote_ip c) \<and> holds_for k l c"
  "weight_of (guard_rule f a k w, l) = w" "rule_weight (guard_rule f a k w) = w"
  by (auto simp: applies_def guard_rule_def)

lemma base_level:
  assumes "\<forall>p \<in> set bypassed. prefix_ok p" "w \<noteq> 15"
  shows "(\<exists>r \<in> set (base_rules servers bypassed). applies c (r, None) \<and> rule_weight r = w) \<longleftrightarrow> level luid servers bypassed c w"
proof -
  have cov: "\<exists>p \<in> set bypassed. covers p (V6 a)" if "p \<in> set bypassed" "prefix_address p = V6 n"
      "prefix_mask (V6 a) (prefix_length p) = prefix_mask (V6 n) (prefix_length p)" for a p n
    using that assms(1) bypass_prefix by blast
  have voc: "\<exists>p \<in> set bypassed. \<exists>n. prefix_address p = V6 n \<and> prefix_mask (V6 a) (prefix_length p) = prefix_mask (V6 n) (prefix_length p)"
    if inn: "p \<in> set bypassed" and cov: "covers p (V6 a)" for a p
  proof -
    obtain n where "prefix_address p = V6 n" using covers_family [OF cov] by (cases "prefix_address p") auto
    then show ?thesis using inn cov assms(1) bypass_prefix by blast
  qed
  have v6: "(\<exists>p \<in> set bypassed. \<exists>n. prefix_address p = V6 n \<and> prefix_mask (V6 a) (prefix_length p) = prefix_mask (V6 n) (prefix_length p))
      \<longleftrightarrow> (\<exists>p \<in> set bypassed. covers p (V6 a))" for a using cov voc by blast
  show ?thesis
  proof (cases "remote_ip c")
    case (V4 b)
    then show ?thesis using assms(2) unfolding base_rules_bex level_def by (auto simp: family_cases)
  next
    case (V6 b)
    have "(\<exists>r \<in> set (base_rules servers bypassed). applies c (r, None) \<and> rule_weight r = w) \<longleftrightarrow>
        (w = 14 \<and> is_loopback c) \<or> (w = 12 \<and> remote_port c \<in> set NAME_LOOKUP_PORTS) \<or> (w = 13 \<and> V6 b \<in> set servers)
      \<or> (w = 11 \<and> (stays_on_link b \<or> (\<exists>p \<in> set bypassed. covers p (V6 b)))) \<or> w = 10"
      unfolding base_rules_bex stays_on_link_def link_prefixes [symmetric] v6 [symmetric]
      using V6 by (auto simp del: prefix_mask.simps)
    then show ?thesis using assms(2) V6 by (auto simp: level_def)
  qed
qed

lemma installed_level:
  assumes "\<forall>p \<in> set bypassed. prefix_ok p"
  shows "(\<exists>f \<in> set (installed luid servers bypassed). applies c f \<and> weight_of f = w) \<longleftrightarrow> level luid servers bypassed c w"
proof (cases "w = 15")
  case True
  have "\<not> (\<exists>r \<in> set (base_rules servers bypassed). rule_weight r = 15)" by (auto simp: base_rules_set)
  then show ?thesis using True
    by (cases "remote_ip c"; cases luid)
      (auto simp: installed_def tunnel_rules_def GUARD_FAMILIES_def weight_defs level_def bex_Un)
next
  case False
  then have "(\<exists>f \<in> set (installed luid servers bypassed). applies c f \<and> weight_of f = w) \<longleftrightarrow>
      (\<exists>r \<in> set (base_rules servers bypassed). applies c (r, None) \<and> rule_weight r = w)"
    by (auto simp: installed_def tunnel_rules_def weight_defs split: option.splits)
  then show ?thesis using base_level [OF assms False] by simp
qed

lemma single_value: "f \<in> S \<Longrightarrow> Q f \<Longrightarrow> (\<And>g. g \<in> S \<Longrightarrow> Q g \<Longrightarrow> h g = x) \<Longrightarrow> {h g | g. g \<in> S \<and> Q g} = {x}"
  by blast

lemma verdicts_level:
  assumes ok: "\<forall>p \<in> set bypassed. prefix_ok p" and top: "level luid servers bypassed c w"
    and above: "\<And>v. level luid servers bypassed c v \<Longrightarrow> v \<le> w"
  shows "verdicts (installed luid servers bypassed) c = {if w = 12 \<or> w = 10 then Block else Permit}"
proof -
  let ?ms = "filter (applies c) (installed luid servers bypassed)"
  obtain f where f: "f \<in> set ?ms" "weight_of f = w" using top unfolding installed_level [OF ok, symmetric] by auto
  have le: "weight_of g \<le> w" if "g \<in> set ?ms" for g
    using that above [of "weight_of g"] unfolding installed_level [OF ok, symmetric] by auto
  have "{rule_action (fst f) | f. f \<in> set ?ms \<and> (\<forall>g \<in> set ?ms. weight_of g \<le> weight_of f)}
      = {rule_action (fst f) | f. f \<in> set ?ms \<and> weight_of f = w}"
    using f le by (metis (no_types, opaque_lifting) le_antisym)
  also have "\<dots> = {if w = 12 \<or> w = 10 then Block else Permit}"
  proof -
    have "rule_action (fst g) = (if w = 12 \<or> w = 10 then Block else Permit)" if "g \<in> set ?ms" "weight_of g = w" for g
      using that installed_actions [of g] by auto
    then show ?thesis using f by (intro single_value [where f = f]) auto
  qed
  finally have "{rule_action (fst f) | f. f \<in> set ?ms \<and> (\<forall>g \<in> set ?ms. weight_of g \<le> weight_of f)}
      = {if w = 12 \<or> w = 10 then Block else Permit}" .
  moreover have "?ms \<noteq> []" using f(1) by (metis empty_iff empty_set)
  ultimately show ?thesis unfolding verdicts_def Let_def by simp
qed

lemma verdicts_no_level:
  assumes "\<forall>p \<in> set bypassed. prefix_ok p" "\<And>v. \<not> level luid servers bypassed c v"
  shows "verdicts (installed luid servers bypassed) c = {Permit}"
proof -
  have "filter (applies c) (installed luid servers bypassed) = []"
    using assms(2) unfolding installed_level [OF assms(1), symmetric] by (auto simp: filter_empty_conv)
  then show ?thesis by (simp add: verdicts_def)
qed

lemma verdicts_intended:
  assumes ok: "\<forall>p \<in> set bypassed. prefix_ok p"
  shows "verdicts (installed luid servers bypassed) c = {intended luid servers bypassed c}"
proof -
  let ?l = "level luid servers bypassed c"
  note top = verdicts_level [OF ok]
  consider "?l 15" | "\<not> ?l 15" "?l 14" | "\<not> ?l 15" "\<not> ?l 14" "?l 13" | "\<not> ?l 15" "\<not> ?l 14" "\<not> ?l 13" "?l 12"
    | "\<not> ?l 15" "\<not> ?l 14" "\<not> ?l 13" "\<not> ?l 12" "?l 11" | "\<not> ?l 15" "\<not> ?l 14" "\<not> ?l 13" "\<not> ?l 12" "\<not> ?l 11" "?l 10"
    | "\<And>v. \<not> ?l v"
    by (auto simp: level_def)
  then show ?thesis
  proof cases
    case 1 then show ?thesis by (subst top [of _ _ _ 15]) (auto simp: level_def intended_def)
  next
    case 2 then show ?thesis by (subst top [of _ _ _ 14]) (auto simp: level_def intended_def)
  next
    case 3 then show ?thesis by (subst top [of _ _ _ 13]) (auto simp: level_def intended_def)
  next
    case 4 then show ?thesis by (subst top [of _ _ _ 12]) (auto simp: level_def intended_def)
  next
    case 5 then show ?thesis by (subst top [of _ _ _ 11]) (auto simp: level_def intended_def)
  next
    case 6 then show ?thesis by (subst top [of _ _ _ 10]) (auto simp: level_def intended_def split: IpAddr.splits)
  next
    case 7
    have "\<not> ?l 15" "\<not> ?l 14" "\<not> ?l 13" "\<not> ?l 12" "\<not> ?l 11" "\<not> ?l 10" using 7 by auto
    then show ?thesis unfolding verdicts_no_level [OF ok 7] by (auto simp: level_def intended_def split: IpAddr.splits)
  qed
qed

subsection \<open>The guard installs them\<close>

lemma fwp_cases: "fwp os call p = (r, p') \<Longrightarrow> pf_filters p' = pf_filters p \<and> pf_pending p' = pf_pending p"
  by (auto simp: fwp_def split: prod.splits bool.splits)

lemma snd_fwp [simp]: "pf_filters (snd (fwp os call p)) = pf_filters p"
  using fwp_cases [of os call p] by (metis prod.collapse)

lemma add_filters_ok:
  "add_filters os rules luid p = (r, p') \<Longrightarrow> pf_filters p' = pf_filters p
     \<and> (r = Ok () \<longrightarrow> pf_pending p' = pf_pending p @ map (\<lambda>rule. (rule, luid)) rules)"
proof (induction rules arbitrary: p)
  case (Cons rule rules)
  obtain q p1 where q: "add_filter os rule luid p = (q, p1)" by fastforce
  have p1: "pf_filters p1 = pf_filters p" "q = Ok () \<Longrightarrow> pf_pending p1 = pf_pending p @ [(rule, luid)]"
    using q by (auto simp: add_filter_def dest!: fwp_cases split: if_splits prod.splits sum.splits)
  show ?case using Cons.prems Cons.IH [of p1] p1 q by (auto split: sum.splits)
qed simp

lemma transaction_ok:
  assumes body: "\<And>p r p'. body p = (r, p') \<Longrightarrow> pf_filters p' = pf_filters p \<and> (r = Ok () \<longrightarrow> pf_pending p' = pf_pending p @ fs)"
  shows "transaction os body p = (r, p') \<Longrightarrow> pf_filters p' = pf_filters p @ (if r = Ok () then fs else [])"
  unfolding transaction_def by (auto dest!: fwp_cases body split: prod.splits sum.splits)

lemma install_base_ok:
  "install_base os servers bypassed p = (r, p') \<Longrightarrow> pf_filters p' = pf_filters p
     \<and> (r = Ok () \<longrightarrow> pf_pending p' = pf_pending p @ installed None servers bypassed)"
  unfolding install_base_def installed_def by (auto dest!: fwp_cases add_filters_ok split: prod.splits sum.splits)

lemma transaction_base:
  "transaction os (install_base os servers bypassed) p = (r, p') \<Longrightarrow>
     pf_filters p' = pf_filters p @ (if r = Ok () then installed None servers bypassed else [])"
  by (rule transaction_ok [OF install_base_ok])

lemma transaction_tunnel:
  "transaction os (add_filters os tunnel_rules (Some l)) p = (r, p') \<Longrightarrow>
     pf_filters p' = pf_filters p @ (if r = Ok () then map (\<lambda>r. (r, Some l)) tunnel_rules else [])"
  by (rule transaction_ok [OF add_filters_ok])

lemma guard_engage_ok:
  "guard_engage os servers bypassed w = (Ok g, p) \<Longrightarrow>
     pf_filters (lg_platform g) = installed None servers bypassed \<and> \<not> lg_admitted g"
  unfolding guard_engage_def platform_engage_def
  by (auto dest!: fwp_cases transaction_base split: prod.splits sum.splits)

lemma guard_admit_step:
  assumes "pf_filters (lg_platform g) = installed luid servers bypassed" "lg_admitted g \<longleftrightarrow> luid \<noteq> None"
    and run: "guard_admit os interface g = (r, g')"
  shows "\<exists>luid'. pf_filters (lg_platform g') = installed luid' servers bypassed \<and> (lg_admitted g' \<longleftrightarrow> luid' \<noteq> None)"
proof (cases "lg_admitted g")
  case True
  then have "g' = g" using run by (simp add: guard_admit_def)
  then show ?thesis using assms by blast
next
  case False
  obtain q p' where q: "platform_admit os interface (lg_platform g) = (q, p')" by fastforce
  have "pf_filters p' = installed None servers bypassed \<and> q \<noteq> Ok () \<or> (\<exists>l. pf_filters p' = installed (Some l) servers bypassed \<and> q = Ok ())"
    using q False assms unfolding platform_admit_def
    by (auto simp: installed_def dest!: transaction_tunnel split: prod.splits option.splits if_splits)
  then show ?thesis using run q False unfolding guard_admit_def by (cases q) auto
qed

lemma admit_attempts_ok:
  "pf_filters (lg_platform g) = installed luid servers bypassed \<Longrightarrow> lg_admitted g = (luid \<noteq> None) \<Longrightarrow>
   \<exists>luid'. pf_filters (lg_platform (admit_attempts os is g)) = installed luid' servers bypassed
     \<and> (lg_admitted (admit_attempts os is g) \<longleftrightarrow> luid' \<noteq> None)"
proof (induction "is" arbitrary: g luid)
  case (Cons i r)
  show ?case using guard_admit_step [OF Cons.prems(1) Cons.prems(2), of os i] Cons.IH
    by (metis admit_attempts.simps(2) prod.collapse)
qed auto


definition sample_filtering :: "nat Filtering" where
  "sample_filtering = \<lparr>fwp_call = (\<lambda>call w. (True, Suc w)),
     fwp_luid = (\<lambda>interface w. (if w < 30 then None else Some 7, w + 20))\<rparr>"

lemma sample_engaged: "\<exists>g p. guard_engage sample_filtering [V4 1] [prefix_host (V6 9)] 0 = (Ok g, p)"
  by (simp add: guard_engage_def platform_engage_def transaction_def install_base_def base_rules_def
      GUARD_FAMILIES_def NAME_LOOKUP_PORTS_def prefix_host_def add_filter_def guard_rule_def fwp_def sample_filtering_def)


end
