(* ===== verification/Route_Keeper.thy ===== *)
theory Route_Keeper
  imports Tunnel_Protocol Client_Strategy
begin

text \<open>
  How destinations outside the tunnel keep to the physical network (crates/ket-client-core,
  \<open>route_keeper\<close>): what to change (\<open>plan.rs\<close>), and the keeper that engages, refreshes and
  releases (\<open>mod.rs\<close>). The system's routing table is an argument; the keeper's state carries,
  beside the source's fields, the changes the system made and those it refused, newest first.
\<close>

subsection \<open>The plan\<close>

datatype Family = FamilyV4 | FamilyV6

fun family_of :: "IpAddr \<Rightarrow> Family" where
  "family_of (V4 a) = FamilyV4"
| "family_of (V6 a) = FamilyV6"

record DefaultRoute =
  dr_family :: Family
  dr_interface :: rstr
  dr_interface_index :: nat
  dr_gateway :: "IpAddr option"
  dr_metric :: nat

record OnLinkNetwork =
  on_prefix :: IpPrefix
  on_interface :: rstr

datatype ServerPath = Via DefaultRoute | Unreachable

datatype RouteAction =
  Install IpPrefix ServerPath "ServerPath option"
| Remove IpPrefix ServerPath

text \<open>\<open>Iterator::min_by_key\<close>: the first of the least.\<close>

fun min_by_key :: "('a \<Rightarrow> 'k::linorder) \<Rightarrow> 'a list \<Rightarrow> 'a option" where
  "min_by_key key [] = None"
| "min_by_key key (x # xs) = (case min_by_key key xs of
     None \<Rightarrow> Some x | Some y \<Rightarrow> if key x \<le> key y then Some x else Some y)"

definition route_key :: "DefaultRoute \<Rightarrow> nat \<times> nat" where
  "route_key route = (dr_metric route, dr_interface_index route)"

definition best_default :: "DefaultRoute list \<Rightarrow> Family \<Rightarrow> rstr \<Rightarrow> DefaultRoute option" where
  "best_default routes family tunnel_interface = min_by_key route_key
     (filter (\<lambda>route. dr_family route = family \<and> dr_interface route \<noteq> tunnel_interface) routes)"

definition attached :: "OnLinkNetwork list \<Rightarrow> rstr \<Rightarrow> IpPrefix \<Rightarrow> bool" where
  "attached on_link tunnel_interface destination \<longleftrightarrow> list_ex (\<lambda>network. on_interface network \<noteq> tunnel_interface
     \<and> prefix_length (on_prefix network) > 0 \<and> prefix_contains (on_prefix network) destination) on_link"

type_synonym applied_routes = "((IpAddr \<times> nat) \<times> ServerPath) list"

definition plan_one ::
  "DefaultRoute list \<Rightarrow> OnLinkNetwork list \<Rightarrow> applied_routes \<Rightarrow> rstr \<Rightarrow> IpPrefix \<Rightarrow> RouteAction option" where
  "plan_one routes on_link applied tunnel_interface destination =
    (let current = map_of applied (prefix_key destination)
     in if attached on_link tunnel_interface destination
        then map_option (\<lambda>path. Remove destination path) current
        else let desired = (case best_default routes (family_of (prefix_address destination)) tunnel_interface of
               None \<Rightarrow> Unreachable | Some route \<Rightarrow> Via route)
             in if current \<noteq> Some desired then Some (Install destination desired current) else None)"

definition plan :: "DefaultRoute list \<Rightarrow> OnLinkNetwork list \<Rightarrow> IpPrefix list \<Rightarrow> applied_routes \<Rightarrow> rstr \<Rightarrow> RouteAction list" where
  "plan routes on_link destinations applied tunnel_interface =
     List.map_filter (plan_one routes on_link applied tunnel_interface) destinations"

definition prefix_of_key :: "IpAddr \<times> nat \<Rightarrow> IpPrefix" where
  "prefix_of_key k = \<lparr>prefix_address = fst k, prefix_length = snd k\<rparr>"

definition plan_release :: "applied_routes \<Rightarrow> RouteAction list" where
  "plan_release applied = map (\<lambda>(destination, path). Remove (prefix_of_key destination) path) applied"

subsection \<open>The keeper\<close>

record 'w RouteSystem =
  sys_default_routes :: "'w \<Rightarrow> (rstr + DefaultRoute list) \<times> 'w"
  sys_on_link_networks :: "'w \<Rightarrow> (rstr + OnLinkNetwork list) \<times> 'w"
  sys_apply :: "RouteAction \<Rightarrow> 'w \<Rightarrow> (rstr + unit) \<times> 'w"
  sys_clear_stale :: "'w \<Rightarrow> (rstr + unit) \<times> 'w"

record 'w KeeperState =
  kp_system :: 'w
  kp_destinations :: "IpPrefix list"
  kp_tunnel_interface :: rstr
  kp_applied :: applied_routes
  kp_report :: NetworkReport
  kp_done :: "RouteAction list"
  kp_refused :: "RouteAction list"

definition system_apply :: "'w RouteSystem \<Rightarrow> RouteAction \<Rightarrow> 'w KeeperState \<Rightarrow> (rstr + unit) \<times> 'w KeeperState" where
  "system_apply sys action k = (case sys_apply sys action (kp_system k) of
     (Ok _, w) \<Rightarrow> (Ok (), k\<lparr>kp_system := w, kp_done := action # kp_done k\<rparr>)
   | (Err e, w) \<Rightarrow> (Err e, k\<lparr>kp_system := w, kp_refused := action # kp_refused k\<rparr>))"

fun record_action :: "RouteAction \<Rightarrow> 'w KeeperState \<Rightarrow> 'w KeeperState" where
  "record_action (Install destination path replacing) k =
     k\<lparr>kp_applied := bt_insert (prefix_key destination) path (kp_applied k)\<rparr>"
| "record_action (Remove destination path) k = k\<lparr>kp_applied := bt_remove (prefix_key destination) (kp_applied k)\<rparr>"

fun moves :: "RouteAction \<Rightarrow> bool" where
  "moves (Install destination path replacing) \<longleftrightarrow> replacing \<noteq> None"
| "moves (Remove destination path) \<longleftrightarrow> True"

fun apply_actions :: "'w RouteSystem \<Rightarrow> RouteAction list \<Rightarrow> bool \<Rightarrow> 'w KeeperState \<Rightarrow> (rstr + bool) \<times> 'w KeeperState" where
  "apply_actions sys [] moved k = (Ok moved, k)"
| "apply_actions sys (action # actions) moved k = (case system_apply sys action k of
     (Err e, k) \<Rightarrow> (Err e, k)
   | (Ok _, k) \<Rightarrow> apply_actions sys actions (moved \<or> moves action) (record_action action k))"

definition next_report :: "bool \<Rightarrow> 'w KeeperState \<Rightarrow> NetworkReport" where
  "next_report moved k = \<lparr>generation = (generation (kp_report k) + (if moved then 1 else 0)) mod 2 ^ 64,
     offline = (kp_applied k \<noteq> [] \<and> list_all (\<lambda>(_, path). path = Unreachable) (kp_applied k))\<rparr>"

definition refresh :: "'w RouteSystem \<Rightarrow> 'w KeeperState \<Rightarrow> (rstr + unit) \<times> 'w KeeperState" where
  "refresh sys k = (case sys_default_routes sys (kp_system k) of
     (Err e, w) \<Rightarrow> (Err e, k\<lparr>kp_system := w\<rparr>)
   | (Ok routes, w) \<Rightarrow> (case sys_on_link_networks sys w of
       (Err e, w) \<Rightarrow> (Err e, k\<lparr>kp_system := w\<rparr>)
     | (Ok on_link, w) \<Rightarrow>
         let k = k\<lparr>kp_system := w\<rparr>;
             actions = plan routes on_link (kp_destinations k) (kp_applied k) (kp_tunnel_interface k)
         in (case apply_actions sys actions False k of
           (Err e, k) \<Rightarrow> (Err e, k)
         | (Ok moved, k) \<Rightarrow> (Ok (), k\<lparr>kp_report := next_report moved k\<rparr>))))"

fun release_actions :: "'w RouteSystem \<Rightarrow> RouteAction list \<Rightarrow> 'w KeeperState \<Rightarrow> 'w KeeperState" where
  "release_actions sys [] k = k"
| "release_actions sys (action # actions) k = release_actions sys actions (snd (system_apply sys action k))"

definition keeper_release :: "'w RouteSystem \<Rightarrow> 'w KeeperState \<Rightarrow> 'w KeeperState" where
  "keeper_release sys k = (release_actions sys (plan_release (kp_applied k)) k)\<lparr>kp_applied := []\<rparr>"

definition keeper_new :: "IpPrefix list \<Rightarrow> rstr \<Rightarrow> 'w \<Rightarrow> 'w KeeperState" where
  "keeper_new destinations tunnel_interface w = \<lparr>kp_system = w, kp_destinations = destinations,
     kp_tunnel_interface = tunnel_interface, kp_applied = [], kp_report = \<lparr>generation = 0, offline = False\<rparr>,
     kp_done = [], kp_refused = []\<rparr>"

definition engage_with :: "'w RouteSystem \<Rightarrow> IpPrefix list \<Rightarrow> rstr \<Rightarrow> 'w \<Rightarrow> (rstr + unit) \<times> 'w KeeperState" where
  "engage_with sys destinations tunnel_interface w = (case sys_clear_stale sys w of
     (Err e, w) \<Rightarrow> (Err e, keeper_new destinations tunnel_interface w)
   | (Ok _, w) \<Rightarrow> (case refresh sys (keeper_new destinations tunnel_interface w) of
       (Err e, k) \<Rightarrow> (Err e, keeper_release sys k)
     | (Ok _, k) \<Rightarrow> (Ok (), k)))"

definition add_destination :: "IpPrefix list \<Rightarrow> IpPrefix \<Rightarrow> IpPrefix list" where
  "add_destination destinations p = (if p \<in> set destinations then destinations else destinations @ [p])"

definition keeper_destinations :: "IpAddr list \<Rightarrow> IpPrefix list \<Rightarrow> IpPrefix list" where
  "keeper_destinations servers bypassed = foldl add_destination (map prefix_host servers) bypassed"

definition keeper_engage :: "'w RouteSystem \<Rightarrow> IpAddr list \<Rightarrow> IpPrefix list \<Rightarrow> rstr \<Rightarrow> 'w \<Rightarrow> (rstr + unit) \<times> 'w KeeperState" where
  "keeper_engage sys servers bypassed tunnel_interface w =
     engage_with sys (keeper_destinations servers bypassed) tunnel_interface w"

text \<open>The task that refreshes: a failure is logged and the next tick tries again; without
  destinations it is not started.\<close>

fun keeper_ticks :: "'w RouteSystem \<Rightarrow> nat \<Rightarrow> 'w KeeperState \<Rightarrow> 'w KeeperState" where
  "keeper_ticks sys 0 k = k"
| "keeper_ticks sys (Suc n) k = (if kp_destinations k = [] then k else keeper_ticks sys n (snd (refresh sys k)))"

subsection \<open>The physical network\<close>

datatype NetworkKind = Wifi | Ethernet | Cellular | OtherNetwork | NoNetwork | UnknownNetwork

definition best_physical :: "DefaultRoute list \<Rightarrow> rstr \<Rightarrow> DefaultRoute option" where
  "best_physical routes tunnel_interface = (case best_default routes FamilyV4 tunnel_interface of
     Some route \<Rightarrow> Some route | None \<Rightarrow> best_default routes FamilyV6 tunnel_interface)"

text \<open>How an address prints and what the neighbour table says of a gateway are arguments.\<close>

definition physical_network ::
  "(IpAddr \<Rightarrow> rstr) \<Rightarrow> (IpAddr \<Rightarrow> rstr option) \<Rightarrow> DefaultRoute list option \<Rightarrow> rstr \<Rightarrow> rstr option" where
  "physical_network to_string gateway_hardware physical_routes tunnel_interface = (case physical_routes of
     None \<Rightarrow> None
   | Some routes \<Rightarrow> map_option (\<lambda>route.
       let gateway = (case dr_gateway route of None \<Rightarrow> [] | Some g \<Rightarrow> to_string g);
           hardware = (case Option.bind (dr_gateway route) gateway_hardware of None \<Rightarrow> [] | Some h \<Rightarrow> h)
       in dr_interface route @ [10] @ gateway @ [10] @ hardware) (best_physical routes tunnel_interface))"

definition network_kind :: "(DefaultRoute \<Rightarrow> NetworkKind) \<Rightarrow> DefaultRoute list option \<Rightarrow> rstr \<Rightarrow> NetworkKind" where
  "network_kind interface_kind physical_routes tunnel = (case physical_routes of
     None \<Rightarrow> UnknownNetwork
   | Some routes \<Rightarrow> (case best_physical routes tunnel of None \<Rightarrow> NoNetwork | Some route \<Rightarrow> interface_kind route))"

subsection \<open>Ket's routes in the system\<close>

text \<open>What the changes the system made leave in its table, under Ket's tag.\<close>

fun table :: "RouteAction list \<Rightarrow> IpAddr \<times> nat \<Rightarrow> ServerPath option" where
  "table [] = Map.empty"
| "table (Install d p r # l) = (table l)(prefix_key d \<mapsto> p)"
| "table (Remove d p # l) = (table l)(prefix_key d := None)"

fun action_destination :: "RouteAction \<Rightarrow> IpPrefix" where
  "action_destination (Install d p r) = d"
| "action_destination (Remove d p) = d"

definition routes_known :: "'w KeeperState \<Rightarrow> bool" where
  "routes_known k \<longleftrightarrow> bt_ok (kp_applied k) \<and> map_of (kp_applied k) = table (kp_done k)
     \<and> fst ` set (kp_applied k) \<subseteq> prefix_key ` set (kp_destinations k)"

definition desired :: "DefaultRoute list \<Rightarrow> OnLinkNetwork list \<Rightarrow> rstr \<Rightarrow> IpPrefix \<Rightarrow> ServerPath option" where
  "desired routes on_link tunnel d = (if attached on_link tunnel d then None
     else Some (case best_default routes (family_of (prefix_address d)) tunnel of None \<Rightarrow> Unreachable | Some r \<Rightarrow> Via r))"

lemma prefix_key_inj [simp]: "prefix_key d = prefix_key d' \<longleftrightarrow> d = d'" "prefix_key (prefix_of_key x) = x" "prefix_of_key (prefix_key d) = d"
  by (auto simp: prefix_key_def prefix_of_key_def)

lemma key_notin: "d \<notin> set ds \<Longrightarrow> prefix_key d \<notin> prefix_key ` set ds"
  by auto

lemma min_by_key_Some:
  "min_by_key key xs = Some x \<Longrightarrow> x \<in> set xs \<and> (\<forall>y \<in> set xs. key x \<le> key y)"
proof (induction xs arbitrary: x)
  case (Cons a xs)
  show ?case
  proof (cases "min_by_key key xs")
    case None
    then have "xs = []" by (cases xs) (auto split: option.splits if_splits)
    then show ?thesis using Cons.prems by simp
  next
    case (Some y)
    then show ?thesis using Cons.prems Cons.IH [OF Some] by (auto split: if_splits dest: order_trans)
  qed
qed simp

lemma min_by_key_None [simp]: "min_by_key key xs = None \<longleftrightarrow> xs = []"
  by (cases xs) (auto split: option.splits if_splits)

lemma routes_known_update [simp]:
  "routes_known (k\<lparr>kp_system := w\<rparr>) = routes_known k" "routes_known (k\<lparr>kp_report := x\<rparr>) = routes_known k"
  by (simp_all add: routes_known_def)

lemma plan_one_desired:
  "plan_one routes on_link applied tunnel d =
     (let c = map_of applied (prefix_key d); want = desired routes on_link tunnel d in
      if c = want then None else (case want of None \<Rightarrow> Some (Remove d (the c)) | Some p \<Rightarrow> Some (Install d p c)))"
  by (auto simp: plan_one_def desired_def Let_def split: option.splits)

lemma plan_destinations: "a \<in> set (plan routes on_link ds applied tunnel) \<Longrightarrow> action_destination a \<in> set ds"
  by (auto simp: plan_def List.map_filter_def plan_one_desired Let_def split: if_splits option.splits)

lemma system_apply_cases:
  "system_apply sys a k = (r, k') \<Longrightarrow>
     kp_applied k' = kp_applied k \<and> kp_destinations k' = kp_destinations k \<and> kp_report k' = kp_report k
   \<and> kp_tunnel_interface k' = kp_tunnel_interface k
   \<and> (r = Ok () \<longrightarrow> kp_done k' = a # kp_done k \<and> kp_refused k' = kp_refused k)
   \<and> (r \<noteq> Ok () \<longrightarrow> kp_done k' = kp_done k \<and> kp_refused k' = a # kp_refused k)"
  by (auto simp: system_apply_def split: prod.splits sum.splits)

lemma record_action_fields [simp]:
  "kp_destinations (record_action a k) = kp_destinations k" "kp_report (record_action a k) = kp_report k"
  "kp_tunnel_interface (record_action a k) = kp_tunnel_interface k" "kp_done (record_action a k) = kp_done k"
  "kp_refused (record_action a k) = kp_refused k"
  by (cases a; simp)+

lemma record_action_known:
  assumes "routes_known k" "action_destination a \<in> set (kp_destinations k)" "system_apply sys a k = (Ok (), k')"
  shows "routes_known (record_action a k')"
proof -
  have k': "kp_applied k' = kp_applied k" "kp_destinations k' = kp_destinations k" "kp_done k' = a # kp_done k"
    using system_apply_cases [OF assms(3)] by auto
  have keys: "fst ` set (bt_remove x m) \<subseteq> fst ` set m" for x :: "IpAddr \<times> nat" and m :: applied_routes
    by (auto simp: bt_remove_def)
  show ?thesis
  proof (cases a)
    case (Remove d p)
    then show ?thesis using assms(1,2) k' subset_trans [OF keys [of "prefix_key d" "kp_applied k"]]
      by (simp add: routes_known_def bt_lookup_remove)
  qed (use assms(1,2) k' in \<open>auto simp: routes_known_def bt_keys_insert\<close>)
qed

lemma apply_actions_known:
  "apply_actions sys as moved k = (r, k') \<Longrightarrow> routes_known k \<Longrightarrow> (\<And>a. a \<in> set as \<Longrightarrow> action_destination a \<in> set (kp_destinations k)) \<Longrightarrow>
     routes_known k' \<and> kp_destinations k' = kp_destinations k \<and> kp_report k' = kp_report k \<and> kp_tunnel_interface k' = kp_tunnel_interface k"
proof (induction "as" arbitrary: k moved)
  case (Cons a "as")
  obtain q k1 where q: "system_apply sys a k = (q, k1)" by fastforce
  note k1 = system_apply_cases [OF q]
  show ?case
  proof (cases "q = Ok ()")
    case True
    have "routes_known (record_action a k1)"
      by (rule record_action_known [OF Cons.prems(2) Cons.prems(3) q [unfolded True]]) simp
    then show ?thesis using Cons.IH [of _ "record_action a k1"] Cons.prems(1,3) True q k1 by simp
  next
    case False
    then have "k' = k1" using Cons.prems(1) q by (auto split: sum.splits)
    then show ?thesis using k1 False Cons.prems(2) by (simp add: routes_known_def)
  qed
qed simp

text \<open>Along the plan each destination has the path it had or the path it should have.\<close>

lemma apply_plan:
  assumes "apply_actions sys (List.map_filter (plan_one routes on_link m tunnel) ds) moved k = (Ok mv, k')" "routes_known k"
    and "set ds \<subseteq> set (kp_destinations k)"
    and "\<And>d. d \<in> set ds \<Longrightarrow> table (kp_done k) (prefix_key d) \<in> {map_of m (prefix_key d), desired routes on_link tunnel d}"
  shows "(\<forall>d \<in> set ds. table (kp_done k') (prefix_key d) = desired routes on_link tunnel d)
    \<and> (\<forall>x. x \<notin> prefix_key ` set ds \<longrightarrow> table (kp_done k') x = table (kp_done k) x)
    \<and> (mv \<longleftrightarrow> moved \<or> (\<exists>d \<in> set ds. map_of m (prefix_key d) \<noteq> None \<and> map_of m (prefix_key d) \<noteq> desired routes on_link tunnel d))"
  (is "?P ds k moved")
  using assms
proof (induction ds arbitrary: k moved)
  case Nil
  then show ?case by (simp add: List.map_filter_def)
next
  case (Cons d ds)
  let ?want = "desired routes on_link tunnel" and ?c = "map_of m (prefix_key d)"
  show ?case
  proof (cases "plan_one routes on_link m tunnel d")
    case None
    then have same: "?c = ?want d" by (auto simp: plan_one_desired Let_def split: if_splits option.splits)
    have now: "table (kp_done k) (prefix_key d) = ?want d" using Cons.prems(4) [of d] same by simp
    have run: "apply_actions sys (List.map_filter (plan_one routes on_link m tunnel) ds) moved k = (Ok mv, k')"
      using Cons.prems(1) None by (simp add: List.map_filter_simps)
    have ih: "?P ds k moved" using Cons.IH [OF run] Cons.prems(2-4) by simp
    then have "table (kp_done k') (prefix_key d) = ?want d" using now by (cases "d \<in> set ds") (simp, metis (no_types) key_notin)
    then show ?thesis using ih same by (simp add: image_iff)
  next
    case (Some a)
    then have a: "?c \<noteq> ?want d" "a = (case ?want d of None \<Rightarrow> Remove d (the ?c) | Some p \<Rightarrow> Install d p ?c)"
      by (auto simp: plan_one_desired Let_def split: if_splits option.splits)
    then have mv: "moves a \<longleftrightarrow> ?c \<noteq> None" "action_destination a = d" by (auto split: option.splits)
    obtain k1 where k1: "system_apply sys a k = (Ok (), k1)"
        "apply_actions sys (List.map_filter (plan_one routes on_link m tunnel) ds) (moved \<or> moves a) (record_action a k1) = (Ok mv, k')"
      using Cons.prems(1) Some by (auto simp: List.map_filter_simps split: prod.splits sum.splits)
    note f = system_apply_cases [OF k1(1)]
    have tab: "table (kp_done k1) = (table (kp_done k))(prefix_key d := ?want d)"
      using f a(2) by (auto split: option.splits)
    have known: "routes_known (record_action a k1)"
      using record_action_known [OF Cons.prems(2) _ k1(1)] Cons.prems(3) mv(2) by simp
    have sub: "set ds \<subseteq> set (kp_destinations (record_action a k1))" using Cons.prems(3) f by simp
    have near: "table (kp_done (record_action a k1)) (prefix_key x) \<in> {map_of m (prefix_key x), ?want x}" if "x \<in> set ds" for x
      using Cons.prems(4) [of x] that by (cases "x = d") (auto simp: tab)
    have ih: "?P ds (record_action a k1) (moved \<or> moves a)" using Cons.IH [OF k1(2) known sub near] .
    then have "table (kp_done k') (prefix_key d) = ?want d"
      by (cases "d \<in> set ds") (simp, metis (no_types) key_notin tab record_action_fields(4) fun_upd_same)
    then show ?thesis using ih a(1) mv(1) tab by (simp add: image_iff)
  qed
qed

lemma refresh_cases:
  assumes "refresh sys k = (r, k')"
  obtains w e where "r = Err e" "k' = k\<lparr>kp_system := w\<rparr>"
  | routes w1 on_link w e where "r = Err e" "sys_default_routes sys (kp_system k) = (Ok routes, w1)" "sys_on_link_networks sys w1 = (Ok on_link, w)"
      "apply_actions sys (plan routes on_link (kp_destinations k) (kp_applied k) (kp_tunnel_interface k)) False (k\<lparr>kp_system := w\<rparr>) = (Err e, k')"
  | routes w1 on_link w moved k1 where "r = Ok ()" "sys_default_routes sys (kp_system k) = (Ok routes, w1)" "sys_on_link_networks sys w1 = (Ok on_link, w)"
      "apply_actions sys (plan routes on_link (kp_destinations k) (kp_applied k) (kp_tunnel_interface k)) False (k\<lparr>kp_system := w\<rparr>) = (Ok moved, k1)"
      "k' = k1\<lparr>kp_report := next_report moved k1\<rparr>"
proof -
  obtain q1 w1 where a: "sys_default_routes sys (kp_system k) = (q1, w1)" by fastforce
  obtain q2 w2 where b: "sys_on_link_networks sys w1 = (q2, w2)" by fastforce
  show thesis
  proof (cases q1)
    case (Inl e)
    then show thesis using that(1) assms a by (auto simp: refresh_def)
  next
    case q1: (Inr routes)
    show thesis
    proof (cases q2)
      case (Inl e)
      then show thesis using that(1) assms a b q1 by (auto simp: refresh_def)
    next
      case (Inr on_link)
      obtain q3 k1 where c: "apply_actions sys (plan routes on_link (kp_destinations k) (kp_applied k) (kp_tunnel_interface k)) False
          (k\<lparr>kp_system := w2\<rparr>) = (q3, k1)" by fastforce
      show thesis
        using that(2) [OF _ a [unfolded q1] b [unfolded Inr]] that(3) [OF _ a [unfolded q1] b [unfolded Inr]] assms a b c q1 Inr
        by (cases q3) (auto simp: refresh_def Let_def)
    qed
  qed
qed

lemma refresh_parts:
  assumes run: "refresh sys k = (r, k')" and known: "routes_known k"
  shows "routes_known k' \<and> kp_destinations k' = kp_destinations k \<and> kp_tunnel_interface k' = kp_tunnel_interface k"
proof -
  have sys: "routes_known (k\<lparr>kp_system := w\<rparr>)" for w using known by (simp add: routes_known_def)
  have step: "routes_known k1 \<and> kp_destinations k1 = kp_destinations k \<and> kp_tunnel_interface k1 = kp_tunnel_interface k"
    if ran: "apply_actions sys (plan routes on_link (kp_destinations k) (kp_applied k) (kp_tunnel_interface k)) False (k\<lparr>kp_system := w\<rparr>) = (q, k1)"
    for routes on_link w q k1
    using apply_actions_known [OF ran sys] by (auto dest: plan_destinations)
  show ?thesis using run
  proof (cases rule: refresh_cases)
    case (1 w e)
    then show ?thesis using sys by simp
  next
    case 2
    then show ?thesis using step by blast
  next
    case (3 routes w1 on_link w moved k1)
    then show ?thesis using step [OF 3(4)] by simp
  qed
qed

lemma keeper_new_known [simp]: "routes_known (keeper_new ds tunnel w)"
  by (simp add: routes_known_def keeper_new_def bt_ok_def)

lemma engage_known:
  "engage_with sys ds tunnel w = (Ok (), k) \<Longrightarrow> routes_known k \<and> kp_destinations k = ds \<and> kp_tunnel_interface k = tunnel"
proof -
  assume "engage_with sys ds tunnel w = (Ok (), k)"
  then obtain w' where "refresh sys (keeper_new ds tunnel w') = (Ok (), k)"
    unfolding engage_with_def by (auto split: prod.splits sum.splits)
  from refresh_parts [OF this keeper_new_known] show ?thesis by (simp add: keeper_new_def)
qed

lemma ticks_known:
  "routes_known k \<Longrightarrow> routes_known (keeper_ticks sys n k) \<and> kp_destinations (keeper_ticks sys n k) = kp_destinations k
     \<and> kp_tunnel_interface (keeper_ticks sys n k) = kp_tunnel_interface k"
proof (induction n arbitrary: k)
  case (Suc n)
  show ?case using refresh_parts [of sys k "fst (refresh sys k)" "snd (refresh sys k)"] Suc.IH [of "snd (refresh sys k)"] Suc.prems
    by auto
qed simp

text \<open>The way a destination should go: what the module's first comment says.\<close>

definition physical :: "DefaultRoute list \<Rightarrow> rstr \<Rightarrow> IpPrefix \<Rightarrow> DefaultRoute set" where
  "physical routes tunnel d = {r \<in> set routes. dr_family r = family_of (prefix_address d) \<and> dr_interface r \<noteq> tunnel}"

definition on_an_attached_network :: "OnLinkNetwork list \<Rightarrow> rstr \<Rightarrow> IpPrefix \<Rightarrow> bool" where
  "on_an_attached_network on_link tunnel d \<longleftrightarrow> (\<exists>n \<in> set on_link. on_interface n \<noteq> tunnel
     \<and> prefix_length (on_prefix n) > 0 \<and> prefix_contains (on_prefix n) d)"

definition leaves_right :: "DefaultRoute list \<Rightarrow> OnLinkNetwork list \<Rightarrow> rstr \<Rightarrow> IpPrefix \<Rightarrow> ServerPath option \<Rightarrow> bool" where
  "leaves_right routes on_link tunnel d path = (case path of
     None \<Rightarrow> on_an_attached_network on_link tunnel d
   | Some Unreachable \<Rightarrow> \<not> on_an_attached_network on_link tunnel d \<and> physical routes tunnel d = {}
   | Some (Via r) \<Rightarrow> \<not> on_an_attached_network on_link tunnel d \<and> r \<in> physical routes tunnel d
       \<and> (\<forall>r' \<in> physical routes tunnel d. dr_metric r \<le> dr_metric r'))"

lemma attached_iff: "attached on_link tunnel d \<longleftrightarrow> on_an_attached_network on_link tunnel d"
  by (auto simp: attached_def on_an_attached_network_def list_ex_iff)

lemma best_default_physical:
  "best_default routes (family_of (prefix_address d)) tunnel = None \<longleftrightarrow> physical routes tunnel d = {}"
  "best_default routes (family_of (prefix_address d)) tunnel = Some r \<Longrightarrow>
     r \<in> physical routes tunnel d \<and> (\<forall>r' \<in> physical routes tunnel d. dr_metric r \<le> dr_metric r')"
proof -
  let ?rs = "filter (\<lambda>route. dr_family route = family_of (prefix_address d) \<and> dr_interface route \<noteq> tunnel) routes"
  have set: "set ?rs = physical routes tunnel d" by (auto simp: physical_def)
  then show "best_default routes (family_of (prefix_address d)) tunnel = None \<longleftrightarrow> physical routes tunnel d = {}"
    unfolding best_default_def min_by_key_None by (metis set_empty)
  assume "best_default routes (family_of (prefix_address d)) tunnel = Some r"
  then show "r \<in> physical routes tunnel d \<and> (\<forall>r' \<in> physical routes tunnel d. dr_metric r \<le> dr_metric r')"
    unfolding best_default_def set [symmetric] by (fastforce dest!: min_by_key_Some simp: route_key_def less_eq_prod_def)
qed

lemma desired_right: "leaves_right routes on_link tunnel d (desired routes on_link tunnel d)"
  using best_default_physical [of routes d tunnel]
  by (auto simp: leaves_right_def desired_def attached_iff split: option.splits)

lemma refresh_moves_routes:
  assumes "refresh sys k = (Ok (), k')" "routes_known k"
  shows "\<exists>routes on_link w w' moved. sys_default_routes sys (kp_system k) = (Ok routes, w) \<and> sys_on_link_networks sys w = (Ok on_link, w')
    \<and> (\<forall>d \<in> set (kp_destinations k). table (kp_done k') (prefix_key d) = desired routes on_link (kp_tunnel_interface k) d)
    \<and> (moved \<longleftrightarrow> (\<exists>d \<in> set (kp_destinations k). table (kp_done k) (prefix_key d) \<noteq> None
         \<and> table (kp_done k) (prefix_key d) \<noteq> table (kp_done k') (prefix_key d)))
    \<and> generation (kp_report k') = (generation (kp_report k) + (if moved then 1 else 0)) mod 2 ^ 64
    \<and> (offline (kp_report k') \<longleftrightarrow> kp_applied k' \<noteq> [] \<and> (\<forall>x \<in> set (kp_applied k'). snd x = Unreachable))"
proof -
  obtain routes on_link w w' moved k1 where run: "sys_default_routes sys (kp_system k) = (Ok routes, w)"
      "sys_on_link_networks sys w = (Ok on_link, w')"
      "apply_actions sys (plan routes on_link (kp_destinations k) (kp_applied k) (kp_tunnel_interface k)) False (k\<lparr>kp_system := w'\<rparr>) = (Ok moved, k1)"
      "k' = k1\<lparr>kp_report := next_report moved k1\<rparr>"
    using assms(1) by (cases rule: refresh_cases) auto
  have known: "routes_known (k\<lparr>kp_system := w'\<rparr>)" and m: "map_of (kp_applied k) = table (kp_done k)"
    using assms(2) by (auto simp: routes_known_def)
  have rep: "kp_report k1 = kp_report k" using apply_actions_known [OF run(3) known] by (auto dest: plan_destinations)
  show ?thesis
    using run apply_plan [OF run(3) [unfolded plan_def] known, simplified] rep unfolding m
    by (auto simp: next_report_def list_all_iff case_prod_beta intro!: exI [of _ moved])
qed


definition left_behind :: "'w KeeperState \<Rightarrow> RouteAction set" where
  "left_behind k = {Remove d p | d p. table (kp_done k) (prefix_key d) = Some p}"

lemma release_actions_left:
  assumes "\<And>x p. table (kp_done k) x = Some p \<Longrightarrow> (x, p) \<in> set m \<or> Remove (prefix_of_key x) p \<in> set (kp_refused k)"
  shows "table (kp_done (release_actions sys (plan_release m) k)) x = Some p \<Longrightarrow>
    Remove (prefix_of_key x) p \<in> set (kp_refused (release_actions sys (plan_release m) k))"
  using assms
proof (induction m arbitrary: k)
  case Nil
  then show ?case by (auto simp: plan_release_def)
next
  case (Cons e m)
  obtain y q where e: "e = (y, q)" by fastforce
  obtain r k1 where r: "system_apply sys (Remove (prefix_of_key y) q) k = (r, k1)" by fastforce
  have left: "(x, p) \<in> set m \<or> Remove (prefix_of_key x) p \<in> set (kp_refused k1)" if in_table: "table (kp_done k1) x = Some p" for x p
    using Cons.prems(2) [of x p] in_table system_apply_cases [OF r] e by (cases "r = Ok ()") (auto split: if_splits)
  have "release_actions sys (plan_release (e # m)) k = release_actions sys (plan_release m) k1"
    by (simp add: plan_release_def e r)
  then show ?case using Cons.IH [OF _ left] Cons.prems(1) by simp
qed

lemma release_leaves:
  assumes "routes_known k"
  shows "left_behind (keeper_release sys k) \<subseteq> set (kp_refused (keeper_release sys k))"
proof -
  have "table (kp_done k) x = Some p \<Longrightarrow> (x, p) \<in> set (kp_applied k) \<or> Remove (prefix_of_key x) p \<in> set (kp_refused k)" for x p
    using assms map_of_SomeD [of "kp_applied k" x p] by (simp add: routes_known_def)
  note left = release_actions_left [OF this]
  have "Remove d p \<in> set (kp_refused (keeper_release sys k))" if "table (kp_done (keeper_release sys k)) (prefix_key d) = Some p" for d p
    using left [where x = "prefix_key d" and p = p and sys = sys] that by (simp add: keeper_release_def)
  then show ?thesis by (auto simp: left_behind_def)
qed

text \<open>
  C34: The keeper knows every route it has in the system's table, whatever the system refused, and
  once it is dropped, after any number of refreshes, the only routes still there are ones whose
  removal the system refused. The same holds when it could not engage.
\<close>

theorem routes_are_taken_back:
  "case keeper_engage sys servers bypassed tunnel w of
     (Ok _, k) \<Rightarrow> (let k' = keeper_ticks sys n k in map_of (kp_applied k') = table (kp_done k')
        \<and> left_behind (keeper_release sys k') \<subseteq> set (kp_refused (keeper_release sys k')))
   | (Err e, k) \<Rightarrow> left_behind k \<subseteq> set (kp_refused k)"
proof -
  obtain r k where r: "keeper_engage sys servers bypassed tunnel w = (r, k)" by fastforce
  show ?thesis
  proof (cases r)
    case (Inl e)
    have "left_behind k \<subseteq> set (kp_refused k)"
    proof (cases "sys_clear_stale sys w")
      case (Pair q w')
      obtain r1 k1 where r1: "refresh sys (keeper_new (keeper_destinations servers bypassed) tunnel w') = (r1, k1)" by fastforce
      have known: "routes_known k1" using refresh_parts [OF r1] by simp
      have new: "left_behind (keeper_new ds tun v) = {}" for ds tun v by (simp add: left_behind_def keeper_new_def)
      show ?thesis using r Inl Pair r1 release_leaves [OF known, of sys]
        by (cases q; cases r1) (auto simp: keeper_engage_def engage_with_def new)
    qed
    then show ?thesis using r Inl by simp
  next
    case (Inr u)
    then have "routes_known (keeper_ticks sys n k)"
      using engage_known [of sys _ tunnel w k] ticks_known [of k sys n] r by (simp add: keeper_engage_def)
    then show ?thesis using r Inr release_leaves by (simp add: routes_known_def Let_def)
  qed
qed

subsection \<open>A sample\<close>

definition sample_gateway :: DefaultRoute where
  "sample_gateway = \<lparr>dr_family = FamilyV4, dr_interface = lit ''wlan0'', dr_interface_index = 0,
     dr_gateway = Some (V4 1), dr_metric = 600\<rparr>"

definition sample_routes :: "nat RouteSystem" where
  "sample_routes = \<lparr>sys_default_routes = (\<lambda>w. (Ok (if w < 3 then [sample_gateway] else []), Suc w)),
     sys_on_link_networks = (\<lambda>w. (Ok [], w)), sys_apply = (\<lambda>a w. (Ok (), Suc w)), sys_clear_stale = (\<lambda>w. (Ok (), w))\<rparr>"

text \<open>Two refreshes on the first network, then it is gone: the server becomes unreachable.\<close>

lemmas sample_route_defs = sample_routes_def sample_gateway_def keeper_engage_def engage_with_def keeper_destinations_def
  refresh_def plan_def List.map_filter_def plan_one_def best_default_def attached_def system_apply_def keeper_new_def prefix_host_def
  prefix_key_def next_report_def route_key_def

definition sample_engaged_keeper :: "(rstr + unit) \<times> nat KeeperState" where
  "sample_engaged_keeper = keeper_engage sample_routes [V4 9] [] (lit ''ket0'') 0"

definition sample_refreshed :: "(rstr + unit) \<times> nat KeeperState" where
  "sample_refreshed = refresh sample_routes (keeper_ticks sample_routes 1 (snd sample_engaged_keeper))"

lemma sample_keeper:
  "fst sample_engaged_keeper = Ok ()" "fst sample_refreshed = Ok ()"
  "kp_report (snd sample_refreshed) = \<lparr>generation = 1, offline = True\<rparr>"
  unfolding sample_engaged_keeper_def sample_refreshed_def by (simp_all add: sample_route_defs lit_def)


text \<open>
  A refresh that fails part of the way drops what it knows of moves: here the first server's route
  moves to another gateway, the second server's is refused, and the next refresh installs that one
  and reports no move, although the network changed.
\<close>

definition roaming_routes :: "nat RouteSystem" where
  "roaming_routes = \<lparr>sys_default_routes = (\<lambda>w. (Ok [sample_gateway\<lparr>dr_gateway := Some (V4 (if w = 0 then 1 else 2))\<rparr>], w)),
     sys_on_link_networks = (\<lambda>w. (Ok (if w = 0 then [\<lparr>on_prefix = prefix_host (V4 11), on_interface = lit ''wlan0''\<rparr>] else []), Suc w)),
     sys_apply = (\<lambda>a w. (if w = 2 \<and> action_destination a = prefix_host (V4 11) then Err (lit ''busy'') else Ok (), w)),
     sys_clear_stale = (\<lambda>w. (Ok (), w))\<rparr>"

definition roaming_gateway :: DefaultRoute where
  "roaming_gateway = sample_gateway\<lparr>dr_gateway := Some (V4 2)\<rparr>"

definition roaming_keeper :: "nat \<Rightarrow> applied_routes \<Rightarrow> RouteAction list \<Rightarrow> RouteAction list \<Rightarrow> nat KeeperState" where
  "roaming_keeper w m l r = \<lparr>kp_system = w, kp_destinations = [prefix_host (V4 9), prefix_host (V4 11)],
     kp_tunnel_interface = lit ''ket0'', kp_applied = m, kp_report = \<lparr>generation = 0, offline = False\<rparr>, kp_done = l, kp_refused = r\<rparr>"

lemmas roaming_defs = roaming_routes_def roaming_gateway_def roaming_keeper_def prefix_contains_def lit_def sample_route_defs

lemma roaming_engaged:
  "keeper_engage roaming_routes [V4 9, V4 11] [] (lit ''ket0'') 0 =
     (Ok (), roaming_keeper 1 [((V4 9, 32), Via sample_gateway)] [Install (prefix_host (V4 9)) (Via sample_gateway) None] [])"
  by (simp add: roaming_defs)

lemma roaming_refused:
  "refresh roaming_routes (roaming_keeper 1 [((V4 9, 32), Via sample_gateway)] l []) =
     (Err (lit ''busy''), roaming_keeper 2 [((V4 9, 32), Via roaming_gateway)]
        (Install (prefix_host (V4 9)) (Via roaming_gateway) (Some (Via sample_gateway)) # l)
        [Install (prefix_host (V4 11)) (Via roaming_gateway) None])"
  by (simp add: roaming_defs)

lemma roaming_done:
  "refresh roaming_routes (roaming_keeper 2 [((V4 9, 32), Via roaming_gateway)] l r) =
     (Ok (), roaming_keeper 3 [((V4 9, 32), Via roaming_gateway), ((V4 11, 32), Via roaming_gateway)]
        (Install (prefix_host (V4 11)) (Via roaming_gateway) None # l) r)"
  by (simp add: roaming_defs less_eq_IpAddr_def less_IpAddr_def)

lemma move_goes_unreported:
  "let k = snd (keeper_engage roaming_routes [V4 9, V4 11] [] (lit ''ket0'') 0); k' = keeper_ticks roaming_routes (Suc (Suc 0)) k in
     table (kp_done k) (prefix_key (prefix_host (V4 9))) = Some (Via sample_gateway)
   \<and> table (kp_done k') (prefix_key (prefix_host (V4 9))) = Some (Via roaming_gateway)
   \<and> sample_gateway \<noteq> roaming_gateway \<and> kp_report k' = kp_report k"
proof -
  have "kp_destinations (roaming_keeper w m l r) \<noteq> []" for w m l r by (simp add: roaming_keeper_def)
  then show ?thesis unfolding roaming_engaged keeper_ticks.simps snd_conv roaming_refused roaming_done Let_def
    by (simp add: roaming_refused roaming_done) (simp add: roaming_keeper_def prefix_host_def roaming_gateway_def sample_gateway_def)
qed

end
