(* ===== verification/Share_Networks.thy ===== *)
theory Share_Networks
  imports Route_Keeper
begin

text \<open>
  Which of the computer's addresses a share is offered on, and the tunnel it goes out through
  (crates/ket-client-core, \<open>share/plan.rs\<close>). What the system lists, and which interfaces are
  up, are arguments.
\<close>

definition LINUX_BRIDGE :: rstr where "LINUX_BRIDGE = lit ''ket0''"
definition LINUX_OPENVPN :: rstr where "LINUX_OPENVPN = lit ''ketvpn0''"

definition BRIDGE_RESOLVERS :: "ipv4 list" where "BRIDGE_RESOLVERS = [ipv4_of 198 18 0 1]"
definition OPENVPN_RESOLVERS :: "ipv4 list" where "OPENVPN_RESOLVERS = [ipv4_of 1 1 1 1, ipv4_of 1 0 0 1]"

record ShareNetwork =
  sn_interface :: rstr
  sn_address :: ipv4
  sn_kind :: NetworkKind

record LocalAddress =
  la_interface :: rstr
  la_address :: ipv4
  la_kind :: NetworkKind
  la_tunnel :: bool

datatype Binding = Device rstr | Index nat

record Tunnel =
  binding :: Binding
  resolvers :: "ipv4 list"

text \<open>\<open>Ipv4Addr::is_private\<close>: 10.0.0.0/8, 172.16.0.0/12 and 192.168.0.0/16.\<close>

definition is_private :: "ipv4 \<Rightarrow> bool" where
  "is_private a \<longleftrightarrow> ipv4_octet 0 a = 10
     \<or> (ipv4_octet 0 a = 172 \<and> 16 \<le> ipv4_octet 1 a \<and> ipv4_octet 1 a \<le> 31)
     \<or> (ipv4_octet 0 a = 192 \<and> ipv4_octet 1 a = 168)"

fun kind_rank :: "NetworkKind \<Rightarrow> nat" where
  "kind_rank Wifi = 0"
| "kind_rank Ethernet = 1"
| "kind_rank _ = 2"

text \<open>\<open>Vec::dedup_by_key\<close>: of neighbours with one key the first is kept.\<close>

fun dedup_by_key :: "('a \<Rightarrow> 'k) \<Rightarrow> 'a list \<Rightarrow> 'a list" where
  "dedup_by_key key (x # y # r) = (if key x = key y then dedup_by_key key (x # r) else x # dedup_by_key key (y # r))"
| "dedup_by_key key xs = xs"

definition offered :: "LocalAddress \<Rightarrow> bool" where
  "offered a \<longleftrightarrow> \<not> la_tunnel a \<and> la_kind a \<noteq> Cellular \<and> is_private (la_address a)"

definition share_network :: "LocalAddress \<Rightarrow> ShareNetwork" where
  "share_network a = \<lparr>sn_interface = la_interface a, sn_address = la_address a, sn_kind = la_kind a\<rparr>"

definition share_networks :: "LocalAddress list \<Rightarrow> ShareNetwork list" where
  "share_networks addresses = dedup_by_key sn_address
     (sort_key (\<lambda>n. (kind_rank (sn_kind n), sn_interface n, sn_address n)) (map share_network (filter offered addresses)))"

definition linux_tunnel :: "(rstr \<Rightarrow> bool) \<Rightarrow> Tunnel option" where
  "linux_tunnel up =
     (if up LINUX_BRIDGE then Some \<lparr>binding = Device LINUX_BRIDGE, resolvers = BRIDGE_RESOLVERS\<rparr>
      else if up LINUX_OPENVPN then Some \<lparr>binding = Device LINUX_OPENVPN, resolvers = OPENVPN_RESOLVERS\<rparr>
      else None)"

subsection \<open>What is offered\<close>

lemma dedup_keys: "key ` set (dedup_by_key key xs) = key ` set xs"
  by (induction key xs rule: dedup_by_key.induct) auto

lemma dedup_sub: "x \<in> set (dedup_by_key key xs) \<Longrightarrow> x \<in> set xs"
  by (induction key xs rule: dedup_by_key.induct) (auto split: if_splits)

lemma dedup_sorted: "sorted (map f xs) \<Longrightarrow> sorted (map f (dedup_by_key key xs))"
  by (induction key xs rule: dedup_by_key.induct) (auto dest!: dedup_sub)

text \<open>Every address that may be shared on is offered and no other, Wi-Fi before Ethernet before the rest.\<close>

lemma share_networks_exactly:
  "sn_address ` set (share_networks addresses) = la_address ` {a \<in> set addresses. offered a}"
  "sorted (map (\<lambda>n. (kind_rank (sn_kind n), sn_interface n, sn_address n)) (share_networks addresses))"
  unfolding share_networks_def by (auto simp: dedup_keys share_network_def image_image intro!: dedup_sorted)

lemma share_never_on_tunnel:
  "n \<in> set (share_networks addresses) \<Longrightarrow>
     sn_kind n \<noteq> Cellular \<and> is_private (sn_address n) \<and> (\<exists>a \<in> set addresses. n = share_network a \<and> \<not> la_tunnel a)"
  unfolding share_networks_def by (drule dedup_sub) (auto simp: share_network_def offered_def)

text \<open>
  Only neighbours are compared, and the order is by interface before address, so an address two
  interfaces hold is offered twice when another lies between them.
\<close>

lemma address_offered_twice:
  "map sn_address (share_networks
     [\<lparr>la_interface = lit ''a'', la_address = ipv4_of 10 0 0 1, la_kind = Ethernet, la_tunnel = False\<rparr>,
      \<lparr>la_interface = lit ''b'', la_address = ipv4_of 10 0 0 2, la_kind = Ethernet, la_tunnel = False\<rparr>,
      \<lparr>la_interface = lit ''c'', la_address = ipv4_of 10 0 0 1, la_kind = Ethernet, la_tunnel = False\<rparr>])
   = [ipv4_of 10 0 0 1, ipv4_of 10 0 0 2, ipv4_of 10 0 0 1]"
  by (simp add: share_networks_def offered_def share_network_def is_private_def ipv4_of_def ipv4_octet_def lit_def)

end
