(* ===== verification/Spec2Isabelle.thy ===== *)
theory Spec2Isabelle
  imports Access_Behaviour Update_Policy Ket_Invite Share_Server Client_Fallback Tunnel_Session Leak_Guard Share_Networks
begin

text \<open>
  \<^bold>\<open>Ket.\<close> A node gives people access by invitation: its server hands out grants and keeps their
  sessions, an app enrols with an invite, picks a transport and keeps a tunnel up, a privileged
  service runs that tunnel on a desktop, and a share lets nearby devices use it. The theories
  below model these parts and prove what each of them promises. Paths are under src/crates.

  \<^bold>\<open>Reading the model.\<close> A Rust struct is a record, an enum a datatype, each function or section
  under a lock one definition, with the source's name where it is free. Results are \<open>'e + 'a\<close>
  (\<open>Err\<close>, \<open>Ok\<close>); \<open>u64\<close> and \<open>u32\<close> are \<open>nat\<close> with their saturation or wrap-around written out,
  bytes and addresses are words, \<open>str\<close> is the list of its Unicode scalar values, a
  \<open>BTreeMap\<close> is a sorted association list. Clocks, random bytes, hashes, signatures, JSON, URL
  parsing, the disk, sockets, engines, the routing table and the Windows filter engine are
  arguments; what is assumed of one is a hypothesis of the theorems that need it, and their
  witnesses give an instance. Operations that lock once per section are split there, and
  arbitrary interleavings of the sections are considered; operations the source holds one lock
  for are one step.

  \<^bold>\<open>Foundations.\<close> \<open>Ket_Prelude\<close> (results, saturating arithmetic, text, lists, the locale
  \<open>bounded_store\<close>), \<open>Text_Scan\<close>, \<open>Net\<close> and \<open>Ip_Text\<close> (what the standard library does with text
  and addresses), \<open>Step_Monad\<close> (state monad and \<open>after m Q s\<close>, the rules by which the client and
  tunnel proofs go through a program).

  \<^bold>\<open>Access server (ket-server, ket-core).\<close>
  \<^item> \<open>Secret\<close>: access codes and session tokens (\<open>secret.rs\<close>).
  \<^item> \<open>Allowance\<close>, \<open>Usage\<close>: calendar periods, a grant's running total, the meter
    (\<open>allowance.rs\<close> of both crates, \<open>meter.rs\<close>). Each byte of a counter is reported once.
  \<^item> \<open>Model\<close>, \<open>Repository\<close>: the persisted state and its validator, the state file over a disk
    whose operations fail (\<open>model.rs\<close>, \<open>repository.rs\<close>). The validator accepts exactly the
    well-formed states; a store is atomic. The locale \<open>state_repository\<close> is the contract, with
    the file as its instance.
  \<^item> \<open>Activity\<close>: the bounded log per grant (\<open>activity.rs\<close>), an instance of \<open>bounded_store\<close>.
  \<^item> \<open>Grant_Admin\<close>, \<open>Access_Service\<close>: changing a grant, and every request of the service
    (\<open>grant_admin.rs\<close>, \<open>service.rs\<close>).
  \<^item> \<open>Access_Invariants\<close>: the sections under the state lock as steps \<open>svc_step\<close>, proved in the
    locale \<open>access_repository\<close> over any repository and taken to the file: every reachable state
    is valid and within the node's capacity, the disk agrees with memory up to usage not yet
    written, and each request is a sequence of steps.
  \<^item> \<open>Access_Behaviour\<close>: who is enrolled, what a token opens, sign-in at a protocol server,
    counting, clean-up, and that a request that fails changes nothing.

  \<^bold>\<open>Updates (ket-update).\<close> \<open>Release_Version\<close>, \<open>Release_Dates\<close>, \<open>Update_Policy\<close>: versions, dates, the
  release manifest and the advice a server gives, with \<open>updates.rs\<close> of ket-server: exactly when
  an app is refused.

  \<^bold>\<open>Invites (invite-capsule, ket-invite).\<close> \<open>Cbor\<close>, \<open>Node_Key\<close>, \<open>Locator\<close>, \<open>Manual_Text\<close>, \<open>Invite\<close>,
  \<open>Ket_Invite\<close>: canonical CBOR, keys, locators, the text forms, the signed capsule for any
  profile (locale \<open>invite_profile\<close>, instantiated with Ket's) and the enrolment proof. A binary is
  accepted exactly when it is the one encoding of an invite that verifies; an issued invite
  opens until it expires. \<open>Sample_Primitives\<close> instantiates the cryptographic arguments.

  \<^bold>\<open>Local share (ket-share).\<close> \<open>Share_Dial\<close> (address policy, targets, dialling), \<open>Share_Dns\<close>
  (lookups), \<open>Share_Front\<close> (SOCKS5 and HTTP), \<open>Share_Server\<close> (limiter, accept loop and connection
  tasks as interleaved steps): only devices that signed in reach anything, and only public
  addresses; counts are right and bounded; a share told to stop comes to an end.

  \<^bold>\<open>Client (ket-client-core).\<close>
  \<^item> \<open>Client_Contract\<close>: what a client accepts from a server (\<open>validation.rs\<close>, \<open>error.rs\<close>).
  \<^item> \<open>Client_Strategy\<close>: ranking transports and remembering them per network (\<open>strategy.rs\<close>,
    \<open>transport_memory.rs\<close>).
  \<^item> \<open>Engine\<close>: the engines' interface (\<open>transport.rs\<close>) with a log of the calls made of them, and
    the locale \<open>tunnel_holder\<close>: a component that starts and stops tunnels, runs them one at a
    time and holds what runs. It is interpreted for the client and for the tunnel service.
  \<^item> \<open>Client_Machine\<close>, \<open>Client_Invariant\<close>, \<open>Client_Behaviour\<close>: every operation of \<open>client.rs\<close>, its
    invariant, and what holds over any sequence of operations, whatever server, engines, clock
    and cancellation do. \<open>Client_Log\<close>: why a working tunnel is given up. \<open>Client_Fallback\<close>: the
    order in which transports are tried.
  \<^item> \<open>Route_Keeper\<close>: keeping servers and bypassed networks on the physical network
    (\<open>route_keeper\<close>). Destinations leave the right way after each refresh, and every route is
    taken back or its removal was refused.
  \<^item> \<open>Leak_Guard\<close>: the Windows guard (\<open>leak_guard\<close>): one intended decision for each connection.
  \<^item> \<open>Share_Networks\<close>: the addresses a share is offered on (\<open>share/plan.rs\<close>).

  \<^bold>\<open>Tunnel service (ket-tunnel-protocol, ket-tunnel-service).\<close> \<open>Tunnel_Protocol\<close> (prefixes, the
  bypass list), \<open>Tunnel_Service\<close> (leases, the reaper), \<open>Tunnel_Session\<close> (frames, token, handshake):
  a bypass list stays narrow, every running tunnel is under a lease, a live lease is respected,
  and only a holder of the installation token is obeyed.

  \<^bold>\<open>Bounds.\<close> No definition takes fuel: recursion is structural or has a termination proof, and a
  loop over attempts, such as the share's name lookup, recurses on the number of attempts the
  source allows. Tasks that run for ever, such as clean-up, the lease reaper, the route
  keeper's timer and the accept loop, are sequences of their steps of any length. Counters that
  wrap do so at 64 bits in the model as well.

  \<^bold>\<open>Not modelled.\<close> The HTTP interface and configuration of the server, its protocol back ends and
  agents; the client's HTTP connection, its engines and the bridge of \<open>full_route.rs\<close>, DNS and
  routing commands: they are input and output around the modelled operations, whose arguments
  they provide. The sealed control channel is HPKE of a library. QR decoding, the Android
  bridges, the apps and the vendored glib are outside these crates' logic. A timeout that cuts
  an engine call of the tunnel service short, and the failure of a joined task, are not
  modelled. The filters of the leak guard are given the meaning the Filtering Platform documents;
  the bytes of its structures are not modelled.
\<close>

end
